(* ===== verification/Py_Prelude.thy ===== *)
theory Py_Prelude
  imports Main "HOL-Library.AList" "HOL-Library.Multiset"
begin

text \<open>
  Shared vocabulary of the development. Python exceptions are the \<open>Inl\<close> side of a sum
  (\<open>'a res\<close>), sequenced with \<open>rbind\<close>; a \<open>for\<close> loop that may raise is \<open>foldR\<close> or
  \<open>mapR\<close>. A dict is an association list with distinct keys
  (\<open>AList.update\<close>, \<open>AList.delete\<close>, \<open>map_of\<close>): the list order stands for the unspecified
  iteration order of a Python 2 dict, so a theorem about every list holds for every order.
  Strings are byte lists (UTF-8), and the string methods the tools use are written out here.
\<close>

named_theorems res_simps \<open>equations of the result monad\<close>
named_theorems str_simps \<open>equations of the Python string methods\<close>

subsection \<open>Results: Python exceptions as values\<close>

datatype exc =
    KeyError | IndexError | ValueError | TypeError | AttributeError | AssertionError
  | RuntimeError string

type_synonym str = string
type_synonym 'a res = "exc + 'a"

definition rbind :: "'a res \<Rightarrow> ('a \<Rightarrow> 'b res) \<Rightarrow> 'b res" where
  "rbind m f = (case m of Inl e \<Rightarrow> Inl e | Inr x \<Rightarrow> f x)"

lemma rbind_simps [simp]:
  "rbind (Inl e) f = Inl e" "rbind (Inr x) f = f x"
  by (simp_all add: rbind_def)

lemma rbind_eq_Inr [res_simps]: "rbind m f = Inr y \<longleftrightarrow> (\<exists>x. m = Inr x \<and> f x = Inr y)"
  by (cases m) auto

lemma rbind_eq_Inl [res_simps]:
  "rbind m f = Inl e \<longleftrightarrow> m = Inl e \<or> (\<exists>x. m = Inr x \<and> f x = Inl e)"
  by (cases m) auto

lemma rbind_assoc [res_simps]: "rbind (rbind m f) g = rbind m (\<lambda>x. rbind (f x) g)"
  by (cases m) auto

lemma rbind_cong [fundef_cong]:
  "m = m' \<Longrightarrow> (\<And>x. m' = Inr x \<Longrightarrow> f x = g x) \<Longrightarrow> rbind m f = rbind m' g"
  by (cases m') auto

definition of_option :: "exc \<Rightarrow> 'a option \<Rightarrow> 'a res" where
  "of_option e x = (case x of None \<Rightarrow> Inl e | Some y \<Rightarrow> Inr y)"

lemma of_option_simps [simp]:
  "of_option e None = Inl e" "of_option e (Some x) = Inr x"
  by (simp_all add: of_option_def)

lemma of_option_eq_Inr [res_simps]: "of_option e x = Inr y \<longleftrightarrow> x = Some y"
  by (cases x) auto

text \<open>A loop whose body may raise: the exception leaves the loop.\<close>

fun foldR :: "('s \<Rightarrow> 'a \<Rightarrow> 's res) \<Rightarrow> 's \<Rightarrow> 'a list \<Rightarrow> 's res" where
  "foldR f s [] = Inr s"
| "foldR f s (x # xs) = rbind (f s x) (\<lambda>s'. foldR f s' xs)"

fun mapR :: "('a \<Rightarrow> 'b res) \<Rightarrow> 'a list \<Rightarrow> 'b list res" where
  "mapR f [] = Inr []"
| "mapR f (x # xs) = rbind (f x) (\<lambda>y. rbind (mapR f xs) (\<lambda>ys. Inr (y # ys)))"

lemma foldR_append: "foldR f s (xs @ ys) = rbind (foldR f s xs) (\<lambda>s'. foldR f s' ys)"
proof (induction xs arbitrary: s)
  case (Cons x xs)
  then show ?case by (cases "f s x") auto
qed simp

lemma foldR_invariant:
  assumes "foldR f s xs = Inr t" and "P s"
    and "\<And>u x v. x \<in> set xs \<Longrightarrow> P u \<Longrightarrow> f u x = Inr v \<Longrightarrow> P v"
  shows "P t"
  using assms
proof (induction xs arbitrary: s)
  case (Cons x xs)
  then obtain v where v: "f s x = Inr v" "foldR f v xs = Inr t"
    by (auto simp: res_simps)
  have "P v" using Cons.prems(3) [of x s v] Cons.prems(2) v(1) by simp
  show ?case
  proof (rule Cons.IH [OF v(2) \<open>P v\<close>])
    fix y u w
    assume "y \<in> set xs" "P u" "f u y = Inr w"
    then show "P w" using Cons.prems(3) [of y u w] by simp
  qed
qed simp

lemma mapR_Inr_iff: "mapR f xs = Inr ys \<longleftrightarrow> list_all2 (\<lambda>x y. f x = Inr y) xs ys"
  by (induction xs arbitrary: ys) (auto simp: res_simps list_all2_Cons1)

lemma mapR_length: "mapR f xs = Inr ys \<Longrightarrow> length ys = length xs"
  by (auto simp: mapR_Inr_iff dest: list_all2_lengthD)

lemma mapR_mem: "mapR f xs = Inr ys \<Longrightarrow> y \<in> set ys \<Longrightarrow> \<exists>x \<in> set xs. f x = Inr y"
  by (induction xs arbitrary: ys) (auto simp: res_simps)

lemma mapR_cong [fundef_cong]:
  "xs = ys \<Longrightarrow> (\<And>x. x \<in> set ys \<Longrightarrow> f x = g x) \<Longrightarrow> mapR f xs = mapR g ys"
  by (induction ys arbitrary: xs) auto

lemma foldR_cong [fundef_cong]:
  assumes "s = t" and "xs = ys" and "\<And>x u. x \<in> set ys \<Longrightarrow> f u x = g u x"
  shows "foldR f s xs = foldR g t ys"
proof -
  have "foldR f s ys = foldR g s ys" if "\<And>x u. x \<in> set ys \<Longrightarrow> f u x = g u x"
    using that by (induction ys arbitrary: s) (auto intro!: rbind_cong)
  with assms show ?thesis by simp
qed

subsection \<open>Lists and dicts\<close>

definition nth_res :: "'a list \<Rightarrow> nat \<Rightarrow> 'a res" where
  "nth_res xs i = (if i < length xs then Inr (xs ! i) else Inl IndexError)"

definition dict_get :: "('k \<times> 'v) list \<Rightarrow> 'k \<Rightarrow> 'v res" where
  "dict_get d k = of_option KeyError (map_of d k)"

definition dict_ok :: "('k \<times> 'v) list \<Rightarrow> bool" where
  "dict_ok d \<longleftrightarrow> distinct (map fst d)"

lemma dict_get_Inr [res_simps]: "dict_get d k = Inr v \<longleftrightarrow> map_of d k = Some v"
  by (simp add: dict_get_def res_simps)

lemma dict_ok_Nil [simp]: "dict_ok []"
  by (simp add: dict_ok_def)

lemma dict_ok_update [simp, intro]: "dict_ok d \<Longrightarrow> dict_ok (AList.update k v d)"
  by (simp add: dict_ok_def distinct_update)

lemma dict_ok_delete [simp, intro]: "dict_ok d \<Longrightarrow> dict_ok (AList.delete k d)"
  by (simp add: dict_ok_def distinct_delete)

lemma map_of_update [simp]: "map_of (AList.update k v d) = (map_of d)(k \<mapsto> v)"
  by (simp add: update_conv')

lemma map_of_delete [simp]: "map_of (AList.delete k d) = (map_of d)(k := None)"
  by (simp add: delete_conv')

lemma dict_ok_mem: "dict_ok d \<Longrightarrow> (k, v) \<in> set d \<longleftrightarrow> map_of d k = Some v"
  by (simp add: dict_ok_def)

lemma map_of_mset:
  assumes "dict_ok d" "mset d' = mset d"
  shows "map_of d' = map_of d"
proof -
  have "mset (map fst d') = mset (map fst d)" using assms(2) by simp
  then have "distinct (map fst d')" using assms(1) unfolding dict_ok_def
    by (metis mset_eq_imp_distinct_iff)
  then show ?thesis using assms by (metis dict_ok_def map_of_eqI mset_eq_setD distinct_map
        map_of_inject_set)
qed

lemma map_of_rev_dict: "dict_ok d \<Longrightarrow> map_of (rev d) = map_of d"
  by (rule map_of_mset) simp_all

lemma set_update_subset: "set (AList.update k v d) \<subseteq> insert (k, v) (set d)"
  by (induction d) auto

lemma update_fresh: "k \<notin> fst ` set d \<Longrightarrow> AList.update k v d = d @ [(k, v)]"
  by (induction d) auto

text \<open>\<open>for v in d.itervalues(): f(v)\<close> where \<open>f\<close> mutates the value in place.\<close>

definition map_vals :: "('v \<Rightarrow> 'w res) \<Rightarrow> ('k \<times> 'v) list \<Rightarrow> ('k \<times> 'w) list res" where
  "map_vals f d = mapR (\<lambda>(k, v). rbind (f v) (\<lambda>w. Inr (k, w))) d"

lemma map_vals_keys: "map_vals f d = Inr d' \<Longrightarrow> map fst d' = map fst d"
  unfolding map_vals_def mapR_Inr_iff
  by (induction rule: list_all2_induct) (auto simp: res_simps split: prod.splits)

lemma map_vals_lookup:
  "map_vals f d = Inr d' \<Longrightarrow> map_of d' k = Some w \<Longrightarrow> \<exists>v. map_of d k = Some v \<and> f v = Inr w"
  unfolding map_vals_def mapR_Inr_iff
  by (induction rule: list_all2_induct) (auto simp: res_simps split: prod.splits if_splits)

lemma map_vals_lookup_old:
  "map_vals f d = Inr d' \<Longrightarrow> map_of d k = Some v \<Longrightarrow> \<exists>w. map_of d' k = Some w \<and> f v = Inr w"
  unfolding map_vals_def mapR_Inr_iff
  by (induction rule: list_all2_induct) (auto simp: res_simps split: prod.splits if_splits)

lemma find_append: "find P (xs @ ys) = (case find P xs of None \<Rightarrow> find P ys | Some x \<Rightarrow> Some x)"
  by (induction xs) auto

end
