(* ===== verification/Py_String.thy ===== *)
theory Py_String
  imports Py_Prelude
begin

text \<open>
  The methods of Python 2 strings that the tools use, on UTF-8 byte lists: prefix and suffix
  tests, \<open>find\<close>, \<open>rfind\<close>, \<open>split\<close>, \<open>join\<close>, \<open>replace\<close>, \<open>strip\<close>, \<open>lower\<close>, \<open>isdigit\<close>, and
  \<open>int\<close>/\<open>str\<close> on decimal numerals. The separators the sources pass to \<open>split\<close> are ASCII, so
  splitting the bytes is splitting the text.
\<close>

text \<open>The bytes of a non-ASCII literal.\<close>

definition utf8 :: "nat list \<Rightarrow> str" where
  "utf8 bs = map char_of bs"

definition starts_with :: "str \<Rightarrow> str \<Rightarrow> bool" where
  "starts_with p s \<longleftrightarrow> take (length p) s = p"

definition ends_with :: "str \<Rightarrow> str \<Rightarrow> bool" where
  "ends_with p s \<longleftrightarrow> starts_with (rev p) (rev s)"

fun find_sub :: "str \<Rightarrow> str \<Rightarrow> nat option" where
  "find_sub p [] = (if p = [] then Some 0 else None)"
| "find_sub p (c # s) =
     (if starts_with p (c # s) then Some 0 else map_option Suc (find_sub p s))"

definition contains :: "str \<Rightarrow> str \<Rightarrow> bool" where
  "contains p s \<longleftrightarrow> find_sub p s \<noteq> None"

definition rfind_sub :: "str \<Rightarrow> str \<Rightarrow> nat option" where
  "rfind_sub p s = map_option (\<lambda>i. length s - length p - i) (find_sub (rev p) (rev s))"

lemma starts_with_append [simp, str_simps]: "starts_with p (p @ s)"
  by (simp add: starts_with_def)

lemma starts_with_Nil [simp]: "starts_with [] s"
  by (simp add: starts_with_def)

lemma starts_with_Cons [str_simps]:
  "starts_with (c # p) s \<longleftrightarrow> (case s of [] \<Rightarrow> False | d # t \<Rightarrow> c = d \<and> starts_with p t)"
  by (auto simp: starts_with_def split: list.splits)

lemma starts_with_split: "starts_with p s \<longleftrightarrow> (\<exists>t. s = p @ t)"
  by (metis append_take_drop_id starts_with_append starts_with_def)

lemma ends_with_split: "ends_with p s \<longleftrightarrow> (\<exists>t. s = t @ p)"
  unfolding ends_with_def starts_with_split
  by (metis rev_append rev_rev_ident)

lemma find_sub_Some:
  "find_sub p s = Some i \<Longrightarrow> i + length p \<le> length s \<and> s = take i s @ p @ drop (i + length p) s"
proof (induction s arbitrary: i)
  case (Cons c s)
  show ?case
  proof (cases "starts_with p (c # s)")
    case True
    then obtain t where t: "c # s = p @ t" by (auto simp: starts_with_split)
    have "i = 0" using Cons.prems True by simp
    then show ?thesis unfolding t by simp
  next
    case False
    with Cons.prems obtain j where "find_sub p s = Some j" "i = Suc j" by auto
    with Cons.IH show ?thesis by simp
  qed
qed (auto split: if_splits)

lemma find_sub_None: "find_sub p s = None \<Longrightarrow> s \<noteq> t @ p @ u"
proof (induction s arbitrary: t)
  case (Cons c s)
  show ?case
  proof (cases t)
    case Nil
    then show ?thesis using Cons.prems by (auto simp: starts_with_split split: if_splits)
  next
    case (Cons a t')
    then show ?thesis using Cons.IH [of t'] Cons.prems by (auto split: if_splits)
  qed
qed (auto split: if_splits)

lemma contains_iff: "contains p s \<longleftrightarrow> (\<exists>t u. s = t @ p @ u)"
  unfolding contains_def using find_sub_None find_sub_Some by blast

text \<open>\<open>s.split(sep)\<close>; every separator in the sources is a non-empty literal.\<close>

function split_on :: "str \<Rightarrow> str \<Rightarrow> str list" where
  "split_on sep s =
     (if sep = [] then [s]
      else case find_sub sep s of
        None \<Rightarrow> [s]
      | Some i \<Rightarrow> take i s # split_on sep (drop (i + length sep) s))"
  by pat_completeness auto
termination
proof (relation "measure (\<lambda>(sep, s). length s)", goal_cases)
  case (2 sep s i)
  then have "i + length sep \<le> length s" by (simp add: find_sub_Some)
  with 2 show ?case by (cases s) auto
qed auto

declare split_on.simps [simp del]

fun join :: "str \<Rightarrow> str list \<Rightarrow> str" where
  "join sep [] = []"
| "join sep [x] = x"
| "join sep (x # y # xs) = x @ sep @ join sep (y # xs)"

definition replace_sub :: "str \<Rightarrow> str \<Rightarrow> str \<Rightarrow> str" where
  "replace_sub old new s = join new (split_on old s)"

lemma split_on_nonempty [simp]: "split_on sep s \<noteq> []"
  by (subst split_on.simps) (auto split: option.splits)

lemma join_Cons: "xs \<noteq> [] \<Longrightarrow> join sep (x # xs) = x @ sep @ join sep xs"
  by (cases xs) auto

lemma join_split [str_simps]: "join sep (split_on sep s) = s"
proof (induction sep s rule: split_on.induct)
  case (1 sep s)
  show ?case
  proof (cases "sep = [] \<or> find_sub sep s = None")
    case True
    then show ?thesis by (subst split_on.simps) auto
  next
    case False
    then obtain i where i: "find_sub sep s = Some i" "sep \<noteq> []" by auto
    then have "join sep (split_on sep (drop (i + length sep) s)) = drop (i + length sep) s"
      using 1 by blast
    with i show ?thesis
      using find_sub_Some [OF i(1)] by (subst split_on.simps) (simp add: join_Cons)
  qed
qed

text \<open>Splitting at a single character, as in \<open>text.split(",")\<close>.\<close>

lemma starts_with_single [simp]: "starts_with [c] s \<longleftrightarrow> (case s of [] \<Rightarrow> False | d # _ \<Rightarrow> c = d)"
  by (auto simp: starts_with_def split: list.splits)

lemma find_sub_single_None: "find_sub [c] s = None \<longleftrightarrow> c \<notin> set s"
  by (induction s) auto

lemma find_sub_single_append: "c \<notin> set x \<Longrightarrow> find_sub [c] (x @ c # s) = Some (length x)"
  by (induction x) auto

lemma split_on_single_Nil: "c \<notin> set x \<Longrightarrow> split_on [c] x = [x]"
  by (subst split_on.simps) (simp add: find_sub_single_None [THEN iffD2])

lemma split_on_single_Cons:
  "c \<notin> set x \<Longrightarrow> split_on [c] (x @ c # s) = x # split_on [c] s"
  by (subst split_on.simps) (simp add: find_sub_single_append)

lemma split_join_single:
  "xs \<noteq> [] \<Longrightarrow> \<forall>x \<in> set xs. c \<notin> set x \<Longrightarrow> split_on [c] (join [c] xs) = xs"
proof (induction xs)
  case (Cons x xs)
  then show ?case
    by (cases xs) (auto simp: split_on_single_Nil split_on_single_Cons)
qed simp

lemma split_on_single_free: "x \<in> set (split_on [c] s) \<Longrightarrow> c \<notin> set x"
proof (induction "[c]" s arbitrary: x rule: split_on.induct)
  case (1 s)
  show ?case
  proof (cases "find_sub [c] s")
    case None
    then have "split_on [c] s = [s]" "c \<notin> set s"
      by (auto simp: find_sub_single_None split_on_single_Nil)
    then show ?thesis using 1(2) by simp
  next
    case (Some i)
    then obtain a b where s: "s = a @ c # b" "c \<notin> set a"
      by (metis find_sub_single_None option.distinct(1) split_list_first)
    then have "split_on [c] s = a # split_on [c] b" "i = length a"
      using Some by (auto simp: split_on_single_Cons find_sub_single_append)
    with s Some 1(2) 1(1) [of i x] show ?thesis by auto
  qed
qed

text \<open>Splitting at a longer separator, as in \<open>text.split("//")\<close>.\<close>

lemma find_sub_free: "c \<notin> set x \<Longrightarrow> find_sub (c # p) x = None"
  by (induction x) (auto simp: starts_with_Cons)

lemma find_sub_append: "c \<notin> set x \<Longrightarrow> find_sub (c # p) (x @ c # p @ s) = Some (length x)"
proof (induction x)
  case Nil
  then show ?case using starts_with_append [of "c # p" s] by simp
qed (auto simp: starts_with_Cons)

lemma split_join:
  "xs \<noteq> [] \<Longrightarrow> \<forall>x \<in> set xs. c \<notin> set x \<Longrightarrow> split_on (c # p) (join (c # p) xs) = xs"
proof (induction xs)
  case (Cons x xs)
  show ?case
  proof (cases xs)
    case Nil
    then show ?thesis using Cons.prems by (subst split_on.simps) (simp add: find_sub_free)
  next
    case (Cons y ys)
    then have "join (c # p) (x # xs) = x @ c # p @ join (c # p) xs" by simp
    then show ?thesis using Cons Cons.prems Cons.IH
      by (subst split_on.simps) (simp add: find_sub_append)
  qed
qed simp

subsection \<open>Whitespace, case and digits\<close>

definition is_ws :: "char \<Rightarrow> bool" where
  "is_ws c \<longleftrightarrow> c \<in> {CHR '' '', CHR 0x09, CHR 0x0A, CHR 0x0B, CHR 0x0C, CHR 0x0D}"

definition strip :: "str \<Rightarrow> str" where
  "strip s = rev (dropWhile is_ws (rev (dropWhile is_ws s)))"

definition is_digit :: "char \<Rightarrow> bool" where
  "is_digit c \<longleftrightarrow> 48 \<le> (of_char c :: nat) \<and> (of_char c :: nat) \<le> 57"

definition isdigit :: "str \<Rightarrow> bool" where
  "isdigit s \<longleftrightarrow> s \<noteq> [] \<and> (\<forall>c \<in> set s. is_digit c)"

definition is_upper :: "char \<Rightarrow> bool" where
  "is_upper c \<longleftrightarrow> 65 \<le> (of_char c :: nat) \<and> (of_char c :: nat) \<le> 90"

definition is_lower :: "char \<Rightarrow> bool" where
  "is_lower c \<longleftrightarrow> 97 \<le> (of_char c :: nat) \<and> (of_char c :: nat) \<le> 122"

definition is_word :: "char \<Rightarrow> bool" where
  "is_word c \<longleftrightarrow> is_upper c \<or> is_lower c \<or> is_digit c \<or> c = CHR ''_''"

definition lower_char :: "char \<Rightarrow> char" where
  "lower_char c = (if is_upper c then char_of (of_char c + 32 :: nat) else c)"

definition lower :: "str \<Rightarrow> str" where
  "lower s = map lower_char s"

lemma strip_no_ws: "\<forall>c \<in> set s. \<not> is_ws c \<Longrightarrow> strip s = s"
proof -
  have drop_id: "dropWhile is_ws t = t" if "\<forall>c \<in> set t. \<not> is_ws c" for t
    using that by (cases t) auto
  assume "\<forall>c \<in> set s. \<not> is_ws c"
  then show ?thesis by (simp add: strip_def drop_id)
qed

lemma strip_idem [simp]: "strip (strip s) = strip s"
proof -
  have idem: "dropWhile P (dropWhile P t) = dropWhile P t" for P and t :: str
    by (induction t) auto
  have keep: "dropWhile is_ws (rev (dropWhile is_ws (rev t))) = rev (dropWhile is_ws (rev t))"
    if "dropWhile is_ws t = t" for t :: str
  proof (cases "rev (dropWhile is_ws (rev t))")
    case (Cons c u)
    have "t = rev (dropWhile is_ws (rev t)) @ rev (takeWhile is_ws (rev t))"
      by (metis rev_append rev_rev_ident takeWhile_dropWhile_id)
    then obtain v where "t = c # v" using Cons by (metis append_Cons)
    then have "\<not> is_ws c" using that
      by (metis dropWhile.simps(2) impossible_Cons length_dropWhile_le)
    then show ?thesis using Cons by simp
  qed (metis dropWhile.simps(1))
  show ?thesis by (simp add: strip_def idem keep)
qed

subsection \<open>Decimal numerals: \<open>str(n)\<close> and \<open>int(s)\<close>\<close>

definition digit_char :: "nat \<Rightarrow> char" where
  "digit_char d = char_of (48 + d)"

definition digit_val :: "char \<Rightarrow> nat" where
  "digit_val c = of_char c - 48"

fun nat_str :: "nat \<Rightarrow> str" where
  "nat_str n = (if n < 10 then [digit_char n] else nat_str (n div 10) @ [digit_char (n mod 10)])"

declare nat_str.simps [simp del]

definition int_str :: "int \<Rightarrow> str" where
  "int_str i = (if i < 0 then CHR ''-'' # nat_str (nat (- i)) else nat_str (nat i))"

definition digits_val :: "str \<Rightarrow> nat" where
  "digits_val s = foldl (\<lambda>n c. 10 * n + digit_val c) 0 s"

text \<open>\<open>int(text)\<close>: surrounding whitespace, an optional sign, at least one digit.\<close>

definition parse_int :: "str \<Rightarrow> int option" where
  "parse_int s =
     (let t = strip s in
      case t of
        [] \<Rightarrow> None
      | c # u \<Rightarrow>
          if c = CHR ''-'' then (if isdigit u then Some (- int (digits_val u)) else None)
          else if c = CHR ''+'' then (if isdigit u then Some (int (digits_val u)) else None)
          else if isdigit t then Some (int (digits_val t)) else None)"

definition int_of :: "str \<Rightarrow> int res" where
  "int_of s = of_option ValueError (parse_int s)"

lemma of_char_digit: "d < 10 \<Longrightarrow> (of_char (digit_char d) :: nat) = 48 + d"
  by (simp add: digit_char_def)

lemma digit_char_is_digit [simp]: "d < 10 \<Longrightarrow> is_digit (digit_char d)"
  by (simp add: is_digit_def of_char_digit)

lemma digit_val_char [simp]: "d < 10 \<Longrightarrow> digit_val (digit_char d) = d"
  by (simp add: digit_val_def of_char_digit)

lemma is_digit_not_ws: "is_digit c \<Longrightarrow> \<not> is_ws c"
  by (auto simp: is_digit_def is_ws_def)

lemma nat_str_digits: "isdigit (nat_str n)"
proof (induction n rule: nat_str.induct)
  case (1 n)
  then show ?case by (subst nat_str.simps) (auto simp: isdigit_def)
qed

lemma digits_val_snoc [simp]: "digits_val (s @ [c]) = 10 * digits_val s + digit_val c"
  by (simp add: digits_val_def)

lemma digits_val_nat_str [simp]: "digits_val (nat_str n) = n"
proof (induction n rule: nat_str.induct)
  case (1 n)
  show ?case
  proof (cases "n < 10")
    case True
    then show ?thesis by (subst nat_str.simps) (simp add: digits_val_def)
  next
    case False
    with 1 show ?thesis by (subst nat_str.simps) simp
  qed
qed

lemma parse_int_str [simp]: "parse_int (int_str i) = Some i"
proof -
  have d: "isdigit (nat_str n)" for n by (rule nat_str_digits)
  obtain c u where cu: "nat_str (nat i) = c # u" "is_digit c"
    using d [of "nat i"] by (cases "nat_str (nat i)") (auto simp: isdigit_def)
  have ws: "\<forall>c \<in> set (int_str i). \<not> is_ws c"
    using d [of "nat i"] d [of "nat (- i)"]
    by (auto simp: int_str_def isdigit_def is_digit_not_ws) (simp add: is_ws_def)
  have sign: "c \<noteq> CHR ''-''" "c \<noteq> CHR ''+''" using cu(2) by (auto simp: is_digit_def)
  show ?thesis
  proof (cases "i < 0")
    case True
    then show ?thesis using ws d by (simp add: parse_int_def strip_no_ws int_str_def Let_def)
  next
    case False
    then have "int_str i = c # u" by (simp add: int_str_def cu)
    moreover have "isdigit (c # u)" "digits_val (c # u) = nat i"
      using d [of "nat i"] cu(1) digits_val_nat_str [of "nat i"] by auto
    ultimately show ?thesis using False ws sign
      by (simp add: parse_int_def strip_no_ws Let_def)
  qed
qed

lemma int_str_inj: "int_str i = int_str j \<longleftrightarrow> i = j"
  by (metis option.inject parse_int_str)

lemma int_str_chars: "c \<in> set (int_str i) \<Longrightarrow> is_digit c \<or> c = CHR ''-''"
  using nat_str_digits by (auto simp: int_str_def isdigit_def split: if_splits)

lemma int_of_str [simp]: "int_of (int_str i) = Inr i"
  by (simp add: int_of_def)

subsection \<open>Words and hexadecimal numerals: \<open>s.split()\<close> and \<open>int(s, 16)\<close>\<close>

fun words_from :: "str \<Rightarrow> str \<Rightarrow> str list" where
  "words_from [] cur = (if cur = [] then [] else [cur])"
| "words_from (c # s) cur =
     (if is_ws c then (if cur = [] then words_from s [] else cur # words_from s [])
      else words_from s (cur @ [c]))"

definition split_ws :: "str \<Rightarrow> str list" where
  "split_ws s = words_from s []"

definition is_hex :: "char \<Rightarrow> bool" where
  "is_hex c \<longleftrightarrow> is_digit c \<or> c \<in> set ''abcdefABCDEF''"

definition hex_val :: "char \<Rightarrow> nat" where
  "hex_val c = (if is_digit c then digit_val c else if is_upper c then of_char c - 55 else of_char c - 87)"

definition hex_nat :: "str \<Rightarrow> int option" where
  "hex_nat s =
     (let d = (if starts_with ''0x'' s \<or> starts_with ''0X'' s then drop 2 s else s) in
      if d \<noteq> [] \<and> (\<forall>c \<in> set d. is_hex c) then Some (foldl (\<lambda>a c. 16 * a + int (hex_val c)) 0 d) else None)"

definition int16_of :: "str \<Rightarrow> int res" where
  "int16_of s =
     (let t = strip s in of_option ValueError
        (case t of
           [] \<Rightarrow> None
         | c # u \<Rightarrow> if c = CHR ''-'' then map_option uminus (hex_nat u)
                   else if c = CHR ''+'' then hex_nat u else hex_nat t))"

end
