(* ===== verification/Py_Float.thy ===== *)
theory Py_Float
  imports Complex_Main Py_String
begin

text \<open>
  Python floats as the rational numbers they denote: rounding to the nearest double
  (\<open>to_double\<close>, ties to even, subnormals included), \<open>float(text)\<close> for decimal literals and
  \<open>str(x)\<close>, which prints twelve significant digits. Overflow to infinity and the literals
  \<open>inf\<close> and \<open>nan\<close> are outside the model. The exponent loops take fuel 1200, more than the
  1074 binary orders a double can be away from one.
\<close>

definition round_he :: "rat \<Rightarrow> int" where
  "round_he x = (let f = \<lfloor>x\<rfloor>; d = x - of_int f in
     if d < 1 / 2 then f else if d > 1 / 2 then f + 1 else if even f then f else f + 1)"

fun base_exp :: "rat \<Rightarrow> nat \<Rightarrow> rat \<Rightarrow> int" where
  "base_exp b 0 x = 0"
| "base_exp b (Suc n) x =
     (if b \<le> x then 1 + base_exp b n (x / b)
      else if x < 1 then base_exp b n (x * b) - 1 else 0)"

definition rat_pow :: "rat \<Rightarrow> int \<Rightarrow> rat" where
  "rat_pow b e = (if 0 \<le> e then b ^ nat e else 1 / b ^ nat (- e))"

definition to_double :: "rat \<Rightarrow> rat" where
  "to_double x =
     (if x = 0 then 0
      else let e = max (base_exp 2 1200 \<bar>x\<bar> - 52) (-1074)
           in sgn x * of_int (round_he (\<bar>x\<bar> / rat_pow 2 e)) * rat_pow 2 e)"

text \<open>\<open>int(x)\<close> truncates towards zero.\<close>

definition trunc :: "rat \<Rightarrow> int" where
  "trunc x = (if x < 0 then - \<lfloor>- x\<rfloor> else \<lfloor>x\<rfloor>)"

definition is_integral :: "rat \<Rightarrow> bool" where
  "is_integral x \<longleftrightarrow> of_int (trunc x) = x"

lemma trunc_of_int [simp]: "trunc (of_int i) = i"
proof (cases "i < 0")
  case True
  have "\<lfloor>- (of_int i :: rat)\<rfloor> = - i"
    by (metis floor_of_int of_int_minus)
  with True show ?thesis by (simp add: trunc_def)
qed (simp add: trunc_def)

lemma is_integral_of_int [simp]: "is_integral (of_int i)"
  by (simp add: is_integral_def)

lemma is_integral_iff: "is_integral x \<longleftrightarrow> (\<exists>i. x = of_int i)"
  by (metis is_integral_def is_integral_of_int)

definition strip_zeros :: "str \<Rightarrow> str" where
  "strip_zeros s = rev (dropWhile (\<lambda>c. c = CHR ''0'') (rev s))"

definition exp_str :: "int \<Rightarrow> str" where
  "exp_str e = (if e < 0 then ''-'' else ''+'')
     @ (if \<bar>e\<bar> < 10 then ''0'' else []) @ nat_str (nat \<bar>e\<bar>)"

definition pos_float_str :: "rat \<Rightarrow> str" where
  "pos_float_str x =
     (let e0 = base_exp 10 1200 x;
          m0 = round_he (x / rat_pow 10 (e0 - 11));
          (m, e) = (if m0 = 10 ^ 12 then (10 ^ 11, e0 + 1) else (m0, e0));
          ds = nat_str (nat m)
      in if e < -4 \<or> 12 \<le> e then
           (let fr = strip_zeros (drop 1 ds)
            in take 1 ds @ (if fr = [] then [] else CHR ''.'' # fr) @ CHR ''e'' # exp_str e)
         else if 0 \<le> e then
           (let fr = strip_zeros (drop (nat e + 1) ds)
            in take (nat e + 1) ds @ CHR ''.'' # (if fr = [] then ''0'' else fr))
         else ''0.'' @ replicate (nat (- e) - 1) CHR ''0'' @ strip_zeros ds)"

definition float_str :: "rat \<Rightarrow> str" where
  "float_str x =
     (if x = 0 then ''0.0'' else if x < 0 then CHR ''-'' # pos_float_str (- x)
      else pos_float_str x)"

text \<open>\<open>float(text)\<close>: sign, digits with an optional point, optional exponent.\<close>

definition unsigned_dec :: "str \<Rightarrow> rat option" where
  "unsigned_dec s =
     (let a = takeWhile is_digit s; r = dropWhile is_digit s in
      case r of
        [] \<Rightarrow> if a = [] then None else Some (of_nat (digits_val a))
      | c # r' \<Rightarrow>
          if c = CHR ''.'' \<and> (\<forall>d \<in> set r'. is_digit d) \<and> (a \<noteq> [] \<or> r' \<noteq> []) then
            Some (of_nat (digits_val (a @ r')) / 10 ^ length r')
          else None)"

definition unsigned_float :: "str \<Rightarrow> rat option" where
  "unsigned_float s =
     (let m = takeWhile (\<lambda>c. c \<noteq> CHR ''e'') s; r = dropWhile (\<lambda>c. c \<noteq> CHR ''e'') s in
      case (unsigned_dec m, r) of
        (None, _) \<Rightarrow> None
      | (Some q, []) \<Rightarrow> Some q
      | (Some q, _ # x) \<Rightarrow>
          (if x = [] \<or> is_ws (hd x) \<or> is_ws (last x) then None
           else map_option (\<lambda>e. q * rat_pow 10 e) (parse_int x)))"

definition parse_float :: "str \<Rightarrow> rat option" where
  "parse_float s =
     (let t = lower (strip s) in
      map_option to_double
        (case t of
           [] \<Rightarrow> None
         | c # u \<Rightarrow>
             if c = CHR ''-'' then map_option uminus (unsigned_float u)
             else if c = CHR ''+'' then unsigned_float u
             else unsigned_float t))"

definition float_of :: "str \<Rightarrow> rat res" where
  "float_of s = of_option ValueError (parse_float s)"

end
