(* ===== verification/Excel_Values.thy ===== *)
theory Excel_Values
  imports Py_Float
begin

text \<open>
  Cells of a spreadsheet and the values read from them: class \<open>TableField\<close> of
  \<^verbatim>\<open>sharedata/exceldata/tools/parse_xls.py\<close>. A cell is the \<open>(ctype, value)\<close> pair that the
  reading library (xlrd) documents: text, empty and blank cells carry a unicode value, number and
  date cells a float, boolean and error cells an int. A value of a config row is a \<open>val\<close>.
\<close>

datatype cell =
    CEmpty | CText str | CNumber rat | CDate rat | CBool int | CError int | CBlank

datatype pyval = PUni str | PFloat rat | PInt int

fun cell_value :: "cell \<Rightarrow> pyval" where
  "cell_value CEmpty = PUni []"
| "cell_value (CText s) = PUni s"
| "cell_value (CNumber x) = PFloat x"
| "cell_value (CDate x) = PFloat x"
| "cell_value (CBool i) = PInt i"
| "cell_value (CError i) = PInt i"
| "cell_value CBlank = PUni []"

datatype val = VBool bool | VInt int | VFloat rat | VStr str | VList "val list"

datatype raw_type =
    TBool | TInt | TFloat | TString | TLang
  | TBoolList | TIntList | TFloatList | TStringList | TLangList

definition ALL_RAW_TYPE :: "(str \<times> raw_type) list" where
  "ALL_RAW_TYPE =
     [(''bool'', TBool), (''int'', TInt), (''float'', TFloat), (''string'', TString),
      (''lang'', TLang), (''bool_list'', TBoolList), (''int_list'', TIntList),
      (''float_list'', TFloatList), (''string_list'', TStringList), (''lang_list'', TLangList)]"

definition VALUE_SEP :: str where
  "VALUE_SEP = ''//''"

definition LANG_PREFIX :: str where
  "LANG_PREFIX = ''lang-''"

subsection \<open>The two coercions\<close>

fun as_bool :: "pyval \<Rightarrow> bool" where
  "as_bool (PUni s) = (lower s = ''true'')"
| "as_bool (PFloat x) = (x \<noteq> 0)"
| "as_bool (PInt i) = (i \<noteq> 0)"

text \<open>A float that is a whole number is printed as an int, any other one as a float.\<close>

definition num_text :: "rat \<Rightarrow> str" where
  "num_text x = (if is_integral x then int_str (trunc x) else float_str x)"

fun as_string :: "pyval \<Rightarrow> str res" where
  "as_string (PUni s) = Inr (strip s)"
| "as_string (PFloat x) = Inr (strip (num_text x))"
| "as_string (PInt i) = Inl AttributeError"

text \<open>
  The list parsers turn a float into its text first and then call \<open>split\<close>, which an int
  does not have.
\<close>

fun list_text :: "pyval \<Rightarrow> str res" where
  "list_text (PUni s) = Inr s"
| "list_text (PFloat x) = Inr (num_text x)"
| "list_text (PInt i) = Inl AttributeError"

subsection \<open>The parsers, one per column type\<close>

definition parse_int_cell :: "cell \<Rightarrow> val res" where
  "parse_int_cell c =
     (case cell_value c of
        PUni s \<Rightarrow> rbind (int_of s) (\<lambda>i. Inr (VInt i))
      | PFloat x \<Rightarrow> if is_integral x then Inr (VInt (trunc x)) else Inl AssertionError
      | PInt i \<Rightarrow> Inr (VInt i))"

definition parse_int_list :: "cell \<Rightarrow> val res" where
  "parse_int_list c =
     (case cell_value c of
        PFloat x \<Rightarrow> Inr (VList [VInt (trunc x)])
      | PUni s \<Rightarrow> rbind (mapR int_of (split_on VALUE_SEP s)) (\<lambda>is. Inr (VList (map VInt is)))
      | PInt i \<Rightarrow> Inl AttributeError)"

definition parse_float_cell :: "cell \<Rightarrow> val res" where
  "parse_float_cell c =
     (case cell_value c of
        PUni s \<Rightarrow> rbind (float_of s) (\<lambda>x. Inr (VFloat x))
      | PFloat x \<Rightarrow> Inr (VFloat x)
      | PInt i \<Rightarrow> Inr (VFloat (to_double (of_int i))))"

definition parse_float_list :: "cell \<Rightarrow> val res" where
  "parse_float_list c =
     (case cell_value c of
        PFloat x \<Rightarrow> Inr (VList [if is_integral x then VInt (trunc x) else VFloat x])
      | PUni s \<Rightarrow> rbind (mapR float_of (split_on VALUE_SEP s)) (\<lambda>xs. Inr (VList (map VFloat xs)))
      | PInt i \<Rightarrow> Inl AttributeError)"

definition parse_string :: "cell \<Rightarrow> val res" where
  "parse_string c = rbind (as_string (cell_value c)) (\<lambda>s. Inr (VStr s))"

definition parse_string_list :: "cell \<Rightarrow> val res" where
  "parse_string_list c =
     rbind (list_text (cell_value c))
       (\<lambda>s. Inr (VList (map (\<lambda>x. VStr (strip x)) (split_on VALUE_SEP s))))"

definition parse_lang :: "cell \<Rightarrow> val res" where
  "parse_lang c = rbind (as_string (cell_value c)) (\<lambda>s. Inr (VStr (LANG_PREFIX @ s)))"

definition parse_lang_list :: "cell \<Rightarrow> val res" where
  "parse_lang_list c =
     rbind (list_text (cell_value c))
       (\<lambda>s. Inr (VList (map (\<lambda>x. VStr (LANG_PREFIX @ strip x)) (split_on VALUE_SEP s))))"

definition parse_bool :: "cell \<Rightarrow> val res" where
  "parse_bool c = Inr (VBool (as_bool (cell_value c)))"

definition parse_bool_list :: "cell \<Rightarrow> val res" where
  "parse_bool_list c =
     (case cell_value c of
        PUni s \<Rightarrow> Inr (VList (map (\<lambda>x. VBool (as_bool (PUni x))) (split_on VALUE_SEP s)))
      | PFloat x \<Rightarrow> Inl AttributeError
      | PInt i \<Rightarrow> Inl AttributeError)"

fun parse_value :: "raw_type \<Rightarrow> cell \<Rightarrow> val res" where
  "parse_value TBool = parse_bool"
| "parse_value TInt = parse_int_cell"
| "parse_value TFloat = parse_float_cell"
| "parse_value TString = parse_string"
| "parse_value TLang = parse_lang"
| "parse_value TBoolList = parse_bool_list"
| "parse_value TIntList = parse_int_list"
| "parse_value TFloatList = parse_float_list"
| "parse_value TStringList = parse_string_list"
| "parse_value TLangList = parse_lang_list"

lemmas cell_parser_defs =
  parse_bool_def parse_int_cell_def parse_float_cell_def parse_string_def parse_lang_def
  parse_bool_list_def parse_int_list_def parse_float_list_def parse_string_list_def
  parse_lang_list_def

subsection \<open>What a column type promises\<close>

fun is_lang :: "val \<Rightarrow> bool" where
  "is_lang (VStr s) = starts_with LANG_PREFIX s"
| "is_lang _ = False"

fun is_num :: "val \<Rightarrow> bool" where
  "is_num (VInt _) = True"
| "is_num (VFloat _) = True"
| "is_num _ = False"

fun has_raw_type :: "raw_type \<Rightarrow> val \<Rightarrow> bool" where
  "has_raw_type TBool v = (\<exists>b. v = VBool b)"
| "has_raw_type TInt v = (\<exists>i. v = VInt i)"
| "has_raw_type TFloat v = (\<exists>x. v = VFloat x)"
| "has_raw_type TString v = (\<exists>s. v = VStr s \<and> strip s = s)"
| "has_raw_type TLang v = is_lang v"
| "has_raw_type TBoolList v = (\<exists>vs. v = VList vs \<and> vs \<noteq> [] \<and> (\<forall>u \<in> set vs. \<exists>b. u = VBool b))"
| "has_raw_type TIntList v = (\<exists>vs. v = VList vs \<and> vs \<noteq> [] \<and> (\<forall>u \<in> set vs. \<exists>i. u = VInt i))"
| "has_raw_type TFloatList v = (\<exists>vs. v = VList vs \<and> vs \<noteq> [] \<and> (\<forall>u \<in> set vs. is_num u))"
| "has_raw_type TStringList v = (\<exists>vs. v = VList vs \<and> vs \<noteq> [] \<and> (\<forall>u \<in> set vs. \<exists>s. u = VStr s \<and> strip s = s))"
| "has_raw_type TLangList v = (\<exists>vs. v = VList vs \<and> vs \<noteq> [] \<and> (\<forall>u \<in> set vs. is_lang u))"

lemma mapR_nonempty: "mapR f xs = Inr ys \<Longrightarrow> xs \<noteq> [] \<Longrightarrow> ys \<noteq> []"
  by (auto dest: mapR_length)

lemma as_string_stripped: "as_string v = Inr s \<Longrightarrow> strip s = s"
  by (cases v) auto

lemma parse_value_has_type: "parse_value ty c = Inr v \<Longrightarrow> has_raw_type ty v"
  by (cases ty)
     (auto simp: cell_parser_defs res_simps as_string_stripped
       split: pyval.splits if_splits dest: mapR_nonempty)

text \<open>
  C7. Parsing a cell under a declared column type, when it succeeds, yields a value of that
  type: a bool, an int, a float, stripped text, a \<open>lang-\<close> key, or a non-empty list of these
  (a whole-number cell in a float list stays an int).
\<close>

theorem parse_value_typed:
  "parse_value ty c = Inr v \<Longrightarrow> has_raw_type ty v"
  by (rule parse_value_has_type)

theorem parse_value_typed_witness:
  "has_raw_type TStringList (VList [VStr ''a b'', VStr ''c''])"
proof -
  have "parse_value TStringList (CText ''a b // c'') = Inr (VList [VStr ''a b'', VStr ''c''])"
    by code_simp
  then show ?thesis by (rule parse_value_typed)
qed

text \<open>
  Writing integers into one cell separated by \<open>//\<close> and reading the cell back under the
  type \<open>int_list\<close> returns exactly those integers.
\<close>

theorem int_list_roundtrip:
  assumes "ns \<noteq> []"
  shows "parse_int_list (CText (join VALUE_SEP (map int_str ns))) = Inr (VList (map VInt ns))"
proof -
  have "CHR ''/'' \<notin> set (int_str n)" for n
    using int_str_chars [of "CHR ''/''" n] by (auto simp: is_digit_def)
  then have "split_on VALUE_SEP (join VALUE_SEP (map int_str ns)) = map int_str ns"
    using assms unfolding VALUE_SEP_def by (intro split_join) auto
  moreover have "mapR int_of (map int_str ns) = Inr ns"
    by (auto simp: mapR_Inr_iff list_all2_map1 list.rel_refl)
  ultimately show ?thesis by (simp add: parse_int_list_def)
qed

theorem int_list_roundtrip_witness:
  "parse_int_list (CText (join VALUE_SEP (map int_str [3, -17, 0])))
     = Inr (VList [VInt 3, VInt (-17), VInt 0])"
  using int_list_roundtrip [of "[3, -17, 0]"] by simp

text \<open>
  A number cell under type \<open>int\<close> is accepted exactly when the number is whole, and then
  keeps its value; under type \<open>int_list\<close> the same cell is silently truncated instead.
\<close>

theorem int_cell_exact:
  "parse_int_cell (CNumber x) = (if \<exists>i. x = of_int i then Inr (VInt \<lfloor>x\<rfloor>) else Inl AssertionError)
   \<and> parse_int_list (CNumber x) = Inr (VList [VInt (trunc x)])"
  by (auto simp: parse_int_cell_def parse_int_list_def is_integral_iff)

end
