(* ===== verification/Excel_Checkers.thy ===== *)
theory Excel_Checkers
  imports Excel_Values
begin

text \<open>
  The column checks of \<^verbatim>\<open>parse_xls.py\<close>: class \<open>FieldChecker\<close>, and the table state it works on
  (classes \<open>TableField\<close> and \<open>ConfigTable\<close>). \<open>ALL_TABLE\<close> is the dict \<open>tables\<close>. A row object is
  shared between \<open>config_dict\<close> and \<open>ch_key_dict\<close>, so \<open>ch_key_dict\<close> stores the row's key in
  \<open>config_dict\<close> and every read goes through it: a check that rewrites a row is seen by both.
\<close>

subsection \<open>Dict keys\<close>

text \<open>Python compares \<open>True\<close>, \<open>1\<close> and \<open>1.0\<close> as equal keys; a list is not hashable.\<close>

datatype hkey = HNum rat | HStr str

fun hash_key :: "val \<Rightarrow> hkey res" where
  "hash_key (VBool b) = Inr (HNum (if b then 1 else 0))"
| "hash_key (VInt i) = Inr (HNum (of_int i))"
| "hash_key (VFloat x) = Inr (HNum x)"
| "hash_key (VStr s) = Inr (HStr s)"
| "hash_key (VList vs) = Inl TypeError"

subsection \<open>State\<close>

datatype arg = AStr str | AInt int | AFloat rat

record checker =
  chk_name :: str
  chk_args :: "arg list"

record field =
  field_name :: str
  findex :: nat
  raw :: "raw_type option"
  checker_list :: "checker list"

type_synonym row = "(str \<times> val) list"

record table =
  table_name :: str
  field_dict :: "(str \<times> field) list"
  key_name :: "str option"
  ch_key_name :: "str option"
  no2lua :: bool
  config_dict :: "(hkey \<times> row) list"
  ch_key_dict :: "(hkey \<times> hkey) list"

type_synonym tables = "(str \<times> table) list"

definition new_table :: "str \<Rightarrow> table" where
  "new_table n = \<lparr>table_name = n, field_dict = [], key_name = None, ch_key_name = Some ''ch_key'',
     no2lua = False, config_dict = [], ch_key_dict = []\<rparr>"

definition new_field :: "str \<Rightarrow> nat \<Rightarrow> field" where
  "new_field n i = \<lparr>field_name = n, findex = i, raw = None, checker_list = []\<rparr>"

definition field_has :: "str \<Rightarrow> field \<Rightarrow> bool" where
  "field_has n f \<longleftrightarrow> (\<exists>c \<in> set (checker_list f). chk_name c = n)"

definition no_empty :: "field \<Rightarrow> bool" where
  "no_empty = field_has ''no_empty''"

definition is_table :: "field \<Rightarrow> bool" where
  "is_table = field_has ''table''"

definition GROUP_TABLE :: "str list" where
  "GROUP_TABLE = [''DropGroupData'', ''DropData'']"

subsection \<open>Reading a check from the header: \<open>FieldChecker.parse\<close>\<close>

definition ALL_CHECKER :: "(str \<times> str list) list" where
  "ALL_CHECKER =
     [(''key'', []), (''uniq'', []), (''ref'', [''string'']), (''ref_count'', [''string'']),
      (''ignore'', []), (''no2lua'', []), (''size'', [''string'']), (''no_empty'', []),
      (''group_by'', []), (''table'', []), (''len'', [''int''])]"

datatype parse_error = MissingParen | UnknownCheck | ArgCount | ArgNotInt nat | ArgNotFloat nat

text \<open>The conversion loop over the arguments; \<open>i\<close> is the loop index.\<close>

fun conv_args :: "nat \<Rightarrow> str list \<Rightarrow> str list \<Rightarrow> parse_error + arg list" where
  "conv_args i (ty # tys) (a # as) =
     (case (if ty = ''int'' then
              (case parse_int a of None \<Rightarrow> Inl (ArgNotInt (i + 1)) | Some n \<Rightarrow> Inr (AInt n))
            else if ty = ''float'' then
              (case parse_float a of None \<Rightarrow> Inl (ArgNotFloat (i + 1)) | Some x \<Rightarrow> Inr (AFloat x))
            else Inr (AStr a)) of
        Inl e \<Rightarrow> Inl e
      | Inr v \<Rightarrow> (case conv_args (i + 1) tys as of Inl e \<Rightarrow> Inl e | Inr vs \<Rightarrow> Inr (v # vs)))"
| "conv_args i _ _ = Inr []"

definition check_args :: "str \<Rightarrow> str list \<Rightarrow> parse_error + checker" where
  "check_args name args =
     (case map_of ALL_CHECKER name of
        None \<Rightarrow> Inl UnknownCheck
      | Some tys \<Rightarrow>
          if length args \<noteq> length tys then Inl ArgCount
          else (case conv_args 0 tys args of
                  Inl e \<Rightarrow> Inl e
                | Inr vs \<Rightarrow> Inr \<lparr>chk_name = name, chk_args = vs\<rparr>))"

definition parse_checker :: "str \<Rightarrow> parse_error + checker" where
  "parse_checker text0 =
     (let text = strip text0 in
      case find_sub ''('' text of
        None \<Rightarrow> check_args text []
      | Some left \<Rightarrow>
          (case find_sub '')'' text of
             None \<Rightarrow> Inl MissingParen
           | Some right \<Rightarrow>
               check_args (take left text)
                 (map strip (split_on '','' (take (right - (left + 1)) (drop (left + 1) text))))))"

text \<open>\<open>__eq__\<close>: same name and equal arguments as far as the shorter list goes.\<close>

definition checker_eq :: "checker \<Rightarrow> checker \<Rightarrow> bool" where
  "checker_eq a b \<longleftrightarrow>
     chk_name a = chk_name b \<and> (\<forall>(x, y) \<in> set (zip (chk_args a) (chk_args b)). x = y)"

fun arg_has :: "str \<Rightarrow> arg \<Rightarrow> bool" where
  "arg_has ty (AInt _) \<longleftrightarrow> ty = ''int''"
| "arg_has ty (AFloat _) \<longleftrightarrow> ty = ''float''"
| "arg_has ty (AStr _) \<longleftrightarrow> ty \<noteq> ''int'' \<and> ty \<noteq> ''float''"

definition checker_ok :: "checker \<Rightarrow> bool" where
  "checker_ok c \<longleftrightarrow> (\<exists>tys. map_of ALL_CHECKER (chk_name c) = Some tys \<and> list_all2 arg_has tys (chk_args c))"

lemma conv_args_typed:
  "conv_args i tys as = Inr vs \<Longrightarrow> length as = length tys \<Longrightarrow> list_all2 arg_has tys vs"
  by (induction i tys as arbitrary: vs rule: conv_args.induct)
     (auto split: sum.splits if_splits option.splits)

lemma check_args_ok: "check_args n as = Inr c \<Longrightarrow> checker_ok c"
  by (auto simp: check_args_def checker_ok_def conv_args_typed
      split: option.splits if_splits sum.splits)

lemma parse_checker_ok: "parse_checker t = Inr c \<Longrightarrow> checker_ok c"
  by (auto simp: parse_checker_def Let_def check_args_ok split: option.splits)

text \<open>The header text of a check.\<close>

fun arg_text :: "arg \<Rightarrow> str" where
  "arg_text (AStr s) = s"
| "arg_text (AInt i) = int_str i"
| "arg_text (AFloat x) = float_str x"

definition checker_text :: "checker \<Rightarrow> str" where
  "checker_text c =
     (if chk_args c = [] then chk_name c
      else chk_name c @ ''('' @ join '','' (map arg_text (chk_args c)) @ '')'')"

text \<open>An argument that can be written in the header: no blanks and none of \<open>( ) ,\<close>.\<close>

fun plain_arg :: "arg \<Rightarrow> bool" where
  "plain_arg (AStr s) = (\<forall>c \<in> set s. \<not> is_ws c \<and> c \<notin> {CHR ''('', CHR '')'', CHR '',''})"
| "plain_arg _ = True"

lemma find_sub_single_pos:
  "c \<notin> set x \<Longrightarrow> find_sub [c] (x @ c # y) = Some (length x)"
  by (rule find_sub_single_append)

lemma one_arg_check:
  assumes "checker_ok c" and "chk_args c = [a]" and "plain_arg a"
  shows "(\<forall>d \<in> set (arg_text a). \<not> is_ws d \<and> d \<notin> {CHR ''('', CHR '')'', CHR '',''})
       \<and> check_args (chk_name c) [arg_text a] = Inr c"
proof -
  from assms(1,2) obtain ty where ty: "map_of ALL_CHECKER (chk_name c) = Some [ty]" "arg_has ty a"
    by (auto simp: checker_ok_def list_all2_Cons2)
  have "ty = ''string'' \<or> ty = ''int''"
    using ty(1) by (auto simp: ALL_CHECKER_def split: if_splits)
  then have "conv_args 0 [ty] [arg_text a] = Inr [a]"
    using ty(2) by (cases a) auto
  then have "check_args (chk_name c) [arg_text a] = Inr c"
    using ty(1) assms(2) by (simp add: check_args_def)
  moreover have "is_digit d \<or> d = CHR ''-'' \<Longrightarrow> \<not> is_ws d \<and> d \<notin> {CHR ''('', CHR '')'', CHR '',''}" for d
    by (auto simp: is_digit_def is_ws_def)
  ultimately show ?thesis
    using assms(3) ty(2) \<open>ty = ''string'' \<or> ty = ''int''\<close> int_str_chars by (cases a) auto
qed

lemma checker_name_chars:
  assumes "checker_ok c"
  shows "\<forall>d \<in> set (chk_name c). \<not> is_ws d \<and> d \<noteq> CHR ''('' \<and> d \<noteq> CHR '')''"
proof -
  have "chk_name c \<in> fst ` set ALL_CHECKER"
    using assms by (auto simp: checker_ok_def simp flip: dom_map_of_conv_image_fst)
  then show ?thesis by (auto simp: ALL_CHECKER_def is_ws_def)
qed

lemma checker_arity:
  assumes "checker_ok c"
  shows "chk_args c = [] \<or> (\<exists>a. chk_args c = [a])"
proof -
  from assms obtain tys where tys: "map_of ALL_CHECKER (chk_name c) = Some tys"
    "list_all2 arg_has tys (chk_args c)"
    by (auto simp: checker_ok_def)
  have "length tys \<le> 1" using tys(1) by (auto simp: ALL_CHECKER_def split: if_splits)
  then show ?thesis using list_all2_lengthD [OF tys(2)]
    by (cases "chk_args c") auto
qed

text \<open>
  A check written in the header of a sheet is read back exactly: for every well-formed
  check whose argument has no blank and none of the characters of the syntax, parsing its text
  gives that check.
\<close>

theorem parse_checker_text:
  assumes ok: "checker_ok c" and plain: "\<forall>a \<in> set (chk_args c). plain_arg a"
  shows "parse_checker (checker_text c) = Inr c"
proof -
  note name = checker_name_chars [OF ok]
  consider "chk_args c = []" | a where "chk_args c = [a]"
    using checker_arity [OF ok] by blast
  then show ?thesis
  proof cases
    case 1
    have "check_args (chk_name c) [] = Inr c"
      using ok 1 by (auto simp: checker_ok_def check_args_def)
    moreover have "find_sub ''('' (chk_name c) = None"
      using name by (auto simp: find_sub_single_None)
    ultimately show ?thesis
      using name 1 by (simp add: parse_checker_def checker_text_def strip_no_ws)
  next
    case 2
    let ?t = "arg_text a" and ?n = "chk_name c"
    have t: "\<forall>d \<in> set ?t. \<not> is_ws d \<and> d \<notin> {CHR ''('', CHR '')'', CHR '',''}"
      and c: "check_args ?n [?t] = Inr c"
      using one_arg_check [OF ok 2] plain 2 by auto
    have txt_eq: "checker_text c = ?n @ CHR ''('' # ?t @ '')''"
      using 2 by (simp add: checker_text_def)
    have left: "find_sub ''('' (?n @ CHR ''('' # ?t @ '')'') = Some (length ?n)"
      using name by (intro find_sub_single_append) auto
    have "find_sub '')'' ((?n @ CHR ''('' # ?t) @ CHR '')'' # []) = Some (length (?n @ CHR ''('' # ?t))"
      using name t by (intro find_sub_single_append) auto
    then have right: "find_sub '')'' (?n @ CHR ''('' # ?t @ '')'') = Some (length ?n + 1 + length ?t)"
      by simp
    have "split_on '','' ?t = [?t]" using t by (intro split_on_single_Nil) auto
    moreover have "strip ?t = ?t" using t by (intro strip_no_ws) auto
    moreover have "strip (checker_text c) = checker_text c"
      using name t unfolding txt_eq by (intro strip_no_ws) (auto simp: is_ws_def)
    ultimately show ?thesis using left right c
      by (simp add: parse_checker_def txt_eq)
  qed
qed

theorem parse_checker_text_witness:
  "parse_checker ''len(5)'' = Inr \<lparr>chk_name = ''len'', chk_args = [AInt 5]\<rparr>"
proof -
  let ?c = "\<lparr>chk_name = ''len'', chk_args = [AInt 5]\<rparr>"
  have "checker_ok ?c" by (simp add: checker_ok_def ALL_CHECKER_def)
  moreover have "\<forall>a \<in> set (chk_args ?c). plain_arg a" by simp
  moreover have "checker_text ?c = ''len(5)''"
    by code_simp
  ultimately show ?thesis using parse_checker_text [of ?c] by simp
qed

end
