(* ===== verification/Excel_Checks.thy ===== *)
theory Excel_Checks
  imports Excel_Checkers
begin

text \<open>
  The logical checks run after parsing: the \<open>check_*\<close> methods of \<open>FieldChecker\<close> and
  \<open>ConfigTable.ch_key2id\<close> of \<^verbatim>\<open>parse_xls.py\<close>, with the loop of \<open>main\<close> that runs them.
  \<open>check_ref\<close> rewrites the rows in place while it reads the referenced table; the central lemma
  is that this equals rewriting all rows at once.
\<close>

definition continuation_byte :: "char \<Rightarrow> bool" where
  "continuation_byte c \<longleftrightarrow> 128 \<le> (of_char c :: nat) \<and> (of_char c :: nat) < 192"

fun py_len :: "val \<Rightarrow> nat res" where
  "py_len (VList vs) = Inr (length vs)"
| "py_len (VStr s) = Inr (length (filter (\<lambda>c. \<not> continuation_byte c) s))"
| "py_len _ = Inl TypeError"

fun py_int :: "val \<Rightarrow> int res" where
  "py_int (VBool b) = Inr (if b then 1 else 0)"
| "py_int (VInt i) = Inr i"
| "py_int (VFloat x) = Inr (trunc x)"
| "py_int (VStr s) = int_of s"
| "py_int (VList vs) = Inl TypeError"

definition check_failed :: "'a res" where
  "check_failed = Inl (RuntimeError ''check'')"

lemma check_failed_not_Inr [simp]: "check_failed \<noteq> Inr x" "Inr x \<noteq> check_failed"
  by (simp_all add: check_failed_def)

subsection \<open>Checks of one column\<close>

fun uniq_loop :: "str \<Rightarrow> hkey list \<Rightarrow> row list \<Rightarrow> unit res" where
  "uniq_loop f seen [] = Inr ()"
| "uniq_loop f seen (r # rs) =
     (case map_of r f of
        None \<Rightarrow> uniq_loop f seen rs
      | Some v \<Rightarrow> rbind (hash_key v)
          (\<lambda>k. if k \<in> set seen then check_failed else uniq_loop f (k # seen) rs))"

definition check_uniq :: "table \<Rightarrow> str \<Rightarrow> table res" where
  "check_uniq t f = rbind (uniq_loop f [] (map snd (config_dict t))) (\<lambda>_. Inr t)"

definition check_ignore :: "table \<Rightarrow> str \<Rightarrow> table res" where
  "check_ignore t f =
     Inr (t\<lparr>config_dict := map (\<lambda>(k, r). (k, AList.delete f r)) (config_dict t)\<rparr>)"

definition check_len :: "table \<Rightarrow> str \<Rightarrow> int \<Rightarrow> table res" where
  "check_len t f num =
     foldR (\<lambda>t (k, r). case map_of r f of
         None \<Rightarrow> Inr t
       | Some v \<Rightarrow> rbind (py_len v) (\<lambda>n. if int n \<noteq> num then check_failed else Inr t))
       t (config_dict t)"

definition check_no2lua :: "table \<Rightarrow> table res" where
  "check_no2lua t = Inr (t\<lparr>no2lua := True\<rparr>)"

definition check_size :: "table \<Rightarrow> str \<Rightarrow> str \<Rightarrow> table res" where
  "check_size t f g =
     (if map_of (field_dict t) g = None then check_failed
      else foldR (\<lambda>t (k, r).
        (case (map_of r f, map_of r g) of
           (None, None) \<Rightarrow> Inr t
         | (Some u, Some v) \<Rightarrow>
             rbind (py_len u) (\<lambda>m. rbind (py_len v) (\<lambda>n. if m \<noteq> n then check_failed else Inr t))
         | _ \<Rightarrow> check_failed)) t (config_dict t))"

text \<open>The values of a column, in the rows that have it.\<close>

definition column :: "str \<Rightarrow> table \<Rightarrow> val list" where
  "column f t = List.map_filter (\<lambda>(k, r). map_of r f) (config_dict t)"

lemma uniq_loop_iff:
  "uniq_loop f seen rs = Inr () \<longleftrightarrow>
     (\<exists>ks. mapR hash_key (List.map_filter (\<lambda>r. map_of r f) rs) = Inr ks
           \<and> distinct ks \<and> set ks \<inter> set seen = {})"
proof (induction rs arbitrary: seen)
  case (Cons r rs)
  show ?case
  proof (cases "map_of r f")
    case None
    then show ?thesis using Cons.IH by (simp add: List.map_filter_simps)
  next
    case (Some v)
    show ?thesis
    proof (cases "hash_key v")
      case (Inl e)
      then show ?thesis using Some by (simp add: List.map_filter_simps)
    next
      case (Inr k)
      have "uniq_loop f seen (r # rs) = Inr () \<longleftrightarrow> k \<notin> set seen \<and> uniq_loop f (k # seen) rs = Inr ()"
        using Some Inr by simp
      also have "\<dots> \<longleftrightarrow> (\<exists>ks. mapR hash_key (List.map_filter (\<lambda>r. map_of r f) rs) = Inr ks
           \<and> distinct (k # ks) \<and> set (k # ks) \<inter> set seen = {})"
        unfolding Cons.IH by auto
      also have "\<dots> \<longleftrightarrow> (\<exists>ks. mapR hash_key (List.map_filter (\<lambda>r. map_of r f) (r # rs)) = Inr ks
           \<and> distinct ks \<and> set ks \<inter> set seen = {})"
        using Some Inr by (auto simp: List.map_filter_simps res_simps)
      finally show ?thesis .
    qed
  qed
qed (simp add: List.map_filter_simps)

text \<open>
  The uniqueness check (also run for the primary key column) accepts a table exactly when the
  values of the column can be hashed and no two of them are the same dict key, and it leaves
  the table unchanged.
\<close>

theorem check_uniq_iff:
  "check_uniq t f = Inr t' \<longleftrightarrow>
     t' = t \<and> (\<exists>ks. mapR hash_key (column f t) = Inr ks \<and> distinct ks)"
proof -
  have "column f t = List.map_filter (\<lambda>r. map_of r f) (map snd (config_dict t))"
    by (simp add: column_def List.map_filter_def filter_map comp_def case_prod_beta)
  then show ?thesis using uniq_loop_iff [of f "[]" "map snd (config_dict t)"]
    by (auto simp: check_uniq_def res_simps)
qed

subsection \<open>References between tables\<close>

definition id_column :: "table \<Rightarrow> str option" where
  "id_column t = (if table_name t \<in> set GROUP_TABLE then Some ''group_id'' else key_name t)"

definition ch_key2id :: "tables \<Rightarrow> str \<Rightarrow> val \<Rightarrow> val option res" where
  "ch_key2id tabs rt v =
     rbind (dict_get tabs rt) (\<lambda>t. rbind (hash_key v) (\<lambda>hk.
       case map_of (ch_key_dict t) hk of
         None \<Rightarrow> Inr None
       | Some rk \<Rightarrow> rbind (dict_get (config_dict t) rk) (\<lambda>r.
           rbind (of_option KeyError (id_column t)) (\<lambda>c.
             rbind (dict_get r c) (\<lambda>w. Inr (Some w))))))"

definition must_id :: "(val \<Rightarrow> val option res) \<Rightarrow> val \<Rightarrow> val res" where
  "must_id lk v = rbind (lk v) (\<lambda>w. case w of None \<Rightarrow> check_failed | Some u \<Rightarrow> Inr u)"

text \<open>The new value of a \<open>ref\<close> column: every name replaced by the id it refers to.\<close>

fun ref_value :: "(val \<Rightarrow> val option res) \<Rightarrow> val \<Rightarrow> val res" where
  "ref_value lk (VList vs) = rbind (mapR (must_id lk) vs) (\<lambda>ws. Inr (VList ws))"
| "ref_value lk v = must_id lk v"

text \<open>The new value of a \<open>ref_count\<close> column: name and count alternate.\<close>

fun ref_pairs :: "(val \<Rightarrow> val option res) \<Rightarrow> val list \<Rightarrow> val list res" where
  "ref_pairs lk (v # n # vs) =
     rbind (must_id lk v) (\<lambda>w. rbind (py_int n) (\<lambda>i.
       rbind (ref_pairs lk vs) (\<lambda>ws. Inr (w # VInt i # ws))))"
| "ref_pairs lk _ = Inr []"

fun ref_count_value :: "(val \<Rightarrow> val option res) \<Rightarrow> val \<Rightarrow> val res" where
  "ref_count_value lk (VList vs) =
     (if odd (length vs) then check_failed
      else rbind (ref_pairs lk vs) (\<lambda>ws. Inr (VList ws)))"
| "ref_count_value lk v = check_failed"

definition with_rows :: "tables \<Rightarrow> str \<Rightarrow> (hkey \<times> row) list \<Rightarrow> tables" where
  "with_rows tabs tn d =
     (case map_of tabs tn of
        None \<Rightarrow> tabs
      | Some t \<Rightarrow> AList.update tn (t\<lparr>config_dict := d\<rparr>) tabs)"

text \<open>
  One round of the loop \<open>for key, config in table.config_dict.iteritems()\<close>; \<open>conv\<close> computes the
  new value with the table contents of that moment.
\<close>

definition ref_step ::
  "((val \<Rightarrow> val option res) \<Rightarrow> val \<Rightarrow> val res) \<Rightarrow> str \<Rightarrow> str \<Rightarrow> str \<Rightarrow> tables \<Rightarrow> hkey \<Rightarrow> tables res"
where
  "ref_step conv tn f rt tabs k =
     rbind (dict_get tabs tn) (\<lambda>t. rbind (dict_get (config_dict t) k) (\<lambda>r.
       case map_of r f of
         None \<Rightarrow> Inr tabs
       | Some v \<Rightarrow> rbind (conv (ch_key2id tabs rt) v) (\<lambda>w.
           Inr (with_rows tabs tn (AList.update k (AList.update f w r) (config_dict t))))))"

definition ref_loop ::
  "((val \<Rightarrow> val option res) \<Rightarrow> val \<Rightarrow> val res) \<Rightarrow> tables \<Rightarrow> str \<Rightarrow> str \<Rightarrow> str \<Rightarrow> tables res"
where
  "ref_loop conv tabs tn f rt =
     (case map_of tabs rt of
        None \<Rightarrow> check_failed
      | Some rtab \<Rightarrow>
          if ch_key_name rtab = None \<or> ch_key_name rtab = Some [] then check_failed
          else rbind (dict_get tabs tn) (\<lambda>t.
            foldR (ref_step conv tn f rt) tabs (map fst (config_dict t))))"

definition check_ref :: "tables \<Rightarrow> str \<Rightarrow> str \<Rightarrow> str \<Rightarrow> tables res" where
  "check_ref = ref_loop ref_value"

definition check_ref_count :: "tables \<Rightarrow> str \<Rightarrow> str \<Rightarrow> str \<Rightarrow> tables res" where
  "check_ref_count = ref_loop ref_count_value"

definition ref_row ::
  "((val \<Rightarrow> val option res) \<Rightarrow> val \<Rightarrow> val res) \<Rightarrow> (val \<Rightarrow> val option res) \<Rightarrow> str \<Rightarrow> row \<Rightarrow> row res"
where
  "ref_row conv lk f r =
     (case map_of r f of None \<Rightarrow> Inr r | Some v \<Rightarrow> rbind (conv lk v) (\<lambda>w. Inr (AList.update f w r)))"

subsection \<open>Rewriting in place equals rewriting all rows at once\<close>

lemma with_rows_lookup:
  "map_of tabs tn = Some t \<Longrightarrow>
   map_of (with_rows tabs tn d) = (map_of tabs)(tn \<mapsto> t\<lparr>config_dict := d\<rparr>)"
  by (simp add: with_rows_def)

lemma with_rows_again [simp]: "with_rows (with_rows tabs tn d) tn d' = with_rows tabs tn d'"
  by (auto simp: with_rows_def update_last split: option.splits)

lemma with_rows_same: "map_of tabs tn = Some t \<Longrightarrow> with_rows tabs tn (config_dict t) = tabs"
  by (simp add: with_rows_def update_triv)

lemma update_middle:
  "k \<notin> fst ` set ds \<Longrightarrow> AList.update k r' (ds @ (k, r) # rs) = ds @ (k, r') # rs"
  by (induction ds) auto

definition same_off :: "str \<Rightarrow> (hkey \<times> row) list \<Rightarrow> (hkey \<times> row) list \<Rightarrow> bool" where
  "same_off f d d' \<longleftrightarrow>
     (\<forall>k. rel_option (\<lambda>r r'. \<forall>c. c \<noteq> f \<longrightarrow> map_of r c = map_of r' c) (map_of d k) (map_of d' k))"

lemma same_off_refl [simp]: "same_off f d d"
  by (auto simp: same_off_def option.rel_refl)

lemma same_off_update:
  assumes "same_off f d d'" and "map_of d k = Some r"
  shows "same_off f (AList.update k (AList.update f w r) d) d'"
  unfolding same_off_def
proof
  fix j
  show "rel_option (\<lambda>r r'. \<forall>c. c \<noteq> f \<longrightarrow> map_of r c = map_of r' c)
     (map_of (AList.update k (AList.update f w r) d) j) (map_of d' j)"
    using assms(1) [unfolded same_off_def, rule_format, of j] assms(2)
    by (auto simp: option_rel_Some1)
qed

lemma ch_key2id_same_off:
  assumes t: "map_of tabs tn = Some t" and same: "same_off f d (config_dict t)"
    and ids: "rt \<noteq> tn \<or> id_column t \<noteq> Some f"
  shows "ch_key2id (with_rows tabs tn d) rt = ch_key2id tabs rt"
proof (cases "rt = tn")
  case False
  then show ?thesis
    by (simp add: fun_eq_iff ch_key2id_def dict_get_def with_rows_lookup [OF t])
next
  case True
  have "rbind (dict_get d rk) (\<lambda>r. rbind (of_option KeyError (id_column t))
          (\<lambda>c. rbind (dict_get r c) (\<lambda>w. Inr (Some w)))) =
        rbind (dict_get (config_dict t) rk) (\<lambda>r. rbind (of_option KeyError (id_column t))
          (\<lambda>c. rbind (dict_get r c) (\<lambda>w. Inr (Some w))))" for rk
    using same [unfolded same_off_def, rule_format, of rk] ids True
    by (cases "map_of d rk"; cases "map_of (config_dict t) rk"; cases "id_column t")
       (auto simp: dict_get_def)
  moreover have "dict_get (with_rows tabs tn d) rt = Inr (t\<lparr>config_dict := d\<rparr>)" "dict_get tabs rt = Inr t"
    "id_column (t\<lparr>config_dict := d\<rparr>) = id_column t"
    using True t by (simp_all add: dict_get_def with_rows_lookup [OF t] id_column_def)
  ultimately show ?thesis by (simp add: ch_key2id_def fun_eq_iff cong: option.case_cong)
qed

lemma ref_fold:
  assumes t: "map_of tabs tn = Some t" and ids: "rt \<noteq> tn \<or> id_column t \<noteq> Some f"
    and "dict_ok (ds @ rs)" and "same_off f (ds @ rs) (config_dict t)"
  shows "foldR (ref_step conv tn f rt) (with_rows tabs tn (ds @ rs)) (map fst rs) =
    rbind (map_vals (ref_row conv (ch_key2id tabs rt) f) rs)
      (\<lambda>d. Inr (with_rows tabs tn (ds @ d)))"
  using assms(3,4)
proof (induction rs arbitrary: ds)
  case Nil
  then show ?case by (simp add: map_vals_def)
next
  case (Cons kr rs)
  obtain k r where kr: "kr = (k, r)" by force
  let ?d = "ds @ (k, r) # rs" and ?g = "ref_row conv (ch_key2id tabs rt) f"
  have k: "k \<notin> fst ` set ds" using Cons.prems(1) kr by (auto simp: dict_ok_def)
  then have look: "map_of ?d k = Some r"
    by (simp add: map_add_def map_of_eq_None_iff [THEN iffD2])
  have step: "ref_step conv tn f rt (with_rows tabs tn ?d) k =
      rbind (?g r) (\<lambda>r'. Inr (with_rows tabs tn (ds @ (k, r') # rs)))"
    using ch_key2id_same_off [OF t Cons.prems(2) [unfolded kr] ids] look k
    by (auto simp: ref_step_def ref_row_def dict_get_def with_rows_lookup [OF t] update_middle
        rbind_assoc split: option.splits)
  show ?case
  proof (cases "?g r")
    case (Inl e)
    then show ?thesis by (simp add: kr step map_vals_def)
  next
    case (Inr r')
    have same: "same_off f (ds @ (k, r') # rs) (config_dict t)"
    proof (cases "map_of r f")
      case None
      then show ?thesis using Inr Cons.prems(2) kr by (simp add: ref_row_def)
    next
      case (Some v)
      then obtain w where "r' = AList.update f w r" using Inr by (auto simp: ref_row_def res_simps)
      then show ?thesis
        using same_off_update [OF Cons.prems(2) [unfolded kr] look, of w] k
        by (simp add: update_middle)
    qed
    have "dict_ok ((ds @ [(k, r')]) @ rs)" using Cons.prems(1) kr by (simp add: dict_ok_def)
    from Cons.IH [OF this] same
    have "foldR (ref_step conv tn f rt) (with_rows tabs tn (ds @ (k, r') # rs)) (map fst rs) =
        rbind (map_vals ?g rs) (\<lambda>d. Inr (with_rows tabs tn (ds @ (k, r') # d)))"
      by simp
    then show ?thesis using Inr
      by (simp add: kr step map_vals_def) (cases "mapR (\<lambda>(k, v). rbind (?g v) (\<lambda>w. Inr (k, w))) rs"; simp)
  qed
qed

lemma ref_loop_pointwise:
  assumes t: "map_of tabs tn = Some t" and ok: "dict_ok (config_dict t)"
    and ids: "rt \<noteq> tn \<or> id_column t \<noteq> Some f"
    and rtab: "map_of tabs rt = Some rtab" "ch_key_name rtab \<noteq> None" "ch_key_name rtab \<noteq> Some []"
  shows "ref_loop conv tabs tn f rt =
    rbind (map_vals (ref_row conv (ch_key2id tabs rt) f) (config_dict t))
      (\<lambda>d. Inr (with_rows tabs tn d))"
proof -
  have "ref_loop conv tabs tn f rt = foldR (ref_step conv tn f rt) tabs (map fst (config_dict t))"
    using t rtab by (auto simp: ref_loop_def dict_get_def)
  also have "\<dots> = rbind (map_vals (ref_row conv (ch_key2id tabs rt) f) (config_dict t))
      (\<lambda>d. Inr (with_rows tabs tn ([] @ d)))"
    using ref_fold [OF t ids, of "[]" "config_dict t" conv] ok
    by (simp add: with_rows_same [OF t])
  finally show ?thesis by simp
qed

subsection \<open>What a successful reference check means\<close>

fun resolved :: "(val \<Rightarrow> val option res) \<Rightarrow> val \<Rightarrow> val option \<Rightarrow> bool" where
  "resolved lk (VList vs) u \<longleftrightarrow>
     (\<exists>ws. u = Some (VList ws) \<and> list_all2 (\<lambda>v w. lk v = Inr (Some w)) vs ws)"
| "resolved lk v u \<longleftrightarrow> u \<noteq> None \<and> lk v = Inr u"

lemma must_id_Inr [simp]: "must_id lk v = Inr w \<longleftrightarrow> lk v = Inr (Some w)"
  by (auto simp: must_id_def res_simps split: option.splits)

lemma ref_value_resolved: "ref_value lk v = Inr w \<Longrightarrow> resolved lk v (Some w)"
  by (cases v) (auto simp: res_simps mapR_Inr_iff)

lemma ref_loop_Inr_ref:
  assumes "ref_loop conv tabs tn f rt = Inr tabs'"
  shows "\<exists>rtab. map_of tabs rt = Some rtab \<and> ch_key_name rtab \<noteq> None \<and> ch_key_name rtab \<noteq> Some []"
  using assms by (auto simp: ref_loop_def split: option.splits if_splits)

lemma ref_loop_rows:
  assumes t: "map_of tabs tn = Some t" "dict_ok (config_dict t)" "rt \<noteq> tn \<or> id_column t \<noteq> Some f"
    and run: "ref_loop conv tabs tn f rt = Inr tabs'"
  shows "\<exists>d. tabs' = with_rows tabs tn d
    \<and> map_vals (ref_row conv (ch_key2id tabs rt) f) (config_dict t) = Inr d"
  using run ref_loop_Inr_ref [OF run] ref_loop_pointwise [OF t(1,2,3)]
  by (auto simp: res_simps)

text \<open>
  C2. After a \<open>ref\<close> check succeeds, every name in the column has been replaced by the id of the
  row it names in the referenced table (element by element in a list column), every other column
  and every other table is as before, and no row has appeared or gone. So a table with a name
  that the referenced table does not have cannot pass. (The column must not be the id column of
  the table it refers to: the loop would then change the ids it is looking up.)
\<close>

theorem check_ref_resolves:
  assumes t: "map_of tabs tn = Some t" "dict_ok (config_dict t)" "rt \<noteq> tn \<or> id_column t \<noteq> Some f"
    and run: "check_ref tabs tn f rt = Inr tabs'"
  shows "\<exists>t'. map_of tabs' = (map_of tabs)(tn \<mapsto> t') \<and>
    map fst (config_dict t') = map fst (config_dict t) \<and>
    (\<forall>k r. map_of (config_dict t) k = Some r \<longrightarrow>
      (\<exists>r'. map_of (config_dict t') k = Some r' \<and> (\<forall>c. c \<noteq> f \<longrightarrow> map_of r' c = map_of r c) \<and>
        (case map_of r f of
           None \<Rightarrow> map_of r' f = None
         | Some v \<Rightarrow> resolved (ch_key2id tabs rt) v (map_of r' f))))"
proof -
  let ?g = "ref_row ref_value (ch_key2id tabs rt) f"
  obtain d where d: "tabs' = with_rows tabs tn d" "map_vals ?g (config_dict t) = Inr d"
    using ref_loop_rows [OF t] run unfolding check_ref_def by blast
  have row: "(\<forall>c. c \<noteq> f \<longrightarrow> map_of r' c = map_of r c) \<and>
        (case map_of r f of None \<Rightarrow> map_of r' f = None
         | Some v \<Rightarrow> resolved (ch_key2id tabs rt) v (map_of r' f))" if g: "?g r = Inr r'" for r r'
  proof (cases "map_of r f")
    case None
    then show ?thesis using g by (simp add: ref_row_def)
  next
    case (Some v)
    then obtain w where w: "ref_value (ch_key2id tabs rt) v = Inr w" "r' = AList.update f w r"
      using g by (auto simp: ref_row_def res_simps)
    then show ?thesis using Some ref_value_resolved [OF w(1)] by simp
  qed
  show ?thesis
  proof (intro exI [of _ "t\<lparr>config_dict := d\<rparr>"] conjI allI impI)
    show "map_of tabs' = (map_of tabs)(tn \<mapsto> t\<lparr>config_dict := d\<rparr>)"
      by (simp add: d with_rows_lookup [OF t(1)])
    show "map fst (config_dict (t\<lparr>config_dict := d\<rparr>)) = map fst (config_dict t)"
      using map_vals_keys [OF d(2)] by simp
    fix k r
    assume "map_of (config_dict t) k = Some r"
    then obtain r' where "map_of d k = Some r'" "?g r = Inr r'"
      using map_vals_lookup_old [OF d(2)] by blast
    then show "\<exists>r'. map_of (config_dict (t\<lparr>config_dict := d\<rparr>)) k = Some r' \<and>
        (\<forall>c. c \<noteq> f \<longrightarrow> map_of r' c = map_of r c) \<and>
        (case map_of r f of None \<Rightarrow> map_of r' f = None
         | Some v \<Rightarrow> resolved (ch_key2id tabs rt) v (map_of r' f))"
      using row by auto
  qed
qed

definition sample_item :: table where
  "sample_item = (new_table ''ItemData'')\<lparr>key_name := Some ''id'',
     config_dict := [(HNum 7, [(''id'', VInt 7), (''ch_key'', VStr ''gold'')])],
     ch_key_dict := [(HStr ''gold'', HNum 7)]\<rparr>"

definition sample_shop :: table where
  "sample_shop = (new_table ''ShopData'')\<lparr>key_name := Some ''id'',
     field_dict := [(''cost'', (new_field ''cost'' 1)\<lparr>checker_list :=
       [\<lparr>chk_name = ''ref'', chk_args = [AStr ''ItemData'']\<rparr>]\<rparr>)],
     config_dict := [(HNum 1, [(''id'', VInt 1), (''cost'', VList [VStr ''gold'', VStr ''gold''])])]\<rparr>"

definition sample_tables :: tables where
  "sample_tables = [(''ShopData'', sample_shop), (''ItemData'', sample_item)]"

lemmas sample_defs = sample_tables_def sample_shop_def sample_item_def new_table_def new_field_def

lemma sample_check_ref:
  "check_ref sample_tables ''ShopData'' ''cost'' ''ItemData'' =
     Inr (with_rows sample_tables ''ShopData''
       [(HNum 1, [(''id'', VInt 1), (''cost'', VList [VInt 7, VInt 7])])])"
  by code_simp

theorem check_ref_resolves_witness:
  "\<exists>tabs' t' r'. check_ref sample_tables ''ShopData'' ''cost'' ''ItemData'' = Inr tabs' \<and>
     map_of tabs' ''ShopData'' = Some t' \<and> map_of (config_dict t') (HNum 1) = Some r' \<and>
     resolved (ch_key2id sample_tables ''ItemData'') (VList [VStr ''gold'', VStr ''gold''])
       (map_of r' ''cost'')"
proof -
  have t: "map_of sample_tables ''ShopData'' = Some sample_shop"
    by (simp add: sample_tables_def)
  have ok: "dict_ok (config_dict sample_shop)" by (simp add: sample_shop_def dict_ok_def)
  have ids: "''ItemData'' \<noteq> ''ShopData'' \<or> id_column sample_shop \<noteq> Some ''cost''" by simp
  have row: "map_of (config_dict sample_shop) (HNum 1) =
      Some [(''id'', VInt 1), (''cost'', VList [VStr ''gold'', VStr ''gold''])]"
    by (simp add: sample_shop_def)
  show ?thesis
    using check_ref_resolves [OF t ok ids sample_check_ref] row sample_check_ref
    by (fastforce simp del: resolved.simps)
qed

subsection \<open>Running the checks of all tables\<close>

definition on_table :: "(table \<Rightarrow> table res) \<Rightarrow> tables \<Rightarrow> str \<Rightarrow> tables res" where
  "on_table g tabs tn =
     rbind (dict_get tabs tn) (\<lambda>t. rbind (g t) (\<lambda>t'. Inr (AList.update tn t' tabs)))"

definition run_check :: "tables \<Rightarrow> str \<Rightarrow> str \<Rightarrow> checker \<Rightarrow> tables res" where
  "run_check tabs tn f c =
     (let n = chk_name c in
      if n = ''key'' \<or> n = ''uniq'' then on_table (\<lambda>t. check_uniq t f) tabs tn
      else if n = ''ignore'' then on_table (\<lambda>t. check_ignore t f) tabs tn
      else if n = ''no2lua'' then on_table check_no2lua tabs tn
      else if n \<in> {''no_empty'', ''group_by'', ''table''} then Inr tabs
      else case chk_args c of
        [AInt i] \<Rightarrow> if n = ''len'' then on_table (\<lambda>t. check_len t f i) tabs tn else Inl AttributeError
      | [AStr a] \<Rightarrow>
          if n = ''ref'' then check_ref tabs tn f a
          else if n = ''ref_count'' then check_ref_count tabs tn f a
          else if n = ''size'' then on_table (\<lambda>t. check_size t f a) tabs tn
          else Inl AttributeError
      | _ \<Rightarrow> Inl AttributeError)"

definition all_checks :: "tables \<Rightarrow> (str \<times> str \<times> checker) list" where
  "all_checks tabs =
     [(tn, f, c). (tn, t) \<leftarrow> tabs, (f, fd) \<leftarrow> field_dict t, c \<leftarrow> checker_list fd]"

definition run_checks :: "tables \<Rightarrow> tables res" where
  "run_checks tabs = foldR (\<lambda>tabs (tn, f, c). run_check tabs tn f c) tabs (all_checks tabs)"

text \<open>
  The invariant of a parsed table: row keys are distinct and every \<open>ch_key\<close> names an existing row.
\<close>

definition table_ok :: "table \<Rightarrow> bool" where
  "table_ok t \<longleftrightarrow> dict_ok (config_dict t) \<and> snd ` set (ch_key_dict t) \<subseteq> fst ` set (config_dict t)"

definition tables_ok :: "tables \<Rightarrow> bool" where
  "tables_ok tabs \<longleftrightarrow> (\<forall>tn t. map_of tabs tn = Some t \<longrightarrow> table_ok t)"

lemma table_ok_keys:
  "table_ok t \<Longrightarrow> map fst (config_dict t') = map fst (config_dict t) \<Longrightarrow>
   ch_key_dict t' = ch_key_dict t \<Longrightarrow> table_ok t'"
  unfolding table_ok_def dict_ok_def by (metis list.set_map)

lemma foldR_same: "foldR g s xs = Inr t \<Longrightarrow> (\<And>u x v. g u x = Inr v \<Longrightarrow> v = u) \<Longrightarrow> t = s"
  by (erule foldR_invariant [where P = "\<lambda>u. u = s"]) auto

lemma check_len_same: "check_len t f i = Inr t' \<Longrightarrow> t' = t"
  unfolding check_len_def
  by (erule foldR_same) (auto simp: res_simps split: option.splits if_splits)

lemma check_size_same: "check_size t f g = Inr t' \<Longrightarrow> t' = t"
  unfolding check_size_def
  by (auto split: if_splits elim!: foldR_same)
     (auto simp: res_simps split: option.splits if_splits)

lemma check_ignore_ok: "check_ignore t f = Inr t' \<Longrightarrow> table_ok t \<Longrightarrow> table_ok t'"
  by (erule table_ok_keys) (auto simp: check_ignore_def comp_def case_prod_beta)

lemma on_table_ok:
  assumes "on_table g tabs tn = Inr tabs'" "tables_ok tabs"
    and "\<And>t t'. g t = Inr t' \<Longrightarrow> table_ok t \<Longrightarrow> table_ok t'"
  shows "tables_ok tabs'"
  using assms by (auto simp: on_table_def res_simps tables_ok_def split: if_splits)

lemma with_rows_ok:
  assumes "tables_ok tabs" "map_of tabs tn = Some t" "map fst d = map fst (config_dict t)"
  shows "tables_ok (with_rows tabs tn d)"
  using assms table_ok_keys [of t "t\<lparr>config_dict := d\<rparr>"]
  by (auto simp: tables_ok_def with_rows_lookup)

lemma update_keys_present:
  "map_of d k = Some r \<Longrightarrow> map fst (AList.update k r' d) = map fst d"
  by (induction d) (auto split: if_splits)

lemma ref_step_ok:
  "ref_step conv tn f rt tabs k = Inr tabs' \<Longrightarrow> tables_ok tabs \<Longrightarrow> tables_ok tabs'"
  by (auto simp: ref_step_def res_simps update_keys_present split: option.splits
      intro!: with_rows_ok)

lemma ref_loop_ok: "ref_loop conv tabs tn f rt = Inr tabs' \<Longrightarrow> tables_ok tabs \<Longrightarrow> tables_ok tabs'"
  unfolding ref_loop_def
  by (auto simp: res_simps split: option.splits if_splits
      elim!: foldR_invariant [where P = tables_ok] intro: ref_step_ok)

lemma check_uniq_same: "check_uniq t f = Inr t' \<Longrightarrow> t' = t"
  by (auto simp: check_uniq_def res_simps)

lemma check_no2lua_ok: "check_no2lua t = Inr t' \<Longrightarrow> table_ok t \<Longrightarrow> table_ok t'"
  by (erule table_ok_keys) (auto simp: check_no2lua_def)

lemma run_check_ok: "run_check tabs tn f c = Inr tabs' \<Longrightarrow> tables_ok tabs \<Longrightarrow> tables_ok tabs'"
  unfolding run_check_def check_ref_def check_ref_count_def Let_def
  by (auto split: if_splits list.splits arg.splits intro: ref_loop_ok
      elim!: on_table_ok
      dest: check_uniq_same check_len_same check_size_same check_ignore_ok check_no2lua_ok)

lemma run_checks_tables_ok: "run_checks tabs = Inr tabs' \<Longrightarrow> tables_ok tabs \<Longrightarrow> tables_ok tabs'"
  unfolding run_checks_def
  by (erule foldR_invariant [where P = tables_ok]) (auto intro: run_check_ok)

text \<open>
  Running all checks over all tables keeps every table well formed: row keys stay distinct
  and every Chinese key still names an existing row.
\<close>

theorem run_checks_ok: "tables_ok tabs \<Longrightarrow> run_checks tabs = Inr tabs' \<Longrightarrow> tables_ok tabs'"
  by (rule run_checks_tables_ok)

theorem run_checks_ok_witness:
  "\<exists>tabs'. run_checks sample_tables = Inr tabs' \<and> tabs' \<noteq> sample_tables \<and> tables_ok tabs'"
proof -
  let ?tabs = "with_rows sample_tables ''ShopData''
       [(HNum 1, [(''id'', VInt 1), (''cost'', VList [VInt 7, VInt 7])])]"
  have "tables_ok sample_tables"
    by (auto simp: tables_ok_def table_ok_def dict_ok_def sample_defs split: if_splits)
  moreover have run: "run_checks sample_tables = Inr ?tabs"
  proof -
    have "all_checks sample_tables =
        [(''ShopData'', ''cost'', \<lparr>chk_name = ''ref'', chk_args = [AStr ''ItemData'']\<rparr>)]"
      by (simp add: all_checks_def sample_defs)
    then show ?thesis by (simp add: run_checks_def run_check_def sample_check_ref)
  qed
  moreover have "?tabs \<noteq> sample_tables"
    by (simp add: with_rows_def sample_defs)
  ultimately show ?thesis using run_checks_ok by blast
qed

end
