(* ===== verification/Excel_Table.thy ===== *)
theory Excel_Table
  imports Excel_Checks
begin

text \<open>
  Reading a sheet into a table: \<open>ConfigTable.parse_field_name\<close>, \<open>parse_sheet_header\<close>,
  \<open>parse_sheet_body\<close> and \<open>parse_all_sheet\<close> of \<^verbatim>\<open>parse_xls.py\<close>. A sheet is the rectangular grid
  of cells that xlrd hands out; rows 3, 4 and 5 hold the column names, types and checks, the data
  begin in row 6, and column 0 is not read.
\<close>

record sheet =
  sheet_name :: str
  grid :: "cell list list"

abbreviation "FIELD_NAME_ROW \<equiv> (3::nat)"
abbreviation "FIELD_TYPE_ROW \<equiv> (4::nat)"
abbreviation "FIELD_CHECKER_ROW \<equiv> (5::nat)"
abbreviation "FIELD_BODY_START_ROW \<equiv> (6::nat)"

definition sheet_cell :: "sheet \<Rightarrow> nat \<Rightarrow> nat \<Rightarrow> cell res" where
  "sheet_cell sh r c = rbind (nth_res (grid sh) r) (\<lambda>row. nth_res row c)"

definition sheet_col :: "sheet \<Rightarrow> nat \<Rightarrow> cell list res" where
  "sheet_col sh c = mapR (\<lambda>row. nth_res row c) (grid sh)"

text \<open>The column numbers of \<open>enumerate(sheet.row(FIELD_NAME_ROW)[1:], 1)\<close>.\<close>

definition name_columns :: "sheet \<Rightarrow> nat list res" where
  "name_columns sh = rbind (nth_res (grid sh) FIELD_NAME_ROW) (\<lambda>row. Inr [1..<length row])"

subsection \<open>Column names\<close>

text \<open>The pattern \<open>[a-zA-Z]\<close> followed by one or more word characters, up to the end.\<close>

definition valid_name :: "str \<Rightarrow> bool" where
  "valid_name s =
     (case s of [] \<Rightarrow> False
      | c # t \<Rightarrow> (is_upper c \<or> is_lower c) \<and> t \<noteq> [] \<and> list_all is_word t)"

definition parse_field_name :: "str \<Rightarrow> sheet \<Rightarrow> nat \<Rightarrow> str option res" where
  "parse_field_name filename sh c =
     rbind (sheet_cell sh FIELD_NAME_ROW c) (\<lambda>cell.
       case cell of
         CEmpty \<Rightarrow> Inr None
       | CText s \<Rightarrow>
           if filename = [] then Inr None
           else if valid_name s then Inr (Some s) else check_failed
       | _ \<Rightarrow> check_failed)"

subsection \<open>Header\<close>

definition get_field :: "table \<Rightarrow> str \<Rightarrow> field" where
  "get_field t n =
     (case map_of (field_dict t) n of Some f \<Rightarrow> f | None \<Rightarrow> new_field n (length (field_dict t)))"

definition put_field :: "str \<Rightarrow> field \<Rightarrow> table \<Rightarrow> table" where
  "put_field n f t = t\<lparr>field_dict := AList.update n f (field_dict t)\<rparr>"

definition header_type :: "field \<Rightarrow> cell \<Rightarrow> field res" where
  "header_type f cell =
     (case cell of
        CText s \<Rightarrow>
          (case map_of ALL_RAW_TYPE s of
             None \<Rightarrow> check_failed
           | Some ty \<Rightarrow>
               if raw f \<noteq> None \<and> raw f \<noteq> Some ty then check_failed else Inr (f\<lparr>raw := Some ty\<rparr>))
      | _ \<Rightarrow> check_failed)"

text \<open>One check text: parsed, appended if new; a \<open>key\<close> check names the key column.\<close>

definition add_check :: "str \<Rightarrow> field \<times> str option \<Rightarrow> str \<Rightarrow> (field \<times> str option) res" where
  "add_check n s text =
     (case s of (f, kn) \<Rightarrow>
        if text = [] then Inr (f, kn)
        else case parse_checker text of
          Inl e \<Rightarrow> check_failed
        | Inr c \<Rightarrow>
            Inr (if \<exists>x \<in> set (checker_list f). checker_eq x c then f
                 else f\<lparr>checker_list := checker_list f @ [c]\<rparr>,
                 if chk_name c = ''key'' then Some n else kn))"

definition header_checks :: "str \<Rightarrow> nat \<Rightarrow> cell \<Rightarrow> field \<times> str option \<Rightarrow> (field \<times> str option) res" where
  "header_checks n c cell s =
     (case cell of
        CEmpty \<Rightarrow> if c = 1 then check_failed else Inr s
      | CText txt \<Rightarrow> foldR (add_check n) s (split_on ''$'' txt)
      | _ \<Rightarrow> check_failed)"

definition header_column :: "sheet \<Rightarrow> nat \<Rightarrow> str \<Rightarrow> table \<Rightarrow> table res" where
  "header_column sh c n t =
     rbind (sheet_cell sh FIELD_TYPE_ROW c) (\<lambda>tc.
     rbind (header_type (get_field t n) tc) (\<lambda>f.
     rbind (sheet_cell sh FIELD_CHECKER_ROW c) (\<lambda>cc.
     rbind (header_checks n c cc (f, key_name t)) (\<lambda>(f', kn).
       Inr (put_field n f'
         (t\<lparr>key_name := (if (kn = None \<or> kn = Some []) \<and> c = 1 then Some n else kn)\<rparr>))))))"

fun header_loop :: "str \<Rightarrow> sheet \<Rightarrow> nat list \<Rightarrow> table \<Rightarrow> table res" where
  "header_loop fn sh [] t = Inr t"
| "header_loop fn sh (c # cs) t =
     rbind (parse_field_name fn sh c) (\<lambda>n.
       case n of
         None \<Rightarrow> Inr t
       | Some name \<Rightarrow> rbind (header_column sh c name t) (header_loop fn sh cs))"

definition parse_sheet_header :: "table \<Rightarrow> str \<times> sheet \<Rightarrow> table res" where
  "parse_sheet_header t s =
     (case s of (fn, sh) \<Rightarrow> rbind (name_columns sh) (\<lambda>cs. header_loop fn sh cs t))"

subsection \<open>Body\<close>

text \<open>The data end before the first empty cell of column 1.\<close>

definition body_rows :: "sheet \<Rightarrow> nat res" where
  "body_rows sh =
     rbind (sheet_col sh 1) (\<lambda>cells.
       Inr (length (takeWhile (\<lambda>c. c \<noteq> CEmpty) (drop FIELD_BODY_START_ROW cells))))"

definition blank_cell :: "cell \<Rightarrow> bool" where
  "blank_cell c \<longleftrightarrow> c = CEmpty \<or> cell_value c = PUni '' '' \<or> cell_value c = PUni []"

definition store_cell :: "str \<Rightarrow> field \<Rightarrow> row \<times> cell \<Rightarrow> row res" where
  "store_cell n f rc =
     (case rc of (r, c) \<Rightarrow>
        if blank_cell c then (if no_empty f then check_failed else Inr r)
        else case raw f of
          None \<Rightarrow> Inl AttributeError
        | Some ty \<Rightarrow>
            (case parse_value ty c of
               Inl e \<Rightarrow> check_failed
             | Inr v \<Rightarrow> Inr (AList.update n v r)))"

definition body_column :: "sheet \<Rightarrow> table \<Rightarrow> nat \<Rightarrow> str \<Rightarrow> row list \<Rightarrow> row list res" where
  "body_column sh t c n rows =
     rbind (dict_get (field_dict t) n) (\<lambda>f.
     rbind (sheet_col sh c) (\<lambda>cells.
       mapR (store_cell n f)
         (zip rows (take (length rows) (drop FIELD_BODY_START_ROW cells)))))"

fun body_loop :: "str \<Rightarrow> sheet \<Rightarrow> table \<Rightarrow> nat list \<Rightarrow> row list \<Rightarrow> row list res" where
  "body_loop fn sh t [] rows = Inr rows"
| "body_loop fn sh t (c # cs) rows =
     rbind (parse_field_name fn sh c) (\<lambda>n.
       case n of
         None \<Rightarrow> Inr rows
       | Some name \<Rightarrow> rbind (body_column sh t c name rows) (body_loop fn sh t cs))"

definition row_key :: "table \<Rightarrow> row \<Rightarrow> hkey res" where
  "row_key t r =
     rbind (of_option KeyError (key_name t)) (\<lambda>kn. rbind (dict_get r kn) hash_key)"

definition save_row :: "table \<Rightarrow> row \<Rightarrow> table res" where
  "save_row t r =
     rbind (row_key t r) (\<lambda>k.
       if k \<in> fst ` set (config_dict t) then check_failed
       else Inr (t\<lparr>config_dict := AList.update k r (config_dict t)\<rparr>))"

definition save_ch_key :: "str \<Rightarrow> table \<Rightarrow> row \<Rightarrow> table res" where
  "save_ch_key chn t r =
     (case map_of r chn of
        None \<Rightarrow> Inr t
      | Some v \<Rightarrow> rbind (hash_key v) (\<lambda>ck. rbind (row_key t r) (\<lambda>k.
          if table_name t \<notin> set GROUP_TABLE \<and> ck \<in> fst ` set (ch_key_dict t) then check_failed
          else Inr (t\<lparr>ch_key_dict := AList.update ck k (ch_key_dict t)\<rparr>))))"

definition save_rows :: "table \<Rightarrow> row list \<Rightarrow> table res" where
  "save_rows t rows =
     rbind (foldR save_row t rows) (\<lambda>t'.
       case ch_key_name t' of
         None \<Rightarrow> Inr t'
       | Some chn \<Rightarrow>
           if map_of (field_dict t') chn = None then Inr (t'\<lparr>ch_key_name := None\<rparr>)
           else foldR (save_ch_key chn) t' rows)"

definition parse_sheet_body :: "table \<Rightarrow> str \<times> sheet \<Rightarrow> table res" where
  "parse_sheet_body t s =
     (case s of (fn, sh) \<Rightarrow>
        rbind (body_rows sh) (\<lambda>n.
        rbind (name_columns sh) (\<lambda>cs.
        rbind (body_loop fn sh t cs (replicate n [])) (save_rows t))))"

definition parse_all_sheet :: "table \<Rightarrow> (str \<times> sheet) list \<Rightarrow> table res" where
  "parse_all_sheet t sheets =
     rbind (foldR parse_sheet_header t sheets) (\<lambda>t'. foldR parse_sheet_body t' sheets)"

subsection \<open>What a parsed table satisfies\<close>

definition typed_row :: "(str \<times> field) list \<Rightarrow> row \<Rightarrow> bool" where
  "typed_row fd r \<longleftrightarrow>
     (\<forall>n v. map_of r n = Some v \<longrightarrow>
        (\<exists>f ty. map_of fd n = Some f \<and> raw f = Some ty \<and> has_raw_type ty v))"

definition parsed_ok :: "table \<Rightarrow> bool" where
  "parsed_ok t \<longleftrightarrow> table_ok t \<and>
     (\<forall>(k, r) \<in> set (config_dict t). row_key t r = Inr k \<and> typed_row (field_dict t) r)"

lemma typed_row_Nil [simp]: "typed_row fd []"
  by (simp add: typed_row_def)

lemma store_cell_typed:
  "store_cell n f (r, c) = Inr r' \<Longrightarrow> map_of fd n = Some f \<Longrightarrow> typed_row fd r \<Longrightarrow> typed_row fd r'"
  by (auto simp: store_cell_def typed_row_def parse_value_has_type
      split: if_splits option.splits sum.splits)

lemma body_column_typed:
  assumes "body_column sh t c n rows = Inr rows'" and "\<forall>r \<in> set rows. typed_row (field_dict t) r"
  shows "\<forall>r \<in> set rows'. typed_row (field_dict t) r"
proof -
  obtain f cells where f: "map_of (field_dict t) n = Some f"
    and m: "mapR (store_cell n f) (zip rows cells) = Inr rows'"
    using assms(1) by (auto simp: body_column_def res_simps)
  have "\<exists>rc \<in> set (zip rows cells). store_cell n f rc = Inr r" if "r \<in> set rows'" for r
    using m that by (rule mapR_mem)
  with assms(2) f show ?thesis by (metis set_zip_leftD store_cell_typed surj_pair)
qed

lemma body_loop_typed:
  "body_loop fn sh t cs rows = Inr rows' \<Longrightarrow> \<forall>r \<in> set rows. typed_row (field_dict t) r \<Longrightarrow>
   \<forall>r \<in> set rows'. typed_row (field_dict t) r"
proof (induction fn sh t cs rows rule: body_loop.induct)
  case (2 fn sh t c cs rows)
  from "2.prems"(1) obtain n where n: "parse_field_name fn sh c = Inr n"
    by (auto simp: rbind_eq_Inr)
  show ?case
  proof (cases n)
    case None
    then show ?thesis using "2.prems" n by simp
  next
    case (Some name)
    with "2.prems"(1) n obtain rs where rs: "body_column sh t c name rows = Inr rs"
      "body_loop fn sh t cs rs = Inr rows'" by (auto simp: rbind_eq_Inr)
    from "2.IH" [OF n Some rs(1) rs(2)] body_column_typed [OF rs(1) "2.prems"(2)]
    show ?thesis by blast
  qed
qed simp

text \<open>\<open>save_row\<close> and \<open>save_ch_key\<close> change only the two dicts.\<close>

lemma save_row_frame:
  "save_row t r = Inr t' \<Longrightarrow>
   \<exists>k. row_key t r = Inr k \<and> k \<notin> fst ` set (config_dict t) \<and>
     t' = t\<lparr>config_dict := config_dict t @ [(k, r)]\<rparr>"
  by (auto simp: save_row_def res_simps update_fresh split: if_splits)

lemma row_key_frame [simp]:
  "row_key (t\<lparr>config_dict := d\<rparr>) r = row_key t r"
  "row_key (t\<lparr>ch_key_dict := e\<rparr>) r = row_key t r"
  "row_key (t\<lparr>ch_key_name := n\<rparr>) r = row_key t r"
  by (simp_all add: row_key_def)

lemma save_row_ok:
  assumes "save_row t r = Inr t'" "parsed_ok t" "typed_row (field_dict t) r"
  shows "parsed_ok t' \<and> field_dict t' = field_dict t \<and> (\<forall>u. row_key t' u = row_key t u) \<and>
    fst ` set (config_dict t) \<subseteq> fst ` set (config_dict t') \<and>
    (\<exists>k \<in> fst ` set (config_dict t'). row_key t' r = Inr k)"
proof -
  obtain k where k: "row_key t r = Inr k" "k \<notin> fst ` set (config_dict t)"
    "t' = t\<lparr>config_dict := config_dict t @ [(k, r)]\<rparr>"
    using save_row_frame [OF assms(1)] by blast
  have "table_ok t'" using assms(2) k(2) unfolding k(3) parsed_ok_def table_ok_def dict_ok_def
    by (simp add: subset_insertI2)
  moreover have "\<forall>(k, r) \<in> set (config_dict t'). row_key t' r = Inr k \<and> typed_row (field_dict t') r"
    using assms(2,3) k(1) unfolding k(3) parsed_ok_def by auto
  ultimately show ?thesis using k(1) unfolding k(3) parsed_ok_def by auto
qed

lemma foldR_save_row_ok:
  "foldR save_row t rows = Inr t' \<Longrightarrow> parsed_ok t \<Longrightarrow> \<forall>r \<in> set rows. typed_row (field_dict t) r \<Longrightarrow>
   parsed_ok t' \<and> field_dict t' = field_dict t \<and> (\<forall>u. row_key t' u = row_key t u) \<and>
   fst ` set (config_dict t) \<subseteq> fst ` set (config_dict t') \<and>
   (\<forall>r \<in> set rows. \<exists>k \<in> fst ` set (config_dict t'). row_key t' r = Inr k)"
proof (induction rows arbitrary: t)
  case (Cons r rows)
  then obtain tb where tb: "save_row t r = Inr tb" "foldR save_row tb rows = Inr t'"
    by (auto simp: rbind_eq_Inr)
  have "typed_row (field_dict t) r" using Cons.prems(3) by simp
  from save_row_ok [OF tb(1) Cons.prems(2) this]
  have one: "parsed_ok tb" "field_dict tb = field_dict t" "\<forall>u. row_key tb u = row_key t u"
    "fst ` set (config_dict t) \<subseteq> fst ` set (config_dict tb)"
    "\<exists>k \<in> fst ` set (config_dict tb). row_key tb r = Inr k"
    by blast+
  have ball: "\<forall>r \<in> set rows. typed_row (field_dict tb) r" using Cons.prems(3) one(2) by simp
  note ih = Cons.IH [OF tb(2) one(1) ball]
  have rest: "parsed_ok t'" "field_dict t' = field_dict tb" "\<forall>u. row_key t' u = row_key tb u"
    "fst ` set (config_dict tb) \<subseteq> fst ` set (config_dict t')"
    "\<forall>r \<in> set rows. \<exists>k \<in> fst ` set (config_dict t'). row_key t' r = Inr k"
    by (insert ih, (elim conjE, assumption)+)
  obtain k where "k \<in> fst ` set (config_dict tb)" "row_key tb r = Inr k" using one(5) by blast
  then have "k \<in> fst ` set (config_dict t')" "row_key t' r = Inr k"
    using rest(3,4) by (blast, simp)
  then have "\<forall>r \<in> set (r # rows). \<exists>k \<in> fst ` set (config_dict t'). row_key t' r = Inr k"
    using rest(5) by (metis set_ConsD)
  moreover have "\<forall>u. row_key t' u = row_key t u" using one(3) rest(3) by metis
  ultimately show ?case using rest(1,2) one(2) subset_trans [OF one(4) rest(4)]
    by (intro conjI) (assumption | simp)+
qed simp

lemma save_ch_key_ok:
  assumes "save_ch_key chn t r = Inr t'" "parsed_ok t"
    and "\<exists>k \<in> fst ` set (config_dict t). row_key t r = Inr k"
  shows "parsed_ok t' \<and> config_dict t' = config_dict t \<and> field_dict t' = field_dict t \<and>
    (\<forall>u. row_key t' u = row_key t u)"
proof (cases "map_of r chn")
  case None
  then show ?thesis using assms(1,2) by (simp add: save_ch_key_def)
next
  case (Some v)
  with assms(1) obtain ck k where k: "row_key t r = Inr k"
    "t' = t\<lparr>ch_key_dict := AList.update ck k (ch_key_dict t)\<rparr>"
    by (auto simp: save_ch_key_def res_simps split: if_splits)
  have "k \<in> fst ` set (config_dict t)" using assms(3) k(1) by auto
  moreover have "snd ` set (AList.update ck k (ch_key_dict t)) \<subseteq> insert k (snd ` set (ch_key_dict t))"
    using set_update_subset [of ck k "ch_key_dict t"] by force
  ultimately have "table_ok t'" using assms(2) unfolding k(2) parsed_ok_def table_ok_def
    by (simp) blast
  then show ?thesis using assms(2) unfolding k(2) parsed_ok_def by simp
qed

lemma foldR_save_ch_key_ok:
  "foldR (save_ch_key chn) t rows = Inr t' \<Longrightarrow> parsed_ok t \<Longrightarrow>
   \<forall>r \<in> set rows. \<exists>k \<in> fst ` set (config_dict t). row_key t r = Inr k \<Longrightarrow>
   parsed_ok t' \<and> field_dict t' = field_dict t"
proof (induction rows arbitrary: t)
  case (Cons r rows)
  then obtain tb where tb: "save_ch_key chn t r = Inr tb" "foldR (save_ch_key chn) tb rows = Inr t'"
    by (auto simp: rbind_eq_Inr)
  have one: "parsed_ok tb \<and> config_dict tb = config_dict t \<and> field_dict tb = field_dict t \<and>
      (\<forall>u. row_key tb u = row_key t u)"
    using Cons.prems(3) by (intro save_ch_key_ok [OF tb(1) Cons.prems(2)]) simp
  then have "parsed_ok t' \<and> field_dict t' = field_dict tb"
    using Cons.prems(3) by (intro Cons.IH [OF tb(2)]) simp_all
  with one show ?case by simp
qed simp

lemma save_rows_ok:
  assumes "save_rows t rows = Inr t'" "parsed_ok t" "\<forall>r \<in> set rows. typed_row (field_dict t) r"
  shows "parsed_ok t' \<and> field_dict t' = field_dict t"
proof -
  obtain tb where tb: "foldR save_row t rows = Inr tb"
    using assms(1) by (auto simp: save_rows_def rbind_eq_Inr)
  have one: "parsed_ok tb" "field_dict tb = field_dict t"
    "\<forall>r \<in> set rows. \<exists>k \<in> fst ` set (config_dict tb). row_key tb r = Inr k"
    using foldR_save_row_ok [OF tb assms(2,3)] by blast+
  have "parsed_ok (tb\<lparr>ch_key_name := None\<rparr>)" using one(1) by (simp add: parsed_ok_def table_ok_def)
  moreover have "parsed_ok t' \<and> field_dict t' = field_dict tb" if "foldR (save_ch_key chn) tb rows = Inr t'" for chn
    using foldR_save_ch_key_ok [OF that one(1,3)] .
  ultimately show ?thesis using assms(1) tb one
    by (auto simp: save_rows_def split: option.splits if_splits)
qed

lemma parse_sheet_body_ok:
  assumes "parse_sheet_body t s = Inr t'" "parsed_ok t"
  shows "parsed_ok t' \<and> field_dict t' = field_dict t"
proof -
  obtain fn sh where s: "s = (fn, sh)" by (cases s)
  obtain n cs rows where b: "body_loop fn sh t cs (replicate n []) = Inr rows" "save_rows t rows = Inr t'"
    using assms(1) unfolding parse_sheet_body_def s by (auto simp: rbind_eq_Inr)
  have "\<forall>r \<in> set rows. typed_row (field_dict t) r"
    using body_loop_typed [OF b(1)] by simp
  then show ?thesis using save_rows_ok [OF b(2) assms(2)] by blast
qed

text \<open>The header writes the columns and the key column only; a column keeps its first position.\<close>

definition header_ok :: "table \<Rightarrow> bool" where
  "header_ok t \<longleftrightarrow> dict_ok (field_dict t) \<and>
     map (\<lambda>x. findex (snd x)) (field_dict t) = [0..<length (field_dict t)] \<and>
     (\<forall>(n, f) \<in> set (field_dict t). field_name f = n \<and> raw f \<noteq> None)"

lemma header_ok_put:
  assumes "header_ok t" "field_name f = n" "raw f \<noteq> None" "findex f = findex (get_field t n)"
  shows "header_ok (put_field n f t)"
proof (cases "map_of (field_dict t) n")
  case None
  then have "n \<notin> fst ` set (field_dict t)" by (simp add: map_of_eq_None_iff)
  then have "field_dict (put_field n f t) = field_dict t @ [(n, f)]"
    by (simp add: put_field_def update_fresh)
  then show ?thesis using assms None by (auto simp: header_ok_def get_field_def new_field_def dict_ok_def
        map_of_eq_None_iff)
next
  case (Some g)
  have "map (\<lambda>x. findex (snd x)) (AList.update n f d) = map (\<lambda>x. findex (snd x)) d"
    if "map_of d n = Some g" "findex f = findex g" for d
    using that by (induction d) auto
  then have "map (\<lambda>x. findex (snd x)) (AList.update n f (field_dict t)) = [0..<length (field_dict t)]"
    using assms Some by (simp add: header_ok_def get_field_def)
  moreover have "length (AList.update n f (field_dict t)) = length (field_dict t)"
    using calculation by (metis length_map length_upt minus_nat.diff_0)
  moreover have "field_name b = a \<and> raw b \<noteq> None" if "(a, b) \<in> set (AList.update n f (field_dict t))" for a b
    using that assms(1-3) set_update_subset [of n f "field_dict t"] unfolding header_ok_def by blast
  ultimately show ?thesis using assms(1) by (auto simp: header_ok_def put_field_def)
qed

lemma foldR_add_check_frame:
  "foldR (add_check n) (f, kn) ts = Inr (f', kn') \<Longrightarrow>
   field_name f' = field_name f \<and> findex f' = findex f \<and> raw f' = raw f"
proof (induction ts arbitrary: f kn)
  case (Cons x ts)
  then show ?case
    by (auto simp: add_check_def rbind_eq_Inr split: if_splits sum.splits) 
qed simp

lemma header_column_ok:
  assumes "header_column sh c n t = Inr t'" "header_ok t"
  shows "header_ok t' \<and> config_dict t' = config_dict t \<and> ch_key_dict t' = ch_key_dict t"
proof -
  obtain tc f cc f' kn kn' where h: "header_type (get_field t n) tc = Inr f"
      "header_checks n c cc (f, key_name t) = Inr (f', kn)"
      "t' = put_field n f' (t\<lparr>key_name := kn'\<rparr>)"
    using assms(1) unfolding header_column_def by (auto simp: rbind_eq_Inr)
  have "field_name (get_field t n) = n"
    using assms(2) by (auto simp: get_field_def header_ok_def new_field_def dest: map_of_SomeD split: option.splits)
  then have f: "field_name f = n" "findex f = findex (get_field t n)" "raw f \<noteq> None"
    using h(1) by (auto simp: header_type_def split: cell.splits option.splits if_splits)
  have "field_name f' = field_name f \<and> findex f' = findex f \<and> raw f' = raw f"
    using h(2) foldR_add_check_frame by (auto simp: header_checks_def split: cell.splits if_splits)
  with f have "header_ok (put_field n f' t)" by (intro header_ok_put [OF assms(2)]) simp_all
  then show ?thesis unfolding h(3) by (simp add: header_ok_def put_field_def)
qed

lemma header_loop_ok:
  "header_loop fn sh cs t = Inr t' \<Longrightarrow> header_ok t \<Longrightarrow>
   header_ok t' \<and> config_dict t' = config_dict t \<and> ch_key_dict t' = ch_key_dict t"
proof (induction cs arbitrary: t)
  case (Cons c cs)
  then obtain n where n: "parse_field_name fn sh c = Inr n" by (auto simp: rbind_eq_Inr)
  show ?case
  proof (cases n)
    case None
    then show ?thesis using Cons.prems n by simp
  next
    case (Some name)
    then obtain u where u: "header_column sh c name t = Inr u" "header_loop fn sh cs u = Inr t'"
      using Cons.prems n by (auto simp: rbind_eq_Inr)
    show ?thesis using header_column_ok [OF u(1) Cons.prems(2)] Cons.IH [OF u(2)] by simp
  qed
qed simp

lemma parse_all_sheet_headers:
  "foldR parse_sheet_header t sheets = Inr t' \<Longrightarrow> header_ok t \<Longrightarrow>
   header_ok t' \<and> config_dict t' = config_dict t \<and> ch_key_dict t' = ch_key_dict t"
proof (induction sheets arbitrary: t)
  case (Cons s sheets)
  then obtain u where u: "parse_sheet_header t s = Inr u" "foldR parse_sheet_header u sheets = Inr t'"
    by (auto simp: rbind_eq_Inr)
  from u(1) have "header_ok u \<and> config_dict u = config_dict t \<and> ch_key_dict u = ch_key_dict t"
    using header_loop_ok Cons.prems(2) by (auto simp: parse_sheet_header_def rbind_eq_Inr split: prod.splits)
  with Cons.IH [OF u(2)] show ?case by simp
qed simp

lemma parse_all_sheet_parsed:
  assumes "parse_all_sheet (new_table n) sheets = Inr t"
  shows "parsed_ok t \<and> header_ok t"
proof -
  obtain u where u: "foldR parse_sheet_header (new_table n) sheets = Inr u"
    "foldR parse_sheet_body u sheets = Inr t"
    using assms by (auto simp: parse_all_sheet_def rbind_eq_Inr)
  have "header_ok (new_table n)" by (simp add: header_ok_def new_table_def)
  then have h: "header_ok u \<and> config_dict u = [] \<and> ch_key_dict u = []"
    using parse_all_sheet_headers [OF u(1)] by (simp add: new_table_def)
  then have "parsed_ok u" by (simp add: parsed_ok_def table_ok_def)
  then have "parsed_ok t \<and> field_dict t = field_dict u"
    by (intro foldR_invariant [OF u(2), of "\<lambda>v. parsed_ok v \<and> field_dict v = field_dict u"])
      (auto dest: parse_sheet_body_ok)
  then show ?thesis using h by (simp add: header_ok_def)
qed

text \<open>
  C3. Reading all the sheets of a table gives a table in which row keys are distinct and each is
  the value of the key column of its row, every named key (\<open>ch_key\<close>) refers to an existing row,
  every stored value has the type its column declares, and the columns are numbered in the order
  in which they were first declared.
\<close>

theorem parse_all_sheet_ok:
  assumes "parse_all_sheet (new_table n) sheets = Inr t"
  shows "parsed_ok t \<and> header_ok t"
  by (rule parse_all_sheet_parsed [OF assms])

definition sample_sheet :: sheet where
  "sample_sheet = \<lparr>sheet_name = ''item'', grid =
     [[CEmpty, CEmpty, CEmpty], [CEmpty, CEmpty, CEmpty], [CEmpty, CEmpty, CEmpty],
      [CText ''Item'', CText ''id'', CText ''ch_key''],
      [CEmpty, CText ''int'', CText ''string''],
      [CEmpty, CText ''key$uniq'', CEmpty],
      [CEmpty, CText ''7'', CText ''sword''],
      [CEmpty, CText ''8'', CEmpty]]\<rparr>"

lemma parse_all_sheet_ok_witness:
  "\<exists>t. parse_all_sheet (new_table ''Item'') [(''item.xls'', sample_sheet)] = Inr t \<and>
     length (config_dict t) = 2 \<and> parsed_ok t \<and> header_ok t"
proof -
  have "\<not> isl (parse_all_sheet (new_table ''Item'') [(''item.xls'', sample_sheet)]) \<and>
    length (config_dict (projr (parse_all_sheet (new_table ''Item'') [(''item.xls'', sample_sheet)]))) = 2"
    by code_simp
  then obtain t where "parse_all_sheet (new_table ''Item'') [(''item.xls'', sample_sheet)] = Inr t"
    "length (config_dict t) = 2" by (metis sum.collapse(2))
  then show ?thesis using parse_all_sheet_ok [of "''Item''" "[(''item.xls'', sample_sheet)]"] by blast
qed

end
