(* ===== verification/Excel_Lua.thy ===== *)
theory Excel_Lua
  imports Excel_Table "HOL-Library.Char_ord" "HOL-Library.List_Lexorder"
begin

text \<open>
  Writing a table as Lua source: \<open>ConfigTable.save_as_lua\<close> and \<open>col_index2name\<close> of
  \<^verbatim>\<open>parse_xls.py\<close>. The rows are written in the order of their keys; \<open>hkey\<close> gets
  Python 2's order (numbers before texts, texts by code point, which for UTF-8 is byte order). The
  reader of Lua's long strings is the abstract specification the writer is compared with.
\<close>

subsection \<open>The order of keys\<close>

instantiation hkey :: linorder
begin

fun less_eq_hkey :: "hkey \<Rightarrow> hkey \<Rightarrow> bool" where
  "less_eq_hkey (HNum x) (HNum y) = (x \<le> y)"
| "less_eq_hkey (HNum x) (HStr t) = True"
| "less_eq_hkey (HStr s) (HNum y) = False"
| "less_eq_hkey (HStr s) (HStr t) = (s \<le> t)"

definition less_hkey :: "hkey \<Rightarrow> hkey \<Rightarrow> bool" where
  "less_hkey k l \<longleftrightarrow> k \<le> l \<and> \<not> l \<le> k"

instance
proof
  fix x y z :: hkey
  show "x < y \<longleftrightarrow> x \<le> y \<and> \<not> y \<le> x" by (rule less_hkey_def)
  show "x \<le> x" by (cases x) simp_all
  show "x \<le> y \<Longrightarrow> y \<le> z \<Longrightarrow> x \<le> z" by (cases x; cases y; cases z) auto
  show "x \<le> y \<Longrightarrow> y \<le> x \<Longrightarrow> x = y" by (cases x; cases y) auto
  show "x \<le> y \<or> y \<le> x" by (cases x; cases y) auto
qed

end

subsection \<open>Values\<close>

definition long_bracket :: "str \<Rightarrow> str" where
  "long_bracket s = ''[==['' @ s @ '']==]''"

fun value2str :: "val \<Rightarrow> str" where
  "value2str (VList vs) = ''{'' @ concat (map (\<lambda>v. value2str v @ '','') vs) @ ''}''"
| "value2str (VStr s) = long_bracket s"
| "value2str (VBool b) = (if b then ''true'' else ''false'')"
| "value2str (VInt i) = int_str i"
| "value2str (VFloat x) = float_str x"

subsection \<open>The file of a table\<close>

definition NL :: str where
  "NL = [CHR 0x0A]"

definition sorted_fields :: "table \<Rightarrow> field list" where
  "sorted_fields t = sort_key findex (map snd (field_dict t))"

definition scheme_text :: "field list \<Rightarrow> str" where
  "scheme_text fs =
     ''    [ [==[__element_names_scheme]==] ] = {'' @ NL
     @ concat (map (\<lambda>(i, f). ''        ['' @ nat_str i @ ''] = '' @ long_bracket (field_name f) @ '','' @ NL)
         (enumerate 1 fs))
     @ ''    },'' @ NL"

definition table_list_text :: "field list \<Rightarrow> str" where
  "table_list_text fs =
     ''    [ [==[__table_field_list]==] ] = {'' @ NL
     @ concat (map (\<lambda>f. ''        '' @ long_bracket (field_name f) @ '','' @ NL) (filter is_table fs))
     @ ''    },'' @ NL"

definition row_text :: "val \<Rightarrow> row \<Rightarrow> str" where
  "row_text key r =
     ''    [ '' @ value2str key @ '' ] = {'' @ NL
     @ concat (map (\<lambda>(n, v). ''        '' @ n @ '' = '' @ value2str v @ '','' @ NL) r)
     @ ''    },'' @ NL"

definition key_value :: "table \<Rightarrow> row \<Rightarrow> val res" where
  "key_value t r = rbind (of_option KeyError (key_name t)) (dict_get r)"

text \<open>\<open>config_list.sort(key=...)\<close>: a stable sort by the value of the key column.\<close>

definition sorted_rows :: "table \<Rightarrow> (hkey \<times> row) list res" where
  "sorted_rows t =
     rbind (mapR (\<lambda>(k, r). rbind (row_key t r) (\<lambda>k'. Inr (k', r))) (config_dict t))
       (\<lambda>rows. Inr (sort_key fst rows))"

definition save_as_lua :: "table \<Rightarrow> str option res" where
  "save_as_lua t =
     (let fs = sorted_fields t; head = ''return {'' @ NL @ scheme_text fs @ table_list_text fs
      in if field_dict t = [] then Inr None
         else if config_dict t = [] then Inr (Some (head @ ''}'' @ NL))
         else rbind (sorted_rows t) (\<lambda>rows.
              rbind (mapR (\<lambda>(k, r). rbind (key_value t r) (\<lambda>v. Inr (row_text v r))) rows) (\<lambda>ts.
                Inr (Some (head @ concat ts @ ''}'' @ NL)))))"

subsection \<open>The export does not depend on the order of the dicts\<close>

lemma distinct_filter_eq: "distinct zs \<Longrightarrow> k \<in> set zs \<Longrightarrow> filter (\<lambda>y. y = k) zs = [k]"
  by (induction zs) (auto simp: filter_empty_conv)

lemma sort_key_mset:
  assumes "mset ys = mset xs" "distinct (map f xs)"
  shows "sort_key f ys = sort_key f xs"
proof (rule properties_for_sort_key)
  have inj: "inj_on f (set xs)" using assms(2) by (simp add: distinct_map)
  have ys: "distinct ys" "set ys = set xs" "distinct xs" using assms
    by (metis distinct_map mset_eq_imp_distinct_iff, metis mset_eq_setD, simp add: distinct_map)
  show "mset (sort_key f xs) = mset ys" using assms(1) by simp
  show "sorted (map f (sort_key f xs))" by simp
  fix k
  assume "k \<in> set (sort_key f xs)"
  then have k: "k \<in> set xs" by simp
  have one: "filter (\<lambda>y. f k = f y) zs = [k]" if "distinct zs" "set zs = set xs" for zs
  proof -
    have "filter (\<lambda>y. f k = f y) zs = filter (\<lambda>y. y = k) zs"
      using inj k that(2) by (intro filter_cong refl) (auto dest: inj_onD)
    also have "\<dots> = [k]" using that k distinct_filter_eq by metis
    finally show ?thesis .
  qed
  show "filter (\<lambda>y. f k = f y) (sort_key f xs) = filter (\<lambda>y. f k = f y) ys"
    using one [of ys] one [of "sort_key f xs"] ys by simp
qed

lemma sorted_rows_keyed:
  assumes "\<forall>(k, r) \<in> set (config_dict t). row_key t r = Inr k"
  shows "sorted_rows t = Inr (sort_key fst (config_dict t))"
proof -
  have "mapR (\<lambda>(k, r). rbind (row_key t r) (\<lambda>k'. Inr (k', r))) d = Inr d"
    if "\<forall>(k, r) \<in> set d. row_key t r = Inr k" for d
    using that by (induction d) auto
  then show ?thesis using assms by (simp add: sorted_rows_def)
qed

text \<open>
  The exported file does not depend on the iteration order of the table's dicts: two tables
  with the same columns and the same rows, in whatever order, give the same file, provided each
  row is stored under the value of its key column.
\<close>

theorem save_as_lua_order:
  assumes "dict_ok (config_dict t)" "\<forall>(k, r) \<in> set (config_dict t). row_key t r = Inr k" "header_ok t"
    and "mset (config_dict t') = mset (config_dict t)" "mset (field_dict t') = mset (field_dict t)"
    and "key_name t' = key_name t"
  shows "save_as_lua t' = save_as_lua t"
proof -
  have "distinct (map findex (map snd (field_dict t)))"
    using assms(3) by (simp add: header_ok_def comp_def)
  then have fs: "sorted_fields t' = sorted_fields t"
    unfolding sorted_fields_def using assms(5) by (intro sort_key_mset) simp_all
  have kv: "row_key t' = row_key t" "key_value t' = key_value t"
    using assms(6) by (simp_all add: row_key_def key_value_def fun_eq_iff)
  have "\<forall>(k, r) \<in> set (config_dict t'). row_key t' r = Inr k"
    using assms(2) kv(1) mset_eq_setD [OF assms(4)] by simp
  then have rows: "sorted_rows t' = sorted_rows t"
    using sort_key_mset [OF assms(4)] assms(1,2) by (simp add: sorted_rows_keyed dict_ok_def)
  have e: "(config_dict t' = []) = (config_dict t = [])" "(field_dict t' = []) = (field_dict t = [])"
    using assms(4,5) by (metis mset_zero_iff)+
  show ?thesis unfolding save_as_lua_def fs rows kv(2) e ..
qed

definition sample_export :: "(hkey \<times> row) list \<Rightarrow> table" where
  "sample_export rows = (new_table ''Item'')\<lparr>key_name := Some ''id'',
     field_dict := [(''id'', (new_field ''id'' 0)\<lparr>raw := Some TInt\<rparr>)], config_dict := rows\<rparr>"

lemma save_as_lua_order_witness:
  "save_as_lua (sample_export [(HNum 2, [(''id'', VInt 2)]), (HNum 1, [(''id'', VInt 1)])]) =
   save_as_lua (sample_export [(HNum 1, [(''id'', VInt 1)]), (HNum 2, [(''id'', VInt 2)])])"
  by (rule save_as_lua_order)
    (simp_all add: sample_export_def new_table_def new_field_def header_ok_def dict_ok_def row_key_def
      dict_get_def)

subsection \<open>What Lua reads back\<close>

text \<open>
  Lua 5.3 reads a long string of level 2 from its opening bracket up to the first \<open>]==]\<close>; a line
  break right after the opening bracket is skipped, and any other line break is read as LF.
\<close>

fun line_breaks :: "str \<Rightarrow> str" where
  "line_breaks [] = []"
| "line_breaks [c] = [if c = CHR 0x0D then CHR 0x0A else c]"
| "line_breaks (c # d # s) =
     (if c = CHR 0x0D then CHR 0x0A # line_breaks (if d = CHR 0x0A then s else d # s)
      else c # line_breaks (d # s))"

definition lua_long_string :: "str \<Rightarrow> (str \<times> str) option" where
  "lua_long_string s =
     (if starts_with ''[==['' s then
        let b = drop 4 s in
        case find_sub '']==]'' b of
          None \<Rightarrow> None
        | Some i \<Rightarrow>
            let t = line_breaks (take i b) in
            Some (if t \<noteq> [] \<and> hd t = CHR 0x0A then tl t else t, drop (i + 4) b)
      else None)"

lemma line_breaks_no_cr: "CHR 0x0D \<notin> set (line_breaks s)"
  by (induction s rule: line_breaks.induct) auto

lemma line_breaks_id: "CHR 0x0D \<notin> set s \<Longrightarrow> line_breaks s = s"
  by (induction s rule: line_breaks.induct) auto

lemma line_breaks_length: "length (line_breaks s) \<le> length s"
proof (induction s rule: line_breaks.induct)
  case (3 c d s)
  then show ?case by (cases "c = CHR 0x0D"; cases "d = CHR 0x0A") auto
qed auto

lemma contains_Cons: "p \<noteq> [] \<Longrightarrow> contains p (c # s) \<longleftrightarrow> starts_with p (c # s) \<or> contains p s"
  by (auto simp: contains_def)

lemma find_sub_le: "\<exists>i. find_sub p (t @ p @ u) = Some i \<and> i \<le> length t"
proof (induction t)
  case Nil
  have "starts_with p (p @ u)" by simp
  then show ?case by (cases "p @ u") (auto simp: starts_with_def)
qed auto

lemma closing_bracket_first:
  "find_sub '']==]'' (s @ '']==]'' @ rest) = Some (length s) \<longleftrightarrow> \<not> contains '']==]'' (s @ '']'')"
proof
  assume "\<not> contains '']==]'' (s @ '']'')"
  then show "find_sub '']==]'' (s @ '']==]'' @ rest) = Some (length s)"
  proof (induction s)
    case (Cons c s)
    have "starts_with '']==]'' ((c # s) @ '']==]'' @ rest) = starts_with '']==]'' ((c # s) @ '']'')"
      by (cases s; cases "tl s"; cases "tl (tl s)") (simp_all add: starts_with_Cons)
    then have "\<not> starts_with '']==]'' ((c # s) @ '']==]'' @ rest)"
      using Cons.prems by (simp add: contains_Cons)
    moreover have "\<not> contains '']==]'' (s @ '']'')" using Cons.prems by (simp add: contains_Cons)
    ultimately show ?case using Cons.IH by simp
  qed (simp add: starts_with_Cons)
next
  assume f: "find_sub '']==]'' (s @ '']==]'' @ rest) = Some (length s)"
  show "\<not> contains '']==]'' (s @ '']'')"
  proof
    assume "contains '']==]'' (s @ '']'')"
    then obtain t u where tu: "s @ '']'' = t @ '']==]'' @ u" by (auto simp: contains_iff)
    have "length (s @ '']'') = length (t @ '']==]'' @ u)" using tu by (rule arg_cong)
    then have "length t < length s" by simp
    moreover have "s @ '']==]'' @ rest = t @ '']==]'' @ (u @ ''==]'' @ rest)"
      using tu by (metis append.assoc append_Cons append_Nil)
    ultimately show False using f find_sub_le [of "'']==]''" t "u @ ''==]'' @ rest"]
      by (metis linorder_not_less option.inject)
  qed
qed

text \<open>
  C5. A text value comes back from the exported file unchanged exactly when neither it nor its
  junction with the closing bracket contains that bracket, it has no carriage return, and it does
  not begin with a line break.
\<close>

theorem lua_text_roundtrip:
  "lua_long_string (value2str (VStr s) @ rest) = Some (s, rest) \<longleftrightarrow>
     \<not> contains '']==]'' (s @ '']'') \<and> CHR 0x0D \<notin> set s \<and> \<not> starts_with [CHR 0x0A] s"
proof -
  let ?b = "s @ '']==]'' @ rest"
  have open_bracket: "lua_long_string (value2str (VStr s) @ rest) =
      (case find_sub '']==]'' ?b of
          None \<Rightarrow> None
        | Some i \<Rightarrow> let t = line_breaks (take i ?b) in
            Some (if t \<noteq> [] \<and> hd t = CHR 0x0A then tl t else t, drop (i + 4) ?b))"
  proof -
    have e: "value2str (VStr s) @ rest = ''[==['' @ ?b" by (simp add: long_bracket_def)
    have d: "drop 4 (''[==['' @ x) = x" for x by simp
    have o: "starts_with ''[==['' (''[==['' @ x) = True" for x by (simp only: starts_with_append)
    show ?thesis unfolding lua_long_string_def e d o if_True Let_def ..
  qed
  obtain i where i: "find_sub '']==]'' ?b = Some i" "i \<le> length s"
    using find_sub_le [of "'']==]''" s rest] by blast
  have all: "line_breaks s = s \<and> \<not> (s \<noteq> [] \<and> hd s = CHR 0x0A)"
    if h: "(if line_breaks s \<noteq> [] \<and> hd (line_breaks s) = CHR 0x0A then tl (line_breaks s)
         else line_breaks s) = s"
  proof (cases "line_breaks s \<noteq> [] \<and> hd (line_breaks s) = CHR 0x0A")
    case True
    then have "length (tl (line_breaks s)) < length (line_breaks s)" by simp
    moreover have "tl (line_breaks s) = s" using h True by simp
    ultimately have False using line_breaks_length [of s] by (metis linorder_not_less)
    then show ?thesis ..
  qed (use h in auto)
  have starts: "starts_with [CHR 0x0A] s \<longleftrightarrow> s \<noteq> [] \<and> hd s = CHR 0x0A"
    by (cases s) auto
  have "drop (i + 4) ?b = rest \<longleftrightarrow> i = length s"
  proof
    assume "drop (i + 4) ?b = rest"
    then have "length (drop (i + 4) ?b) = length rest" by (rule arg_cong)
    then show "i = length s" using i(2) by simp
  qed simp
  then show ?thesis unfolding open_bracket i(1) closing_bracket_first [of s rest, symmetric]
    unfolding starts using all line_breaks_id [of s] line_breaks_no_cr [of s]
    by (auto simp: Let_def)
qed

end
