(* ===== verification/Excel_Drop.thy ===== *)
theory Excel_Drop
  imports Excel_Checks
begin

text \<open>
  The drop tables of \<^verbatim>\<open>parse_xls.py\<close>: \<open>check_group_name\<close> and \<open>check_drop_data\<close>. A drop group
  lists rows, and a row may drop another group; the tool must refuse groups that drop themselves.
  \<open>check_drop_data\<close> walks the groups depth first and caches, per group, a path to every group it
  found below it. The cache entry of a group on the recursion stack is still incomplete when a
  deeper group reads it; that it suffices all the same is the main theorem here.
\<close>

subsection \<open>The walk: \<open>_arrive\<close> with \<open>path_cache\<close>\<close>

text \<open>A path tuple \<open>(group, next)\<close>, where \<open>next\<close> is a group id or a path tuple again.\<close>

datatype path = Hop hkey hkey | Via hkey path

type_synonym graph = "(hkey \<times> hkey list) list"
type_synonym reach = "(hkey \<times> path) list"
type_synonym cache = "(hkey \<times> reach) list"

text \<open>First loop: the children themselves.\<close>

definition direct :: "hkey \<Rightarrow> hkey list \<Rightarrow> reach" where
  "direct g cs = foldl (\<lambda>ret c. AList.update c (Hop g c) ret) [] cs"

text \<open>Inner loop: what a child reaches, unless it is known already.\<close>

definition merge_reach :: "hkey \<Rightarrow> reach \<Rightarrow> reach \<Rightarrow> reach" where
  "merge_reach g d ret =
     foldl (\<lambda>ret (k, p). if k \<in> fst ` set ret then ret else AList.update k (Via g p) ret) ret d"

definition entry :: "cache \<Rightarrow> hkey \<Rightarrow> reach" where
  "entry ca g = (case map_of ca g of None \<Rightarrow> [] | Some d \<Rightarrow> d)"

definition merge_child :: "hkey \<Rightarrow> hkey \<Rightarrow> cache \<Rightarrow> cache" where
  "merge_child g c ca = AList.update g (merge_reach g (entry ca c) (entry ca g)) ca"

text \<open>
  The second loop of \<open>_arrive(g)\<close> over the children still to do. The recursive call on a child
  that is not cached first stores the child's own first-loop result.
\<close>

function arrive_loop :: "graph \<Rightarrow> hkey \<Rightarrow> hkey list \<Rightarrow> cache \<Rightarrow> cache res" where
  "arrive_loop gr g [] ca = Inr ca"
| "arrive_loop gr g (c # cs) ca =
     rbind (if c \<in> fst ` set ca then Inr ca
            else case map_of gr c of
              None \<Rightarrow> Inl KeyError
            | Some ch \<Rightarrow> arrive_loop gr c ch (AList.update c (direct c ch) ca))
       (\<lambda>ca'. arrive_loop gr g cs (merge_child g c ca'))"
  by pat_completeness auto

definition cached :: "cache \<Rightarrow> hkey set" where
  "cached ca = fst ` set ca"

lemma cached_update [simp]: "cached (AList.update k v ca) = insert k (cached ca)"
  by (simp add: cached_def dom_update)

lemma cached_merge [simp]: "cached (merge_child g c ca) = insert g (cached ca)"
  by (simp add: merge_child_def)

lemma arrive_loop_dom_mono:
  "arrive_loop_dom (gr, g, cs, ca) \<Longrightarrow> arrive_loop gr g cs ca = Inr ca' \<Longrightarrow> cached ca \<subseteq> cached ca'"
proof (induction arbitrary: ca' rule: arrive_loop.pinduct)
  case (1 gr g ca)
  then show ?case by (simp add: arrive_loop.psimps)
next
  case (2 gr g c cs ca)
  from "2.prems" obtain cb where
    cb: "(if c \<in> fst ` set ca then Inr ca
            else case map_of gr c of
              None \<Rightarrow> Inl KeyError
            | Some ch \<Rightarrow> arrive_loop gr c ch (AList.update c (direct c ch) ca)) = Inr cb"
    and rest: "arrive_loop gr g cs (merge_child g c cb) = Inr ca'"
    using "2.hyps" by (auto simp: arrive_loop.psimps rbind_eq_Inr)
  have "cached ca \<subseteq> cached cb"
    using cb "2.IH"(1) by (auto split: if_splits option.splits)
  moreover have "cached (merge_child g c cb) \<subseteq> cached ca'"
    using "2.IH"(2) [OF cb rest] by simp
  ultimately show ?case by auto
qed

definition todo :: "graph \<Rightarrow> cache \<Rightarrow> nat" where
  "todo gr ca = card (fst ` set gr - cached ca)"

lemma todo_mono: "cached ca \<subseteq> cached ca' \<Longrightarrow> todo gr ca' \<le> todo gr ca"
  unfolding todo_def by (rule card_mono) auto

lemma todo_visit:
  "map_of gr c = Some ch \<Longrightarrow> c \<notin> cached ca \<Longrightarrow> todo gr (AList.update c d ca) < todo gr ca"
proof -
  assume "map_of gr c = Some ch" "c \<notin> cached ca"
  then have "c \<in> fst ` set gr - cached ca" by (force dest: map_of_SomeD)
  then show ?thesis unfolding todo_def by (intro psubset_card_mono) auto
qed

termination arrive_loop
proof (relation "measures [\<lambda>(gr, g, cs, ca). todo gr ca, \<lambda>(gr, g, cs, ca). length cs]", goal_cases)
  case 1
  then show ?case by simp
next
  case (2 gr g c cs ca ch)
  then have "todo gr (AList.update c (direct c ch) ca) < todo gr ca"
    by (auto intro: todo_visit simp: cached_def)
  then show ?case by simp
next
  case (3 gr g c cs ca cb)
  have "cached ca \<subseteq> cached cb"
  proof (cases "c \<in> fst ` set ca")
    case True
    with 3(1) show ?thesis by simp
  next
    case False
    then obtain ch where ch: "map_of gr c = Some ch"
      "arrive_loop gr c ch (AList.update c (direct c ch) ca) = Inr cb"
      using 3(1) by (auto split: option.splits)
    then show ?thesis
      using arrive_loop_dom_mono [OF 3(2) [OF False ch(1)] ch(2)] by auto
  qed
  then have "todo gr (merge_child g c cb) \<le> todo gr ca" by (intro todo_mono) auto
  then show ?case by auto
qed

definition arrive :: "graph \<Rightarrow> hkey \<Rightarrow> cache \<Rightarrow> cache res" where
  "arrive gr g ca =
     (if g \<in> fst ` set ca then Inr ca
      else case map_of gr g of
        None \<Rightarrow> Inl KeyError
      | Some ch \<Rightarrow> arrive_loop gr g ch (AList.update g (direct g ch) ca))"

definition arrive_all :: "graph \<Rightarrow> cache res" where
  "arrive_all gr = foldR (\<lambda>ca g. arrive gr g ca) [] (map fst gr)"

lemma arrive_loop_Cons [simp]:
  "arrive_loop gr g (c # cs) ca =
     rbind (arrive gr c ca) (\<lambda>ca'. arrive_loop gr g cs (merge_child g c ca'))"
  by (simp add: arrive_def)

declare arrive_loop.simps(2) [simp del]

subsection \<open>The groups as a relation, and the induction over the walk\<close>

definition drops :: "graph \<Rightarrow> (hkey \<times> hkey) set" where
  "drops gr = {(g, c). \<exists>ch. map_of gr g = Some ch \<and> c \<in> set ch}"

definition keys :: "cache \<Rightarrow> hkey \<Rightarrow> hkey set" where
  "keys ca g = fst ` set (entry ca g)"

lemma entry_update [simp]: "entry (AList.update k d ca) x = (if x = k then d else entry ca x)"
  by (simp add: entry_def)

lemma keys_update [simp]: "keys (AList.update k d ca) x = (if x = k then fst ` set d else keys ca x)"
  by (simp add: keys_def)

lemma keys_direct [simp]: "fst ` set (direct g cs) = set cs"
proof -
  have "fst ` set (foldl (\<lambda>ret c. AList.update c (Hop g c) ret) ret cs) = fst ` set ret \<union> set cs" for ret
    by (induction cs arbitrary: ret) (auto simp: dom_update)
  from this [of "[]"] show ?thesis by (simp add: direct_def)
qed

lemma merge_step_keys:
  "fst ` set (foldl (\<lambda>ret (k, p). if k \<in> fst ` set ret then ret else AList.update k (Via g p) ret) ret d)
     = fst ` set ret \<union> fst ` set d"
proof (induction d arbitrary: ret)
  case (Cons kp d)
  then show ?case by (cases kp) (auto simp: dom_update)
qed simp

lemma keys_merge_reach [simp]: "fst ` set (merge_reach g d ret) = fst ` set ret \<union> fst ` set d"
  unfolding merge_reach_def by (rule merge_step_keys)

lemma keys_merge_child [simp]:
  "keys (merge_child g c ca) x = (if x = g then keys ca g \<union> keys ca c else keys ca x)"
  by (simp add: merge_child_def) (simp add: keys_def)

lemma keys_uncached: "g \<notin> cached ca \<Longrightarrow> keys ca g = {}"
  by (simp add: keys_def entry_def cached_def map_of_eq_None_iff [THEN iffD2])

text \<open>
  A predicate on caches that survives the two writes (a fresh group's own children, a child's
  reach merged into its parent) survives the whole walk.
\<close>

lemma arrive_loop_invariant:
  assumes "arrive_loop gr g cs ca = Inr ca'" and "P ca"
    and "\<forall>c \<in> set cs. (g, c) \<in> drops gr"
    and "\<And>c ch u. map_of gr c = Some ch \<Longrightarrow> c \<notin> cached u \<Longrightarrow> P u \<Longrightarrow>
      P (AList.update c (direct c ch) u)"
    and "\<And>g c u. (g, c) \<in> drops gr \<Longrightarrow> P u \<Longrightarrow> P (merge_child g c u)"
  shows "P ca'"
  using assms
proof (induction gr g cs ca arbitrary: ca' rule: arrive_loop.induct)
  case (2 gr g c cs ca)
  note fresh = "2.prems"(4) and merge = "2.prems"(5)
  from "2.prems"(1) obtain cb where cb: "arrive gr c ca = Inr cb"
    and rest: "arrive_loop gr g cs (merge_child g c cb) = Inr ca'"
    by (auto simp: rbind_eq_Inr)
  have "P cb"
  proof (cases "c \<in> fst ` set ca")
    case True
    with cb "2.prems"(2) show ?thesis by (simp add: arrive_def)
  next
    case False
    then obtain ch where ch: "map_of gr c = Some ch"
      "arrive_loop gr c ch (AList.update c (direct c ch) ca) = Inr cb"
      using cb by (auto simp: arrive_def split: option.splits)
    moreover have "\<forall>d \<in> set ch. (c, d) \<in> drops gr" using ch(1) by (auto simp: drops_def)
    moreover have "P (AList.update c (direct c ch) ca)"
      using fresh [OF ch(1)] False "2.prems"(2) by (simp add: cached_def)
    ultimately show ?thesis using "2.IH"(1) [OF False] fresh merge by blast
  qed
  then have "P (merge_child g c cb)" using merge "2.prems"(3) by simp
  moreover have "(if c \<in> fst ` set ca then Inr ca
            else case map_of gr c of
              None \<Rightarrow> Inl KeyError
            | Some ch \<Rightarrow> arrive_loop gr c ch (AList.update c (direct c ch) ca)) = Inr cb"
    using cb by (simp add: arrive_def)
  ultimately show ?case using "2.IH"(2) rest "2.prems"(3) fresh merge by simp
qed simp

lemma arrive_invariant:
  assumes "arrive gr g ca = Inr ca'" and "P ca"
    and fresh: "\<And>c ch u. map_of gr c = Some ch \<Longrightarrow> c \<notin> cached u \<Longrightarrow> P u \<Longrightarrow>
      P (AList.update c (direct c ch) u)"
    and merge: "\<And>g c u. (g, c) \<in> drops gr \<Longrightarrow> P u \<Longrightarrow> P (merge_child g c u)"
  shows "P ca'"
proof (cases "g \<in> fst ` set ca")
  case True
  with assms show ?thesis by (simp add: arrive_def)
next
  case False
  then obtain ch where ch: "map_of gr g = Some ch"
    "arrive_loop gr g ch (AList.update g (direct g ch) ca) = Inr ca'"
    using assms(1) by (auto simp: arrive_def split: option.splits)
  have "P (AList.update g (direct g ch) ca)"
    using fresh [OF ch(1)] False assms(2) by (simp add: cached_def)
  from arrive_loop_invariant [OF ch(2), of P, OF this] ch(1) fresh merge show ?thesis
    by (auto simp: drops_def)
qed

lemma arrive_all_invariant:
  assumes "arrive_all gr = Inr ca" and "P []"
    and "\<And>c ch u. map_of gr c = Some ch \<Longrightarrow> c \<notin> cached u \<Longrightarrow> P u \<Longrightarrow>
      P (AList.update c (direct c ch) u)"
    and "\<And>g c u. (g, c) \<in> drops gr \<Longrightarrow> P u \<Longrightarrow> P (merge_child g c u)"
  shows "P ca"
proof (rule foldR_invariant [where P = P, OF assms(1) [unfolded arrive_all_def] assms(2)])
  fix u x v
  assume u: "P u" and run: "arrive gr x u = Inr v"
  show "P v" by (rule arrive_invariant [where P = P, OF run u]) (use assms in blast)+
qed

lemma keys_mono:
  "arrive gr g ca = Inr ca' \<Longrightarrow> keys ca x \<subseteq> keys ca' x \<and> cached ca \<subseteq> cached ca'"
  by (erule arrive_invariant [where P = "\<lambda>u. keys ca x \<subseteq> keys u x \<and> cached ca \<subseteq> cached u"])
     (auto dest: keys_uncached split: if_splits)

lemma keys_loop_mono:
  "arrive_loop gr g cs ca = Inr ca' \<Longrightarrow> \<forall>c \<in> set cs. (g, c) \<in> drops gr \<Longrightarrow>
   keys ca x \<subseteq> keys ca' x \<and> cached ca \<subseteq> cached ca'"
  by (erule arrive_loop_invariant [where P = "\<lambda>u. keys ca x \<subseteq> keys u x \<and> cached ca \<subseteq> cached u"])
     (auto dest: keys_uncached split: if_splits)

lemma arrive_cached: "arrive gr g ca = Inr ca' \<Longrightarrow> g \<in> cached ca'"
proof (cases "g \<in> cached ca")
  case False
  moreover assume "arrive gr g ca = Inr ca'"
  ultimately obtain ch where ch: "map_of gr g = Some ch"
    "arrive_loop gr g ch (AList.update g (direct g ch) ca) = Inr ca'"
    by (auto simp: arrive_def cached_def split: option.splits)
  then have "\<forall>d \<in> set ch. (g, d) \<in> drops gr" by (auto simp: drops_def)
  from keys_loop_mono [OF ch(2) this] show ?thesis by auto
qed (auto simp: arrive_def cached_def)

subsection \<open>Every recorded path is a path\<close>

fun path_ok :: "graph \<Rightarrow> hkey \<Rightarrow> hkey \<Rightarrow> path \<Rightarrow> bool" where
  "path_ok gr g k (Hop a b) \<longleftrightarrow> a = g \<and> b = k \<and> (a, b) \<in> drops gr"
| "path_ok gr g k (Via a p) \<longleftrightarrow> a = g \<and> (\<exists>c. (a, c) \<in> drops gr \<and> path_ok gr c k p)"

definition sound :: "graph \<Rightarrow> cache \<Rightarrow> bool" where
  "sound gr ca \<longleftrightarrow> (\<forall>g k p. (k, p) \<in> set (entry ca g) \<longrightarrow> path_ok gr g k p)"

lemma direct_entries: "(k, p) \<in> set (direct g cs) \<Longrightarrow> p = Hop g k \<and> k \<in> set cs"
proof -
  have "set (foldl (\<lambda>ret c. AList.update c (Hop g c) ret) ret cs)
      \<subseteq> set ret \<union> (\<lambda>c. (c, Hop g c)) ` set cs" for ret
  proof (induction cs arbitrary: ret)
    case (Cons c cs)
    then show ?case
      using set_update_subset [of c "Hop g c" ret]
      by (auto dest!: subsetD [OF Cons.IH [of "AList.update c (Hop g c) ret"]])
  qed simp
  from this [of "[]"] show "(k, p) \<in> set (direct g cs) \<Longrightarrow> ?thesis" by (auto simp: direct_def)
qed

lemma merge_entries: "set (merge_reach g d ret) \<subseteq> set ret \<union> (\<lambda>(k, p). (k, Via g p)) ` set d"
proof -
  have "set (foldl (\<lambda>ret (k, p). if k \<in> fst ` set ret then ret else AList.update k (Via g p) ret) ret d)
      \<subseteq> set ret \<union> (\<lambda>(k, p). (k, Via g p)) ` set d"
  proof (induction d arbitrary: ret)
    case (Cons kp d)
    obtain k p where kp: "kp = (k, p)" by force
    show ?case
      using Cons.IH [of ret] Cons.IH [of "AList.update k (Via g p) ret"]
        set_update_subset [of k "Via g p" ret]
      by (auto simp: kp)
  qed simp
  then show ?thesis by (simp add: merge_reach_def)
qed

lemma arrive_all_sound: "arrive_all gr = Inr ca \<Longrightarrow> sound gr ca"
proof (erule arrive_all_invariant)
  show "sound gr []" by (simp add: sound_def entry_def)
next
  fix c ch u
  assume "map_of gr c = Some ch" "sound gr u"
  then show "sound gr (AList.update c (direct c ch) u)"
    by (auto simp: sound_def drops_def dest: direct_entries)
next
  fix g c u
  assume "(g, c) \<in> drops gr" "sound gr u"
  have "path_ok gr g k p" if "(k, p) \<in> set (merge_reach g (entry u c) (entry u g))" for k p
  proof -
    from that merge_entries [of g "entry u c" "entry u g"] consider
      "(k, p) \<in> set (entry u g)" | q where "p = Via g q" "(k, q) \<in> set (entry u c)"
      by auto
    then show ?thesis using \<open>sound gr u\<close> \<open>(g, c) \<in> drops gr\<close> by cases (auto simp: sound_def)
  qed
  with \<open>sound gr u\<close> show "sound gr (merge_child g c u)"
    by (simp add: sound_def merge_child_def)
qed

subsection \<open>No cycle is missed\<close>

definition self_drop :: "cache \<Rightarrow> bool" where
  "self_drop ca \<longleftrightarrow> (\<exists>g. g \<in> keys ca g)"

text \<open>The groups in \<open>F\<close> are finished: their entries contain those of their children.\<close>

definition closed_on :: "graph \<Rightarrow> cache \<Rightarrow> hkey set \<Rightarrow> bool" where
  "closed_on gr ca F \<longleftrightarrow>
     (\<forall>u \<in> F. \<forall>v. (u, v) \<in> drops gr \<longrightarrow> v \<in> F \<and> insert v (keys ca v) \<subseteq> keys ca u)"

text \<open>
  The state of the walk at group \<open>g\<close> with the groups \<open>S\<close> on the stack: a group that reaches
  itself is recorded already, or \<open>g\<close> reaches a group of the stack (which will then reach
  itself), or all finished groups are closed.
\<close>

definition walk_ok :: "graph \<Rightarrow> hkey set \<Rightarrow> hkey \<Rightarrow> cache \<Rightarrow> bool" where
  "walk_ok gr S g ca \<longleftrightarrow>
     self_drop ca \<or> keys ca g \<inter> S \<noteq> {} \<or> closed_on gr ca (cached ca - S)"

definition done_ok :: "hkey set \<Rightarrow> hkey \<Rightarrow> hkey list \<Rightarrow> cache \<Rightarrow> bool" where
  "done_ok S g cs ca \<longleftrightarrow>
     self_drop ca \<or> keys ca g \<inter> S \<noteq> {} \<or>
     (\<forall>c \<in> set cs. c \<in> cached ca - S \<and> insert c (keys ca c) \<subseteq> keys ca g)"

lemma self_drop_mono:
  "self_drop ca \<Longrightarrow> (\<And>x. keys ca x \<subseteq> keys ca' x) \<Longrightarrow> self_drop ca'"
  by (auto simp: self_drop_def)

lemma closed_merge_off: "closed_on gr ca F \<Longrightarrow> g \<notin> F \<Longrightarrow> closed_on gr (merge_child g c ca) F"
  unfolding closed_on_def by (metis keys_merge_child)

lemma closed_update_off: "closed_on gr ca F \<Longrightarrow> c \<notin> F \<Longrightarrow> closed_on gr (AList.update c d ca) F"
  unfolding closed_on_def by (metis keys_update)

lemma closed_insert:
  assumes "closed_on gr ca F" and g: "map_of gr g = Some ch"
    and kids: "\<forall>v \<in> set ch. v \<in> F \<and> insert v (keys ca v) \<subseteq> keys ca g"
  shows "closed_on gr ca (insert g F)"
  unfolding closed_on_def
proof (intro ballI allI impI)
  fix u v
  assume u: "u \<in> insert g F" and e: "(u, v) \<in> drops gr"
  show "v \<in> insert g F \<and> insert v (keys ca v) \<subseteq> keys ca u"
  proof (cases "u = g")
    case True
    then have "v \<in> set ch" using e g by (simp add: drops_def)
    then show ?thesis using kids True by blast
  next
    case False
    then show ?thesis using assms(1) u e by (simp add: closed_on_def)
  qed
qed

text \<open>What one child contributes; \<open>walk_child\<close> is the statement for the child's own loop.\<close>

lemma visit_child:
  assumes run: "arrive gr c ca = Inr cb" and g: "g \<in> S" "S \<subseteq> cached ca" "(g, c) \<in> drops gr"
    and c_in: "c \<in> keys ca g" and ok: "walk_ok gr S g ca"
    and walk_child: "\<And>ch. map_of gr c = Some ch \<Longrightarrow> c \<notin> cached ca \<Longrightarrow>
      walk_ok gr (insert c S) c (AList.update c (direct c ch) ca) \<Longrightarrow>
      walk_ok gr (insert c S) c cb \<and> done_ok (insert c S) c ch cb"
  shows "walk_ok gr S g (merge_child g c cb) \<and> done_ok S g [c] (merge_child g c cb)"
proof -
  let ?cc = "merge_child g c cb"
  have mono: "keys ca x \<subseteq> keys cb x" "cached ca \<subseteq> cached cb" for x
    using keys_mono [OF run] by auto
  have mono': "keys cb x \<subseteq> keys ?cc x" for x by auto
  consider (bad) "self_drop cb \<or> keys cb g \<inter> S \<noteq> {}" | (stack) "c \<in> S"
    | (loop) "keys cb c \<inter> S \<noteq> {}"
    | (closed) "closed_on gr cb (cached cb - S)" "c \<in> cached cb - S"
  proof (cases "self_drop ca \<or> keys ca g \<inter> S \<noteq> {} \<or> c \<in> S")
    case True
    moreover have "self_drop cb" if "self_drop ca" using that mono(1) by (rule self_drop_mono)
    moreover have "keys cb g \<inter> S \<noteq> {}" if "keys ca g \<inter> S \<noteq> {}" using that mono(1) [of g] by blast
    ultimately show ?thesis using bad stack by blast
  next
    case False
    with ok have cl: "closed_on gr ca (cached ca - S)" by (simp add: walk_ok_def)
    show ?thesis
    proof (cases "c \<in> cached ca")
      case True
      then have "cb = ca" using run by (simp add: arrive_def cached_def)
      with cl True False closed show ?thesis by blast
    next
      case fresh: False
      then obtain ch where ch: "map_of gr c = Some ch"
        using run by (auto simp: arrive_def cached_def split: option.splits)
      have "closed_on gr (AList.update c (direct c ch) ca) (cached ca - S)"
        using cl by (rule closed_update_off) (use fresh in simp)
      moreover have "insert c (cached ca) - insert c S = cached ca - S" using fresh by auto
      ultimately have "walk_ok gr (insert c S) c (AList.update c (direct c ch) ca)"
        by (simp add: walk_ok_def)
      from walk_child [OF ch fresh this]
      have w: "walk_ok gr (insert c S) c cb" and d: "done_ok (insert c S) c ch cb" by auto
      show ?thesis
      proof (cases "self_drop cb \<or> keys cb c \<inter> insert c S \<noteq> {}")
        case True
        then show ?thesis using bad loop by (auto simp: self_drop_def)
      next
        case no: False
        have cc: "c \<in> cached cb" using arrive_cached [OF run] .
        have eq: "cached cb - S = insert c (cached cb - insert c S)" using cc False by auto
        have kids: "\<forall>v \<in> set ch. v \<in> cached cb - insert c S \<and> insert v (keys cb v) \<subseteq> keys cb c"
          using d no by (simp add: done_ok_def)
        have "closed_on gr cb (cached cb - insert c S)" using w no by (simp add: walk_ok_def)
        then have "closed_on gr cb (cached cb - S)"
          unfolding eq using ch kids by (rule closed_insert)
        then show ?thesis using closed cc False by blast
      qed
    qed
  qed
  then show ?thesis
  proof cases
    case bad
    then show ?thesis using self_drop_mono [OF _ mono'] mono'
      by (auto simp: walk_ok_def done_ok_def)
  next
    case stack
    then show ?thesis using c_in mono by (auto simp: walk_ok_def done_ok_def)
  next
    case loop
    then show ?thesis by (auto simp: walk_ok_def done_ok_def)
  next
    case closed
    moreover have "insert g (cached cb) - S = cached cb - S" using g by auto
    ultimately have "walk_ok gr S g ?cc"
      using closed_merge_off [of gr cb "cached cb - S" g c] g by (simp add: walk_ok_def)
    moreover have "done_ok S g [c] ?cc"
      using closed(2) c_in mono g by (auto simp: done_ok_def)
    ultimately show ?thesis ..
  qed
qed

text \<open>Entries of groups other than the one at work are never touched again.\<close>

lemma entry_stable_loop:
  "arrive_loop gr g cs ca = Inr ca' \<Longrightarrow> x \<in> cached ca \<Longrightarrow> x \<noteq> g \<Longrightarrow> entry ca' x = entry ca x"
proof (induction gr g cs ca arbitrary: ca' rule: arrive_loop.induct)
  case (2 gr g c cs ca)
  from "2.prems"(1) obtain cb where cb: "arrive gr c ca = Inr cb"
    and rest: "arrive_loop gr g cs (merge_child g c cb) = Inr ca'"
    by (auto simp: rbind_eq_Inr)
  have cb': "(if c \<in> fst ` set ca then Inr ca
            else case map_of gr c of
              None \<Rightarrow> Inl KeyError
            | Some ch \<Rightarrow> arrive_loop gr c ch (AList.update c (direct c ch) ca)) = Inr cb"
    using cb by (simp add: arrive_def)
  have x: "x \<in> cached cb" using keys_mono [OF cb] "2.prems"(2) by auto
  have "entry cb x = entry ca x"
  proof (cases "c \<in> fst ` set ca")
    case True
    with cb show ?thesis by (simp add: arrive_def)
  next
    case False
    then obtain ch where ch: "map_of gr c = Some ch"
      "arrive_loop gr c ch (AList.update c (direct c ch) ca) = Inr cb"
      using cb by (auto simp: arrive_def split: option.splits)
    have "x \<noteq> c" using False "2.prems"(2) by (auto simp: cached_def)
    with "2.IH"(1) [OF False ch] "2.prems"(2) show ?thesis by simp
  qed
  moreover have "entry ca' x = entry (merge_child g c cb) x"
    using "2.IH"(2) [OF cb' rest] x "2.prems"(3) by simp
  ultimately show ?case using "2.prems"(3) by (simp add: merge_child_def)
qed simp

lemma done_ok_loop:
  assumes d: "done_ok S g ds ca" and run: "arrive_loop gr g cs ca = Inr ca'"
    and g: "g \<in> S" "\<forall>c \<in> set cs. (g, c) \<in> drops gr"
  shows "done_ok S g ds ca'"
proof -
  note mono = keys_loop_mono [OF run g(2)]
  have stable: "keys ca' c = keys ca c" if "c \<in> cached ca - S" for c
  proof -
    have "entry ca' c = entry ca c" using entry_stable_loop [OF run, of c] that g(1) by blast
    then show ?thesis by (simp add: keys_def)
  qed
  consider "self_drop ca" | "keys ca g \<inter> S \<noteq> {}"
    | "\<forall>c \<in> set ds. c \<in> cached ca - S \<and> insert c (keys ca c) \<subseteq> keys ca g"
    using d by (auto simp: done_ok_def)
  then show ?thesis
  proof cases
    case 1
    then show ?thesis using self_drop_mono [of ca ca'] mono by (auto simp: done_ok_def)
  next
    case 2
    then show ?thesis using mono by (auto simp: done_ok_def)
  next
    case 3
    have "c \<in> cached ca' - S \<and> insert c (keys ca' c) \<subseteq> keys ca' g" if "c \<in> set ds" for c
      using 3 that mono [of g] stable [of c] by auto
    then show ?thesis by (auto simp: done_ok_def)
  qed
qed

lemma done_ok_Cons: "done_ok S g [c] ca \<Longrightarrow> done_ok S g cs ca \<Longrightarrow> done_ok S g (c # cs) ca"
  by (auto simp: done_ok_def)

lemma walk_loop:
  "arrive_loop gr g cs ca = Inr ca' \<Longrightarrow> g \<in> S \<Longrightarrow> S \<subseteq> cached ca \<Longrightarrow>
   \<forall>c \<in> set cs. (g, c) \<in> drops gr \<and> c \<in> keys ca g \<Longrightarrow> walk_ok gr S g ca \<Longrightarrow>
   walk_ok gr S g ca' \<and> done_ok S g cs ca'"
proof (induction gr g cs ca arbitrary: ca' S rule: arrive_loop.induct)
  case (1 gr g ca)
  then show ?case by (simp add: done_ok_def)
next
  case (2 gr g c cs ca)
  from "2.prems"(1) obtain cb where cb: "arrive gr c ca = Inr cb"
    and rest: "arrive_loop gr g cs (merge_child g c cb) = Inr ca'"
    by (auto simp: rbind_eq_Inr)
  have cb': "(if c \<in> fst ` set ca then Inr ca
            else case map_of gr c of
              None \<Rightarrow> Inl KeyError
            | Some ch \<Rightarrow> arrive_loop gr c ch (AList.update c (direct c ch) ca)) = Inr cb"
    using cb by (simp add: arrive_def)
  note S = "2.prems"(2,3)
  have edge: "(g, c) \<in> drops gr" "c \<in> keys ca g" using "2.prems"(4) by auto
  let ?cc = "merge_child g c cb"
  have here: "walk_ok gr S g ?cc \<and> done_ok S g [c] ?cc"
  proof (rule visit_child [OF cb S edge "2.prems"(5)])
    fix ch
    assume ch: "map_of gr c = Some ch" and fresh: "c \<notin> cached ca"
      and ok: "walk_ok gr (insert c S) c (AList.update c (direct c ch) ca)"
    have f: "c \<notin> fst ` set ca" using fresh by (simp add: cached_def)
    have "arrive_loop gr c ch (AList.update c (direct c ch) ca) = Inr cb"
      using cb f ch by (simp add: arrive_def)
    from "2.IH"(1) [OF f ch this, of "insert c S"] S ch ok
    show "walk_ok gr (insert c S) c cb \<and> done_ok (insert c S) c ch cb"
      by (auto simp: drops_def)
  qed
  have "S \<subseteq> cached ?cc" using S keys_mono [OF cb] by auto
  moreover have "\<forall>d \<in> set cs. (g, d) \<in> drops gr \<and> d \<in> keys ?cc g"
    using "2.prems"(4) keys_mono [OF cb, of g] by auto
  ultimately have "walk_ok gr S g ca' \<and> done_ok S g cs ca'"
    using "2.IH"(2) [OF cb' rest S(1)] here by blast
  moreover have "done_ok S g [c] ca'"
    using done_ok_loop [OF _ rest S(1)] here "2.prems"(4) by auto
  ultimately show ?case by (simp add: done_ok_Cons)
qed

lemma arrive_closed:
  assumes run: "arrive gr g ca = Inr ca'" and ok: "self_drop ca \<or> closed_on gr ca (cached ca)"
  shows "self_drop ca' \<or> closed_on gr ca' (cached ca')"
proof (cases "g \<in> cached ca")
  case True
  then show ?thesis using run ok by (simp add: arrive_def cached_def)
next
  case False
  then obtain ch where ch: "map_of gr g = Some ch"
    "arrive_loop gr g ch (AList.update g (direct g ch) ca) = Inr ca'"
    using run by (auto simp: arrive_def cached_def split: option.splits)
  let ?c0 = "AList.update g (direct g ch) ca"
  have "self_drop ca \<Longrightarrow> self_drop ?c0" using False keys_uncached [OF False]
    by (auto simp: self_drop_def)
  moreover have "closed_on gr ca (cached ca) \<Longrightarrow> closed_on gr ?c0 (cached ca)"
    using False by (rule closed_update_off [rotated])
  moreover have "insert g (cached ca) - {g} = cached ca" using False by auto
  ultimately have "walk_ok gr {g} g ?c0" using ok by (auto simp: walk_ok_def)
  then have w: "walk_ok gr {g} g ca'" and d: "done_ok {g} g ch ca'"
    using walk_loop [OF ch(2), of "{g}"] ch(1) by (auto simp: drops_def)
  show ?thesis
  proof (cases "self_drop ca'")
    case no: False
    then have "g \<notin> keys ca' g" by (auto simp: self_drop_def)
    with no w d have cl: "closed_on gr ca' (cached ca' - {g})"
      and kids: "\<forall>v \<in> set ch. v \<in> cached ca' - {g} \<and> insert v (keys ca' v) \<subseteq> keys ca' g"
      by (auto simp: walk_ok_def done_ok_def)
    have "cached ca' = insert g (cached ca' - {g})" using arrive_cached [OF run] by auto
    moreover have "closed_on gr ca' (insert g (cached ca' - {g}))"
      using cl ch(1) kids by (rule closed_insert)
    ultimately show ?thesis by simp
  qed simp
qed

lemma arrive_all_closed:
  assumes "arrive_all gr = Inr ca"
  shows "self_drop ca \<or> closed_on gr ca (cached ca)"
proof (rule foldR_invariant [where P = "\<lambda>u. self_drop u \<or> closed_on gr u (cached u)",
      OF assms [unfolded arrive_all_def]])
  show "self_drop [] \<or> closed_on gr [] (cached [])" by (simp add: closed_on_def cached_def)
qed (rule arrive_closed)

lemma closed_reach:
  assumes "closed_on gr ca F" and "(u, w) \<in> (drops gr)\<^sup>+" and "u \<in> F"
  shows "w \<in> keys ca u"
  using assms(2,3)
proof (induction rule: converse_trancl_induct)
  case (base u)
  then show ?case using assms(1) by (auto simp: closed_on_def)
next
  case (step u v)
  then show ?case using assms(1) by (auto simp: closed_on_def)
qed

lemma path_reach: "path_ok gr g k p \<Longrightarrow> (g, k) \<in> (drops gr)\<^sup>+"
  by (induction p arbitrary: g) (auto intro: trancl_into_trancl2)

lemma self_drop_cycle: "sound gr ca \<Longrightarrow> self_drop ca \<Longrightarrow> \<not> acyclic (drops gr)"
proof -
  assume "sound gr ca" "self_drop ca"
  then obtain g p where "(g, p) \<in> set (entry ca g)" by (auto simp: self_drop_def keys_def)
  then have "path_ok gr g g p" using \<open>sound gr ca\<close> by (simp add: sound_def)
  then show ?thesis using path_reach unfolding acyclic_def by blast
qed

subsection \<open>Dangling references\<close>

definition dangling :: "graph \<Rightarrow> bool" where
  "dangling gr \<longleftrightarrow> (\<exists>g c. (g, c) \<in> drops gr \<and> c \<notin> fst ` set gr)"

lemma arrive_loop_total:
  "\<not> dangling gr \<Longrightarrow> \<forall>c \<in> set cs. (g, c) \<in> drops gr \<Longrightarrow> \<exists>ca'. arrive_loop gr g cs ca = Inr ca'"
proof (induction gr g cs ca rule: arrive_loop.induct)
  case (2 gr g c cs ca)
  have "\<exists>cb. arrive gr c ca = Inr cb"
  proof (cases "c \<in> fst ` set ca")
    case True
    then show ?thesis by (simp add: arrive_def)
  next
    case False
    have "c \<in> fst ` set gr" using "2.prems" by (auto simp: dangling_def)
    then obtain ch where ch: "map_of gr c = Some ch"
      by (metis domD dom_map_of_conv_image_fst)
    then have "\<forall>d \<in> set ch. (c, d) \<in> drops gr" by (auto simp: drops_def)
    with "2.IH"(1) [OF False ch "2.prems"(1)] ch False show ?thesis by (auto simp: arrive_def)
  qed
  then obtain cb where cb: "arrive gr c ca = Inr cb" ..
  then have "(if c \<in> fst ` set ca then Inr ca
            else case map_of gr c of
              None \<Rightarrow> Inl KeyError
            | Some ch \<Rightarrow> arrive_loop gr c ch (AList.update c (direct c ch) ca)) = Inr cb"
    by (simp add: arrive_def)
  from "2.IH"(2) [OF this "2.prems"(1)] "2.prems"(2) cb show ?case by simp
qed simp

lemma arrive_total:
  assumes "\<not> dangling gr" and "g \<in> fst ` set gr"
  shows "\<exists>ca'. arrive gr g ca = Inr ca'"
proof -
  obtain ch where ch: "map_of gr g = Some ch" using assms(2) by (metis domD dom_map_of_conv_image_fst)
  then have "\<forall>d \<in> set ch. (g, d) \<in> drops gr" by (auto simp: drops_def)
  from arrive_loop_total [OF assms(1) this] ch show ?thesis by (auto simp: arrive_def)
qed

lemma arrive_all_total: "\<not> dangling gr \<Longrightarrow> \<exists>ca. arrive_all gr = Inr ca"
proof -
  assume d: "\<not> dangling gr"
  have "\<exists>ca. foldR (\<lambda>ca g. arrive gr g ca) u gs = Inr ca" if "set gs \<subseteq> fst ` set gr" for gs u
    using that
  proof (induction gs arbitrary: u)
    case (Cons g gs)
    then obtain v where "arrive gr g u = Inr v" using arrive_total [OF d, of g u] by auto
    with Cons show ?case by simp
  qed simp
  then show ?thesis by (simp add: arrive_all_def)
qed

text \<open>Conversely, the walk visits every child, so a dangling one raises.\<close>

definition kids_cached :: "graph \<Rightarrow> cache \<Rightarrow> hkey set \<Rightarrow> bool" where
  "kids_cached gr ca X \<longleftrightarrow> (\<forall>u \<in> cached ca - X. \<forall>v. (u, v) \<in> drops gr \<longrightarrow> v \<in> cached ca)"

lemma kids_update: "kids_cached gr ca X \<Longrightarrow> kids_cached gr (AList.update c d ca) (insert c X)"
  unfolding kids_cached_def cached_update by blast

lemma kids_insert:
  assumes "kids_cached gr ca (insert c X)" "map_of gr c = Some ch" "set ch \<subseteq> cached ca"
  shows "kids_cached gr ca X"
  unfolding kids_cached_def
proof (intro ballI allI impI)
  fix u v
  assume u: "u \<in> cached ca - X" and e: "(u, v) \<in> drops gr"
  show "v \<in> cached ca"
  proof (cases "u = c")
    case True
    then show ?thesis using e assms(2,3) by (auto simp: drops_def)
  next
    case False
    then show ?thesis using assms(1) u e unfolding kids_cached_def by blast
  qed
qed

lemma kids_loop:
  "arrive_loop gr g cs ca = Inr ca' \<Longrightarrow> kids_cached gr ca X \<Longrightarrow> g \<in> X \<Longrightarrow> g \<in> cached ca \<Longrightarrow>
   \<forall>c \<in> set cs. (g, c) \<in> drops gr \<Longrightarrow> kids_cached gr ca' X \<and> set cs \<subseteq> cached ca'"
proof (induction gr g cs ca arbitrary: ca' X rule: arrive_loop.induct)
  case (2 gr g c cs ca)
  from "2.prems"(1) obtain cb where cb: "arrive gr c ca = Inr cb"
    and rest: "arrive_loop gr g cs (merge_child g c cb) = Inr ca'"
    by (auto simp: rbind_eq_Inr)
  have cb': "(if c \<in> fst ` set ca then Inr ca
            else case map_of gr c of
              None \<Rightarrow> Inl KeyError
            | Some ch \<Rightarrow> arrive_loop gr c ch (AList.update c (direct c ch) ca)) = Inr cb"
    using cb by (simp add: arrive_def)
  have mono: "cached ca \<subseteq> cached cb" using keys_mono [OF cb] by blast
  have "kids_cached gr cb X"
  proof (cases "c \<in> fst ` set ca")
    case True
    then show ?thesis using cb "2.prems"(2) by (simp add: arrive_def)
  next
    case False
    then obtain ch where ch: "map_of gr c = Some ch"
      "arrive_loop gr c ch (AList.update c (direct c ch) ca) = Inr cb"
      using cb by (auto simp: arrive_def split: option.splits)
    have "kids_cached gr (AList.update c (direct c ch) ca) (insert c X)"
      using "2.prems"(2) by (rule kids_update)
    from "2.IH"(1) [OF False ch this] ch(1)
    have "kids_cached gr cb (insert c X) \<and> set ch \<subseteq> cached cb" by (auto simp: drops_def)
    then show ?thesis using kids_insert ch(1) by blast
  qed
  then have "kids_cached gr (merge_child g c cb) X"
    using "2.prems"(4) mono by (simp add: kids_cached_def insert_absorb subset_iff)
  from "2.IH"(2) [OF cb' rest this] "2.prems"(3-5)
  have "kids_cached gr ca' X \<and> set cs \<subseteq> cached ca'" by simp
  moreover have "c \<in> cached ca'"
    using arrive_cached [OF cb] keys_loop_mono [OF rest] "2.prems"(5) by auto
  ultimately show ?case by simp
qed simp

lemma arrive_kids: "arrive gr g ca = Inr ca' \<Longrightarrow> kids_cached gr ca {} \<Longrightarrow> kids_cached gr ca' {}"
proof (cases "g \<in> cached ca")
  case False
  assume run: "arrive gr g ca = Inr ca'" and k: "kids_cached gr ca {}"
  then obtain ch where ch: "map_of gr g = Some ch"
    "arrive_loop gr g ch (AList.update g (direct g ch) ca) = Inr ca'"
    using False by (auto simp: arrive_def cached_def split: option.splits)
  have "kids_cached gr (AList.update g (direct g ch) ca) {g}"
    using k by (rule kids_update)
  from kids_loop [OF ch(2) this] ch(1)
  have "kids_cached gr ca' {g} \<and> set ch \<subseteq> cached ca'" by (auto simp: drops_def)
  then show ?thesis using kids_insert ch(1) by blast
qed (auto simp: arrive_def cached_def)

lemma foldR_arrive_cached:
  "foldR (\<lambda>ca g. arrive gr g ca) u gs = Inr ca \<Longrightarrow> set gs \<union> cached u \<subseteq> cached ca"
proof (induction gs arbitrary: u)
  case (Cons g gs)
  then obtain v where v: "arrive gr g u = Inr v" "foldR (\<lambda>ca g. arrive gr g ca) v gs = Inr ca"
    by (auto simp: rbind_eq_Inr)
  then show ?case using Cons.IH [OF v(2)] arrive_cached [OF v(1)] keys_mono [OF v(1)] by fastforce
qed simp

lemma arrive_all_dangling: "arrive_all gr = Inr ca \<Longrightarrow> \<not> dangling gr"
proof -
  assume run: "arrive_all gr = Inr ca"
  have "cached ca \<subseteq> fst ` set gr"
    by (rule arrive_all_invariant [OF run, of "\<lambda>u. cached u \<subseteq> fst ` set gr"])
       (force simp: cached_def drops_def dom_update merge_child_def dest: map_of_SomeD)+
  moreover have "kids_cached gr ca {}"
  proof (rule foldR_invariant [where P = "\<lambda>u. kids_cached gr u {}", OF run [unfolded arrive_all_def]])
    show "kids_cached gr [] {}" by (simp add: kids_cached_def cached_def)
  qed (rule arrive_kids)
  moreover have "fst ` set gr \<subseteq> cached ca"
    using foldR_arrive_cached [OF run [unfolded arrive_all_def]] by simp
  moreover have "g \<in> fst ` set gr" if "(g, c) \<in> drops gr" for g c
    using that by (force simp: drops_def dest: map_of_SomeD)
  ultimately have "c \<in> fst ` set gr" if "(g, c) \<in> drops gr" for g c
    using that unfolding kids_cached_def by (metis Diff_empty subsetD)
  then show ?thesis unfolding dangling_def by blast
qed

lemma arrive_loop_Inl: "arrive_loop gr g cs ca = Inl e \<Longrightarrow> e = KeyError"
proof (induction gr g cs ca rule: arrive_loop.induct)
  case (2 gr g c cs ca)
  show ?case
  proof (cases "arrive gr c ca")
    case (Inl e')
    then have "e' = KeyError"
      using "2.IH"(1) "2.prems" by (auto simp: arrive_def split: if_splits option.splits)
    with Inl "2.prems" show ?thesis by simp
  next
    case (Inr cb)
    then have "(if c \<in> fst ` set ca then Inr ca
            else case map_of gr c of
              None \<Rightarrow> Inl KeyError
            | Some ch \<Rightarrow> arrive_loop gr c ch (AList.update c (direct c ch) ca)) = Inr cb"
      by (simp add: arrive_def)
    with "2.IH"(2) "2.prems" Inr show ?thesis by simp
  qed
qed simp

lemma arrive_all_Inl: "arrive_all gr = Inl e \<Longrightarrow> e = KeyError"
proof -
  have one: "arrive gr g u = Inl e \<Longrightarrow> e = KeyError" for g u
    by (auto simp: arrive_def dest: arrive_loop_Inl split: if_splits option.splits)
  have "foldR (\<lambda>ca g. arrive gr g ca) u gs = Inl e \<Longrightarrow> e = KeyError" for gs u
    by (induction gs arbitrary: u) (auto simp: rbind_eq_Inl dest: one)
  then show "arrive_all gr = Inl e \<Longrightarrow> ?thesis" by (auto simp: arrive_all_def)
qed

subsection \<open>\<open>check_drop_data\<close>\<close>

fun truthy :: "val \<Rightarrow> bool" where
  "truthy (VBool b) = b"
| "truthy (VInt i) = (i \<noteq> 0)"
| "truthy (VFloat x) = (x \<noteq> 0)"
| "truthy (VStr s) = (s \<noteq> [])"
| "truthy (VList vs) = (vs \<noteq> [])"

text \<open>\<open>child["drop_group"]\<close> of the rows that have one.\<close>

definition drop_child :: "row \<Rightarrow> val list" where
  "drop_child r =
     (case map_of r ''drop_group'' of
        None \<Rightarrow> []
      | Some v \<Rightarrow> if truthy v then [v] else [])"

text \<open>The grouping loop: per group id the rows, and the name of the first row.\<close>

definition group_step ::
  "(hkey \<times> row list) list \<times> (hkey \<times> val) list \<Rightarrow> row \<Rightarrow>
   ((hkey \<times> row list) list \<times> (hkey \<times> val) list) res"
where
  "group_step s r =
     (case s of (grouped, names) \<Rightarrow>
       rbind (dict_get r ''group_id'') (\<lambda>v. rbind (hash_key v) (\<lambda>g.
         case map_of grouped g of
           None \<Rightarrow> rbind (dict_get r ''ch_key'') (\<lambda>n.
             Inr (AList.update g [r] grouped, AList.update g n names))
         | Some rs \<Rightarrow> Inr (AList.update g (rs @ [r]) grouped, names))))"

definition group_children :: "(hkey \<times> row list) list \<Rightarrow> graph res" where
  "group_children grouped =
     map_vals (\<lambda>rs. mapR hash_key (concat (map drop_child rs))) grouped"

fun expand_path :: "path \<Rightarrow> hkey list" where
  "expand_path (Hop a b) = [a, b]"
| "expand_path (Via a p) = a # expand_path p"

text \<open>The final loop: the first cached group that reaches itself, with its path.\<close>

definition find_cycle :: "cache \<Rightarrow> path option" where
  "find_cycle ca =
     (case List.find (\<lambda>(g, d). g \<in> fst ` set d) ca of
        None \<Rightarrow> None
      | Some (g, d) \<Rightarrow> map_of d g)"

text \<open>The message text before the names, in UTF-8.\<close>

definition CYCLE_TEXT :: str where
  "CYCLE_TEXT = map char_of [0xe6::nat, 0x8e, 0x89, 0xe8, 0x90, 0xbd, 0xe7, 0xbb, 0x84, 0xe5, 0xbe,
     0xaa, 0xe7, 0x8e, 0xaf, 0xe5, 0xbc, 0x95, 0xe7, 0x94, 0xa8, 0x3a]"

definition name_text :: "val \<Rightarrow> str res" where
  "name_text v = (case v of VStr s \<Rightarrow> Inr s | _ \<Rightarrow> Inl TypeError)"

definition report_cycle :: "(hkey \<times> val) list \<Rightarrow> path \<Rightarrow> unit res" where
  "report_cycle names p =
     rbind (mapR (\<lambda>x. rbind (dict_get names x) name_text) (expand_path p))
       (\<lambda>ns. Inl (RuntimeError (CYCLE_TEXT @ join '' >> '' ns)))"

definition drop_graph :: "tables \<Rightarrow> (graph \<times> (hkey \<times> val) list) res" where
  "drop_graph tabs =
     rbind (dict_get tabs ''DropGroupData'') (\<lambda>t.
     rbind (foldR group_step ([], []) (map snd (config_dict t))) (\<lambda>(grouped, names).
     rbind (group_children grouped) (\<lambda>gr. Inr (gr, names))))"

definition check_drop_data :: "tables \<Rightarrow> unit res" where
  "check_drop_data tabs =
     rbind (drop_graph tabs) (\<lambda>(gr, names).
     rbind (arrive_all gr) (\<lambda>ca.
       case find_cycle ca of None \<Rightarrow> Inr () | Some p \<Rightarrow> report_cycle names p))"

lemma keys_iff: "k \<in> keys ca g \<longleftrightarrow> (\<exists>d. map_of ca g = Some d \<and> k \<in> fst ` set d)"
  by (cases "map_of ca g") (simp_all add: keys_def entry_def)

lemma find_cycle_None: "dict_ok ca \<Longrightarrow> find_cycle ca = None \<longleftrightarrow> \<not> self_drop ca"
proof -
  assume ok: "dict_ok ca"
  have "List.find (\<lambda>(g, d). g \<in> fst ` set d) ca = None \<longleftrightarrow> (\<forall>(g, d) \<in> set ca. g \<notin> fst ` set d)"
    by (auto simp: find_None_iff)
  also have "\<dots> \<longleftrightarrow> \<not> self_drop ca"
    unfolding self_drop_def keys_iff dict_ok_mem [OF ok, symmetric] by fast
  finally have "List.find (\<lambda>(g, d). g \<in> fst ` set d) ca = None \<longleftrightarrow> \<not> self_drop ca" .
  moreover have "find_cycle ca = None \<longleftrightarrow> List.find (\<lambda>(g, d). g \<in> fst ` set d) ca = None"
  proof (cases "List.find (\<lambda>(g, d). g \<in> fst ` set d) ca")
    case (Some gd)
    then have "fst gd \<in> fst ` set (snd gd)" by (auto simp: find_Some_iff case_prod_beta)
    then have "map_of (snd gd) (fst gd) \<noteq> None" by (simp only: map_of_eq_None_iff) simp
    then show ?thesis using Some by (cases gd) (simp add: find_cycle_def)
  qed (simp add: find_cycle_def)
  ultimately show ?thesis by simp
qed

lemma find_cycle_Some:
  assumes "dict_ok ca" and "find_cycle ca = Some p"
  shows "\<exists>g. (g, p) \<in> set (entry ca g)"
proof -
  obtain g d where gd: "List.find (\<lambda>(g, d). g \<in> fst ` set d) ca = Some (g, d)" "map_of d g = Some p"
    using assms(2) by (auto simp: find_cycle_def split: option.splits)
  then have "(g, d) \<in> set ca" by (metis find_Some_iff nth_mem)
  then have "entry ca g = d" using dict_ok_mem [OF assms(1)] by (simp add: entry_def)
  then show ?thesis using map_of_SomeD [OF gd(2)] by blast
qed

lemma arrive_all_dict_ok: "arrive_all gr = Inr ca \<Longrightarrow> dict_ok ca"
  by (erule arrive_all_invariant) (auto simp: merge_child_def)

lemma self_drop_iff:
  assumes ca: "arrive_all gr = Inr ca"
  shows "self_drop ca \<longleftrightarrow> \<not> acyclic (drops gr)"
proof
  show "self_drop ca \<Longrightarrow> \<not> acyclic (drops gr)"
    using self_drop_cycle [OF arrive_all_sound [OF ca]] .
  assume "\<not> acyclic (drops gr)"
  then obtain g where g: "(g, g) \<in> (drops gr)\<^sup>+" by (auto simp: acyclic_def)
  then obtain c where "(g, c) \<in> drops gr" by (meson tranclD)
  then have "g \<in> fst ` set gr" by (force simp: drops_def dest: map_of_SomeD)
  then have "g \<in> cached ca"
    using foldR_arrive_cached [OF ca [unfolded arrive_all_def]] by auto
  then show "self_drop ca"
    using arrive_all_closed [OF ca] closed_reach [OF _ g] by (auto simp: self_drop_def)
qed

lemma check_drop_data_acyclic:
  assumes "drop_graph tabs = Inr (gr, names)"
  shows "(check_drop_data tabs = Inr () \<longleftrightarrow> \<not> dangling gr \<and> acyclic (drops gr))
    \<and> (dangling gr \<longrightarrow> check_drop_data tabs = Inl KeyError)"
proof (cases "dangling gr")
  case True
  then obtain e where "arrive_all gr = Inl e"
    using arrive_all_dangling by (cases "arrive_all gr") auto
  then show ?thesis using assms True arrive_all_Inl by (auto simp: check_drop_data_def)
next
  case False
  then obtain ca where ca: "arrive_all gr = Inr ca" using arrive_all_total by blast
  have "report_cycle names p \<noteq> Inr ()" for p
    by (cases "mapR (\<lambda>x. rbind (dict_get names x) name_text) (expand_path p)")
       (auto simp: report_cycle_def)
  then have "check_drop_data tabs = Inr () \<longleftrightarrow> find_cycle ca = None"
    using assms ca by (auto simp: check_drop_data_def split: option.splits)
  then show ?thesis
    using False find_cycle_None [OF arrive_all_dict_ok [OF ca]] self_drop_iff [OF ca] by auto
qed

text \<open>
  C1. The drop tables are accepted exactly when every group a row drops exists and no group can
  drop itself, however many groups lie between. A missing group raises \<open>KeyError\<close>. The order in
  which Python's dicts list groups and rows does not matter: the table is any list of rows.
\<close>

theorem check_drop_data_iff:
  assumes "drop_graph tabs = Inr (gr, names)"
  shows "(check_drop_data tabs = Inr () \<longleftrightarrow> \<not> dangling gr \<and> acyclic (drops gr))
    \<and> (dangling gr \<longrightarrow> check_drop_data tabs = Inl KeyError)"
  by (rule check_drop_data_acyclic [OF assms])

definition sample_drop :: "(int \<times> int) list \<Rightarrow> tables" where
  "sample_drop es = [(''DropGroupData'', (new_table ''DropGroupData'')\<lparr>config_dict :=
     map (\<lambda>(i, g, d). (HNum (of_nat i), [(''group_id'', VInt g), (''ch_key'', VStr (int_str g)),
       (''drop_group'', VInt d)])) (enumerate 0 es)\<rparr>)]"

theorem check_drop_data_iff_witness:
  "\<exists>gr names. drop_graph (sample_drop [(1, 2), (2, 3), (3, 0)]) = Inr (gr, names)
     \<and> \<not> dangling gr \<and> acyclic (drops gr)"
proof -
  let ?t = "sample_drop [(1, 2), (2, 3), (3, 0)]"
  obtain gr names where g: "drop_graph ?t = Inr (gr, names)"
    by (simp add: sample_drop_def drop_graph_def dict_get_def new_table_def enumerate_eq_zip
        group_step_def group_children_def map_vals_def drop_child_def)
  have "check_drop_data ?t = Inr ()" by code_simp
  with check_drop_data_iff [OF g] g show ?thesis by blast
qed

fun chain :: "graph \<Rightarrow> hkey list \<Rightarrow> bool" where
  "chain gr (a # b # xs) \<longleftrightarrow> (a, b) \<in> drops gr \<and> chain gr (b # xs)"
| "chain gr _ \<longleftrightarrow> True"

lemma expand_path_chain:
  "path_ok gr g k p \<Longrightarrow> chain gr (expand_path p) \<and> hd (expand_path p) = g \<and> last (expand_path p) = k
     \<and> 2 \<le> length (expand_path p)"
proof (induction p arbitrary: g)
  case (Via a p)
  then obtain c where c: "(a, c) \<in> drops gr" "path_ok gr c k p" "a = g" by auto
  from Via.IH [OF c(2)] obtain xs where "expand_path p = c # xs"
    by (cases "expand_path p") auto
  with Via.IH [OF c(2)] c show ?case by auto
qed auto

text \<open>
  C6. The error the tool prints names a real cycle: the groups listed start and end with the
  same group and each drops the next one.
\<close>

theorem check_drop_data_path:
  assumes g: "drop_graph tabs = Inr (gr, names)" and e: "check_drop_data tabs = Inl (RuntimeError m)"
  shows "\<exists>xs ns. 2 \<le> length xs \<and> hd xs = last xs \<and> chain gr xs \<and>
    mapR (\<lambda>x. rbind (dict_get names x) name_text) xs = Inr ns \<and> m = CYCLE_TEXT @ join '' >> '' ns"
proof -
  obtain ca where ca: "arrive_all gr = Inr ca"
    using g e arrive_all_Inl by (cases "arrive_all gr") (auto simp: check_drop_data_def)
  then obtain p where p: "find_cycle ca = Some p" and r: "report_cycle names p = Inl (RuntimeError m)"
    using g e by (auto simp: check_drop_data_def split: option.splits)
  obtain a where "path_ok gr a a p"
    using find_cycle_Some [OF arrive_all_dict_ok [OF ca] p] arrive_all_sound [OF ca]
    by (auto simp: sound_def)
  note c = expand_path_chain [OF this]
  have ne: "dict_get names x \<noteq> Inl (RuntimeError m)" "name_text v \<noteq> Inl (RuntimeError m)" for x v
    by (auto simp: dict_get_def of_option_def name_text_def split: option.splits val.splits)
  have "mapR (\<lambda>x. rbind (dict_get names x) name_text) xs \<noteq> Inl (RuntimeError m)" for xs
    using ne by (induction xs) (auto simp: rbind_eq_Inl)
  with r obtain ns where "mapR (\<lambda>x. rbind (dict_get names x) name_text) (expand_path p) = Inr ns"
    "m = CYCLE_TEXT @ join '' >> '' ns"
    by (auto simp: report_cycle_def rbind_eq_Inl)
  with c show ?thesis by metis
qed

theorem check_drop_data_path_witness:
  "\<exists>gr names m xs. drop_graph (sample_drop [(1, 2), (2, 1)]) = Inr (gr, names)
     \<and> check_drop_data (sample_drop [(1, 2), (2, 1)]) = Inl (RuntimeError m)
     \<and> 2 \<le> length xs \<and> hd xs = last xs \<and> chain gr xs"
proof -
  let ?t = "sample_drop [(1, 2), (2, 1)]"
  obtain gr names where g: "drop_graph ?t = Inr (gr, names)"
    by (simp add: sample_drop_def drop_graph_def dict_get_def new_table_def enumerate_eq_zip
        group_step_def group_children_def map_vals_def drop_child_def)
  have e: "check_drop_data ?t = Inl (RuntimeError (CYCLE_TEXT @ ''1 >> 2 >> 1''))" by code_simp
  from check_drop_data_path [OF g e] g e show ?thesis by blast
qed

subsection \<open>\<open>check_group_name\<close>\<close>

text \<open>\<open>group_id != name_dict[name]\<close>: numbers compare by value, other values structurally.\<close>

definition py_eq :: "val \<Rightarrow> val \<Rightarrow> bool" where
  "py_eq v w = (case (hash_key v, hash_key w) of (Inr a, Inr b) \<Rightarrow> a = b | _ \<Rightarrow> v = w)"

definition group_name_step :: "(hkey \<times> val) list \<Rightarrow> row \<Rightarrow> (hkey \<times> val) list res" where
  "group_name_step names r =
     rbind (dict_get r ''group_id'') (\<lambda>g. rbind (dict_get r ''ch_key'') (\<lambda>n.
       rbind (hash_key n) (\<lambda>k.
         case map_of names k of
           None \<Rightarrow> Inr (AList.update k g names)
         | Some g' \<Rightarrow> if py_eq g g' then Inr names else check_failed)))"

definition check_group_name :: "tables \<Rightarrow> str \<Rightarrow> unit res" where
  "check_group_name tabs tn =
     rbind (dict_get tabs tn) (\<lambda>t.
       rbind (foldR group_name_step [] (map snd (config_dict t))) (\<lambda>_. Inr ()))"

lemma py_eq_refl [simp]: "py_eq v v"
  by (cases "hash_key v") (auto simp: py_eq_def)

lemma py_eq_sym: "py_eq v w \<Longrightarrow> py_eq w v"
  by (auto simp: py_eq_def split: sum.splits)

lemma py_eq_trans: "py_eq u v \<Longrightarrow> py_eq v w \<Longrightarrow> py_eq u w"
  by (cases u; cases v; cases w) (auto simp: py_eq_def)

definition row_names :: "row \<Rightarrow> hkey \<Rightarrow> val \<Rightarrow> bool" where
  "row_names r k g \<longleftrightarrow> map_of r ''group_id'' = Some g \<and>
     (\<exists>n. map_of r ''ch_key'' = Some n \<and> hash_key n = Inr k)"

lemma group_name_step_Inr:
  "group_name_step names r = Inr names' \<Longrightarrow>
   \<exists>k g g'. row_names r k g \<and> map_of names' k = Some g' \<and> py_eq g g' \<and> map_of names \<subseteq>\<^sub>m map_of names'"
  by (fastforce simp: group_name_step_def row_names_def res_simps map_le_def split: option.splits if_splits)

lemma foldR_group_names:
  "foldR group_name_step names rs = Inr names' \<Longrightarrow>
   map_of names \<subseteq>\<^sub>m map_of names' \<and>
   (\<forall>r \<in> set rs. \<exists>k g g'. row_names r k g \<and> map_of names' k = Some g' \<and> py_eq g g')"
proof (induction rs arbitrary: names)
  case (Cons r rs)
  then obtain nb where nb: "group_name_step names r = Inr nb" "foldR group_name_step nb rs = Inr names'"
    by (auto simp: rbind_eq_Inr)
  obtain k g g' where r: "row_names r k g" "map_of nb k = Some g'" "py_eq g g'" "map_of names \<subseteq>\<^sub>m map_of nb"
    using group_name_step_Inr [OF nb(1)] by blast
  note IH = Cons.IH [OF nb(2)]
  then have "map_of names' k = Some g'" using r(2) by (metis domI map_le_def)
  then show ?case using IH r map_le_trans by auto
qed simp

text \<open>
  If the group names of a drop table are accepted, then two rows with the same Chinese name
  always belong to the same group.
\<close>

theorem check_group_name_functional:
  assumes "check_group_name tabs tn = Inr ()" and "map_of tabs tn = Some t"
    and "r1 \<in> set (map snd (config_dict t))" "row_names r1 k g1"
    and "r2 \<in> set (map snd (config_dict t))" "row_names r2 k g2"
  shows "py_eq g1 g2"
proof -
  obtain names where "foldR group_name_step [] (map snd (config_dict t)) = Inr names"
    using assms(1,2) by (auto simp: check_group_name_def dict_get_def rbind_eq_Inr)
  note all = foldR_group_names [OF this]
  have "\<exists>g'. map_of names k = Some g' \<and> py_eq g g'"
    if "r \<in> set (map snd (config_dict t))" "row_names r k g" for r g
    using all that by (fastforce simp: row_names_def)
  from this [OF assms(3,4)] this [OF assms(5,6)] show ?thesis
    by (metis option.inject py_eq_sym py_eq_trans)
qed

theorem check_group_name_functional_witness:
  "check_group_name (sample_drop [(1, 2), (2, 3), (1, 0)]) ''DropGroupData'' = Inr () \<and> py_eq (VInt 1) (VInt 1)"
proof -
  let ?tabs = "sample_drop [(1, 2), (2, 3), (1, 0)]"
  obtain t where t: "map_of ?tabs ''DropGroupData'' = Some t" "config_dict t =
      [(HNum 0, [(''group_id'', VInt 1), (''ch_key'', VStr (int_str 1)), (''drop_group'', VInt 2)]),
       (HNum 1, [(''group_id'', VInt 2), (''ch_key'', VStr (int_str 2)), (''drop_group'', VInt 3)]),
       (HNum 2, [(''group_id'', VInt 1), (''ch_key'', VStr (int_str 1)), (''drop_group'', VInt 0)])]"
    by (simp add: sample_drop_def new_table_def enumerate_eq_zip numeral_2_eq_2)
  have run: "check_group_name ?tabs ''DropGroupData'' = Inr ()"
    using t by (simp add: check_group_name_def dict_get_def group_name_step_def int_str_inj)
  from check_group_name_functional [OF run t(1), of _ "HStr (int_str 1)" "VInt 1" _ "VInt 1"] run t(2)
  show ?thesis by (force simp: row_names_def)
qed

end
