(* ===== verification/Excel_Main.thy ===== *)
theory Excel_Main
  imports Excel_Lua Excel_Drop
begin

text \<open>
  The run of \<^verbatim>\<open>parse_xls.py\<close>: \<open>main\<close> collects the sheets of all spreadsheets by table name, parses
  every table, runs the checks and, if all pass, writes one Lua file per table and
  \<^verbatim>\<open>file_list.lua\<close>. The directory walk and the spreadsheet library hand in the sheets as a list
  of \<open>(file name, sheets)\<close>; the unicode test \<open>isalnum\<close> is a parameter.
\<close>

type_synonym book = "str \<times> sheet list"

definition col_index2name :: "nat \<Rightarrow> str res" where
  "col_index2name i =
     (let letter = (\<lambda>n. if n < 26 then Inr [char_of (65 + n)] else Inl IndexError) in
      if i < 26 then letter (i mod 26)
      else rbind (letter (i div 26 - 1)) (\<lambda>a. rbind (letter (i mod 26)) (\<lambda>b. Inr (a @ b))))"

definition excel_file :: "str \<Rightarrow> bool" where
  "excel_file fn \<longleftrightarrow> \<not> starts_with ''~'' fn \<and> (ends_with ''xls'' fn \<or> ends_with ''xlsx'' fn)"

text \<open>\<open>ALL_TABLE\<close> while it is filled: the sheets of each table name.\<close>

definition add_sheet ::
    "(str \<Rightarrow> bool) \<Rightarrow> (str \<times> (str \<times> sheet) list) list \<Rightarrow> str \<times> sheet \<Rightarrow> (str \<times> (str \<times> sheet) list) list res" where
  "add_sheet isalnum all s =
     (case s of (fn, sh) \<Rightarrow>
        if grid sh = [] \<or> starts_with ''#'' (sheet_name sh) then Inr all
        else rbind (sheet_cell sh 3 0) (\<lambda>cell.
          case cell of
            CText tn \<Rightarrow>
              if tn = [] then Inr all
              else if \<not> isalnum tn then check_failed
              else Inr (AList.update tn
                     ((case map_of all tn of None \<Rightarrow> [] | Some ss \<Rightarrow> ss) @ [(fn, sh)]) all)
          | _ \<Rightarrow> check_failed))"

definition collect_sheets :: "(str \<Rightarrow> bool) \<Rightarrow> book list \<Rightarrow> (str \<times> (str \<times> sheet) list) list res" where
  "collect_sheets isalnum books =
     foldR (add_sheet isalnum) []
       [(fn, sh). (fn, sheets) \<leftarrow> filter (excel_file \<circ> fst) books, sh \<leftarrow> sheets]"

definition parse_tables :: "(str \<times> (str \<times> sheet) list) list \<Rightarrow> tables res" where
  "parse_tables all =
     mapR (\<lambda>(tn, ss). rbind (parse_all_sheet (new_table tn) ss) (\<lambda>t. Inr (tn, t))) all"

definition check_tables :: "tables \<Rightarrow> tables res" where
  "check_tables tabs =
     rbind (run_checks tabs) (\<lambda>tabs'.
     rbind (foldR (\<lambda>_ tn. check_group_name tabs' tn) () GROUP_TABLE) (\<lambda>_.
     rbind (check_drop_data tabs') (\<lambda>_. Inr tabs')))"

definition exported :: "tables \<Rightarrow> table list" where
  "exported tabs = filter (\<lambda>t. \<not> no2lua t) (map snd tabs)"

definition table_file :: "table \<Rightarrow> str" where
  "table_file t = table_name t @ ''.lua''"

definition file_list_text :: "table list \<Rightarrow> str" where
  "file_list_text ts =
     ''return {'' @ NL
     @ concat (map (\<lambda>t. ''[ '' @ long_bracket (''../data/temp_lua_data/'' @ table_file t) @ '' ] = ''
         @ long_bracket (table_file t) @ '','' @ NL) ts)
     @ ''}'' @ NL"

definition write_tables :: "tables \<Rightarrow> (str \<times> str) list res" where
  "write_tables tabs =
     rbind (mapR (\<lambda>t. rbind (save_as_lua t) (\<lambda>txt. Inr (table_file t, txt))) (exported tabs)) (\<lambda>fs.
       Inr ([(n, txt). (n, Some txt) \<leftarrow> fs] @ [(''file_list.lua'', file_list_text (exported tabs))]))"

definition main_export :: "(str \<Rightarrow> bool) \<Rightarrow> book list \<Rightarrow> (str \<times> str) list res" where
  "main_export isalnum books =
     rbind (collect_sheets isalnum books) (\<lambda>all.
     rbind (parse_tables all) (\<lambda>tabs.
     rbind (check_tables tabs) write_tables))"

lemma parse_tables_ok:
  assumes "parse_tables all = Inr tabs"
  shows "tables_ok tabs"
  unfolding tables_ok_def
proof (intro allI impI)
  fix tn t
  assume "map_of tabs tn = Some t"
  then have "(tn, t) \<in> set tabs" by (rule map_of_SomeD)
  then obtain ss where "parse_all_sheet (new_table tn) ss = Inr t"
    using mapR_mem [OF assms [unfolded parse_tables_def], of "(tn, t)"]
    by (auto simp: rbind_eq_Inr split: prod.splits)
  then have "parsed_ok t" using parse_all_sheet_parsed by blast
  then show "table_ok t" by (simp add: parsed_ok_def)
qed


definition sample_group_sheet :: "str \<Rightarrow> sheet" where
  "sample_group_sheet tn = \<lparr>sheet_name = tn, grid =
     [[CEmpty, CEmpty, CEmpty, CEmpty], [CEmpty, CEmpty, CEmpty, CEmpty], [CEmpty, CEmpty, CEmpty, CEmpty],
      [CText tn, CText ''id'', CText ''group_id'', CText ''ch_key''],
      [CEmpty, CText ''int'', CText ''int'', CText ''string''],
      [CEmpty, CText ''key'', CEmpty, CEmpty],
      [CEmpty, CText ''1'', CText ''5'', CText ''gold'']]\<rparr>"

definition sample_books :: "book list" where
  "sample_books = [(''drop.xls'', [sample_group_sheet ''DropGroupData'', sample_group_sheet ''DropData'']),
     (''~drop.xls'', [sample_sheet])]"


text \<open>
  The files written are those of the exported tables that have a column, then
  \<open>file_list.lua\<close>, whose text lists every exported table: a table without columns is listed but has
  no file.
\<close>

theorem write_tables_names:
  assumes "write_tables tabs = Inr files"
  shows "map fst files =
      map table_file (filter (\<lambda>t. field_dict t \<noteq> []) (exported tabs)) @ [''file_list.lua'']
    \<and> map_of (rev files) ''file_list.lua'' = Some (file_list_text (exported tabs))"
proof -
  obtain fs where fs: "mapR (\<lambda>t. rbind (save_as_lua t) (\<lambda>txt. Inr (table_file t, txt))) (exported tabs) = Inr fs"
    "files = [(n, txt). (n, Some txt) \<leftarrow> fs] @ [(''file_list.lua'', file_list_text (exported tabs))]"
    using assms by (auto simp: write_tables_def rbind_eq_Inr)
  have empty: "save_as_lua t = Inr w \<Longrightarrow> w = None \<longleftrightarrow> field_dict t = []" for t w
    by (auto simp: save_as_lua_def Let_def rbind_eq_Inr split: if_splits)
  have "map fst [(n, txt). (n, Some txt) \<leftarrow> fs] = map table_file (filter (\<lambda>t. field_dict t \<noteq> []) ts)"
    if "mapR (\<lambda>t. rbind (save_as_lua t) (\<lambda>txt. Inr (table_file t, txt))) ts = Inr fs" for ts
    using that
  proof (induction ts arbitrary: fs)
    case (Cons t ts)
    then show ?case using empty [of t] by (auto simp: rbind_eq_Inr split: option.splits)
  qed simp
  with fs show ?thesis by simp
qed

lemma write_tables_names_witness:
  "\<exists>files. write_tables [(''Item'', sample_export [(HNum 1, [(''id'', VInt 1)])]), (''Empty'', new_table ''Empty'')]
       = Inr files \<and> map fst files = [''Item.lua'', ''file_list.lua'']"
proof -
  let ?tabs = "[(''Item'', sample_export [(HNum 1, [(''id'', VInt 1)])]), (''Empty'', new_table ''Empty'')]"
  have "\<not> isl (write_tables ?tabs)" by code_simp
  then obtain files where f: "write_tables ?tabs = Inr files" by (metis sum.collapse(2))
  have "map table_file (filter (\<lambda>t. field_dict t \<noteq> []) (exported ?tabs)) = [''Item.lua'']"
    by (simp add: exported_def sample_export_def new_table_def table_file_def)
  with write_tables_names [OF f] f show ?thesis by simp
qed

end
