(* ===== verification/Gm_Store.thy ===== *)
theory Gm_Store
  imports Py_String
begin

text \<open>
  The document store of the management server, class \<open>SimpleDbBase\<close> of \<^verbatim>\<open>gm_server/db.py\<close>:
  one MongoDB collection (\<open>docs\<close>) and the dict of live objects (\<open>cache\<close>), both keyed by the
  document's id. Reads go to the cache, writes to both. Ids come from MongoDB and are an argument of
  the operations. A call to MongoDB is a point where another request may run, so creating an object
  is two steps with the second check between them, as in the code.
\<close>

record 'a store =
  docs :: "(str \<times> 'a) list"
  cache :: "(str \<times> 'a) list"

definition empty_store :: "'a store" where
  "empty_store = \<lparr>docs = [], cache = []\<rparr>"

definition get_by_key :: "'a store \<Rightarrow> str \<Rightarrow> 'a option" where
  "get_by_key s k = map_of (cache s) k"

definition get_by_field :: "('a \<Rightarrow> str) \<Rightarrow> str \<Rightarrow> 'a store \<Rightarrow> 'a option" where
  "get_by_field f v s = List.find (\<lambda>x. f x = v) (map snd (cache s))"

definition get_all :: "'a store \<Rightarrow> 'a list" where
  "get_all s = map snd (cache s)"

text \<open>\<open>self.save()\<close> on a cached object whose attributes were assigned: \<open>x\<close> is its new state.\<close>

definition save :: "str \<Rightarrow> 'a \<Rightarrow> 'a store \<Rightarrow> 'a store" where
  "save k x s =
     \<lparr>docs = (if map_of (docs s) k = None then docs s else AList.update k x (docs s)),
      cache = (if map_of (cache s) k = None then cache s else AList.update k x (cache s))\<rparr>"

definition delete :: "str \<Rightarrow> 'a store \<Rightarrow> 'a store res" where
  "delete k s =
     rbind (dict_get (cache s) k) (\<lambda>_.
       Inr \<lparr>docs = AList.delete k (docs s), cache = AList.delete k (cache s)\<rparr>)"

text \<open>\<open>load_all\<close>: constructing an object enters it into the cache.\<close>

definition load_all :: "'a store \<Rightarrow> 'a store" where
  "load_all s = s\<lparr>cache := fold (\<lambda>(k, x). AList.update k x) (docs s) (cache s)\<rparr>"

definition load :: "('a \<Rightarrow> bool) \<Rightarrow> 'a store \<Rightarrow> 'a option \<times> 'a store" where
  "load q s =
     (case List.find (\<lambda>(k, x). q x) (docs s) of
        None \<Rightarrow> (None, s)
      | Some (k, x) \<Rightarrow> (Some x, s\<lparr>cache := AList.update k x (cache s)\<rparr>))"

text \<open>
  \<open>create\<close> up to the insertion, and after it. The branch that finds a competitor calls
  \<open>delete_one\<close> with one argument instead of two, which raises \<open>TypeError\<close> and leaves the document.
\<close>

definition create_insert :: "('a \<Rightarrow> str) \<Rightarrow> str \<Rightarrow> 'a \<Rightarrow> 'a store \<Rightarrow> 'a store res" where
  "create_insert f i x s =
     (if get_by_field f (f x) s \<noteq> None then Inl (RuntimeError (f x @ '' has exists''))
      else Inr (s\<lparr>docs := docs s @ [(i, x)]\<rparr>))"

definition create_finish :: "('a \<Rightarrow> str) \<Rightarrow> str \<Rightarrow> 'a \<Rightarrow> 'a store \<Rightarrow> 'a store res" where
  "create_finish f i x s =
     (if get_by_field f (f x) s \<noteq> None then Inl TypeError
      else Inr (save i x (s\<lparr>cache := AList.update i x (cache s)\<rparr>)))"

definition create :: "('a \<Rightarrow> str) \<Rightarrow> str \<Rightarrow> 'a \<Rightarrow> 'a store \<Rightarrow> 'a store res" where
  "create f i x s = rbind (create_insert f i x s) (create_finish f i x)"

subsection \<open>Laws\<close>

text \<open>The store is consistent: the live objects are exactly the stored documents.\<close>

definition store_ok :: "'a store \<Rightarrow> bool" where
  "store_ok s \<longleftrightarrow> dict_ok (docs s) \<and> dict_ok (cache s) \<and> map_of (docs s) = map_of (cache s)"

text \<open>No two objects have the same value of a field.\<close>

definition uniq_on :: "('a \<Rightarrow> str) \<Rightarrow> (str \<Rightarrow> 'a option) \<Rightarrow> bool" where
  "uniq_on f m \<longleftrightarrow> (\<forall>j k x y. m j = Some x \<longrightarrow> m k = Some y \<longrightarrow> f x = f y \<longrightarrow> j = k)"

lemma get_save [simp]:
  "get_by_key s k = Some old \<Longrightarrow> get_by_key (save k x s) j = (if j = k then Some x else get_by_key s j)"
  by (simp add: get_by_key_def save_def)

lemma get_by_field_None: "get_by_field f v s = None \<longleftrightarrow> (\<forall>x \<in> set (get_all s). f x \<noteq> v)"
  by (auto simp: get_by_field_def get_all_def find_None_iff)

lemma get_by_field_Some:
  "get_by_field f v s = Some x \<Longrightarrow> f x = v \<and> x \<in> set (get_all s)"
  unfolding get_by_field_def get_all_def find_Some_iff by (metis nth_mem)

lemma get_all_key: "dict_ok (cache s) \<Longrightarrow> x \<in> set (get_all s) \<longleftrightarrow> (\<exists>k. get_by_key s k = Some x)"
  unfolding get_all_def get_by_key_def by (auto simp flip: dict_ok_mem) force

lemma get_in_all: "get_by_key s k = Some x \<Longrightarrow> x \<in> set (get_all s)"
  unfolding get_by_key_def get_all_def by (drule map_of_SomeD) force

lemma store_ok_save [simp]: "store_ok s \<Longrightarrow> store_ok (save k x s)"
  by (auto simp: store_ok_def save_def)

lemma delete_Inr:
  "delete k s = Inr s' \<longleftrightarrow> (\<exists>x. get_by_key s k = Some x) \<and>
     s' = \<lparr>docs = AList.delete k (docs s), cache = AList.delete k (cache s)\<rparr>"
  by (auto simp: delete_def res_simps get_by_key_def)

lemma get_delete: "delete k s = Inr s' \<Longrightarrow> get_by_key s' j = (if j = k then None else get_by_key s j)"
  by (auto simp: delete_Inr get_by_key_def)

lemma store_ok_delete: "store_ok s \<Longrightarrow> delete k s = Inr s' \<Longrightarrow> store_ok s'"
  by (auto simp: delete_Inr store_ok_def)

lemma fold_update_map:
  "map_of (fold (\<lambda>(k, x). AList.update k x) ds c) = map_of c ++ map_of (rev ds)"
  by (induction ds arbitrary: c) (auto simp: fun_eq_iff map_add_def split: option.splits)

lemma fold_update_ok: "dict_ok c \<Longrightarrow> dict_ok (fold (\<lambda>(k, x). AList.update k x) ds c)"
  by (induction ds arbitrary: c) auto

text \<open>After a restart (an empty cache) loading restores every object.\<close>

lemma load_all_ok:
  "dict_ok (docs s) \<Longrightarrow> cache s = [] \<Longrightarrow> store_ok (load_all s) \<and> map_of (cache (load_all s)) = map_of (docs s)"
  by (simp add: load_all_def store_ok_def fold_update_map fold_update_ok map_of_rev_dict)

lemma create_Inr:
  "create f i x s = Inr s' \<longleftrightarrow> get_by_field f (f x) s = None \<and>
     s' = save i x \<lparr>docs = docs s @ [(i, x)], cache = AList.update i x (cache s)\<rparr>"
  by (cases s) (auto simp: create_def create_insert_def create_finish_def get_by_field_def)

lemma get_create: "create f i x s = Inr s' \<Longrightarrow> get_by_key s' j = (if j = i then Some x else get_by_key s j)"
  by (auto simp: create_Inr get_by_key_def save_def)

lemma create_new_value: "create f i x s = Inr s' \<Longrightarrow> get_by_key s j = Some y \<Longrightarrow> f y \<noteq> f x"
  unfolding create_Inr get_by_field_None get_by_key_def get_all_def by (fastforce dest: map_of_SomeD)

lemma store_ok_create:
  assumes "create f i x s = Inr s'" "store_ok s" "get_by_key s i = None"
  shows "store_ok s'"
proof -
  have "i \<notin> fst ` set (docs s)"
    using assms(2,3) by (metis store_ok_def get_by_key_def map_of_eq_None_iff)
  then have "docs s @ [(i, x)] = AList.update i x (docs s)" by (simp add: update_fresh)
  then have "store_ok \<lparr>docs = docs s @ [(i, x)], cache = AList.update i x (cache s)\<rparr>"
    using assms(2) by (simp add: store_ok_def)
  then show ?thesis using assms(1) by (simp add: create_Inr)
qed

subsection \<open>The interface the managers use\<close>

text \<open>
  A store of named objects: looking up after a save, a deletion or a creation, and the promise that
  creation refuses a name that is taken. Its lemmas carry invariants over the objects through every
  operation.
\<close>

locale object_store =
  fixes get :: "'s \<Rightarrow> str \<Rightarrow> 'a option"
    and put :: "str \<Rightarrow> 'a \<Rightarrow> 's \<Rightarrow> 's"
    and del :: "str \<Rightarrow> 's \<Rightarrow> 's res"
    and new :: "str \<Rightarrow> 'a \<Rightarrow> 's \<Rightarrow> 's res"
    and nm :: "'a \<Rightarrow> str"
  assumes get_put: "get s k = Some old \<Longrightarrow> get (put k x s) j = (if j = k then Some x else get s j)"
    and get_del: "del k s = Inr s' \<Longrightarrow> get s' j = (if j = k then None else get s j)"
    and get_new: "new k x s = Inr s' \<Longrightarrow> get s' j = (if j = k then Some x else get s j)"
    and new_name: "new k x s = Inr s' \<Longrightarrow> get s j = Some y \<Longrightarrow> nm y \<noteq> nm x"
begin

lemma put_all:
  assumes "get s k = Some old" "\<forall>j y. get s j = Some y \<longrightarrow> Q j y" "Q k x" "get (put k x s) j = Some y"
  shows "Q j y"
  using assms by (auto simp: get_put [OF assms(1)] split: if_splits)

lemma del_all:
  assumes "del k s = Inr s'" "\<forall>j y. get s j = Some y \<longrightarrow> Q j y" "get s' j = Some y"
  shows "Q j y"
  using assms by (auto simp: get_del [OF assms(1)] split: if_splits)

lemma new_all:
  assumes "new k x s = Inr s'" "\<forall>j y. get s j = Some y \<longrightarrow> Q j y" "Q k x" "get s' j = Some y"
  shows "Q j y"
  using assms by (auto simp: get_new [OF assms(1)] split: if_splits)

lemma put_uniq:
  assumes "get s k = Some old" "uniq_on nm (get s)"
    and "\<And>j y. get s j = Some y \<Longrightarrow> j \<noteq> k \<Longrightarrow> nm y \<noteq> nm x"
  shows "uniq_on nm (get (put k x s))"
  using assms(2,3) unfolding uniq_on_def get_put [OF assms(1)] by (metis option.inject)

lemma del_uniq:
  assumes "del k s = Inr s'" "uniq_on nm (get s)"
  shows "uniq_on nm (get s')"
  using assms(2) unfolding uniq_on_def get_del [OF assms(1)] by (metis option.distinct(1))

lemma new_uniq:
  assumes "new k x s = Inr s'" "uniq_on nm (get s)"
  shows "uniq_on nm (get s')"
  using assms(2) new_name [OF assms(1)] unfolding uniq_on_def get_new [OF assms(1)]
  by (metis option.inject)

end

subsection \<open>Creations that overlap\<close>

text \<open>
  A state is the store and the creations that have inserted their document and wait for MongoDB's
  answer. \<open>step_lost\<close> is the second check failing: the exception ends the request.
\<close>

inductive create_step ::
    "('a \<Rightarrow> str) \<Rightarrow> 'a store \<times> (str \<times> 'a) list \<Rightarrow> 'a store \<times> (str \<times> 'a) list \<Rightarrow> bool" for f where
  step_insert: "create_insert f i x s = Inr s' \<Longrightarrow> map_of (docs s) i = None \<Longrightarrow>
     create_step f (s, ps) (s', (i, x) # ps)"
| step_finish: "(i, x) \<in> set ps \<Longrightarrow> create_finish f i x s = Inr s' \<Longrightarrow>
     create_step f (s, ps) (s', remove1 (i, x) ps)"
| step_lost: "(i, x) \<in> set ps \<Longrightarrow> create_finish f i x s = Inl e \<Longrightarrow>
     create_step f (s, ps) (s, remove1 (i, x) ps)"
| step_delete: "delete k s = Inr s' \<Longrightarrow> create_step f (s, ps) (s', ps)"

inductive_cases create_stepE: "create_step f (s, ps) (s', ps')"

lemma create_insert_cache: "create_insert f i x s = Inr s' \<Longrightarrow> get_by_key s' = get_by_key s"
  by (auto simp: create_insert_def get_by_key_def fun_eq_iff split: if_splits)

lemma create_finish_uniq:
  assumes "create_finish f i x s = Inr s'" "uniq_on f (get_by_key s)"
  shows "uniq_on f (get_by_key s')"
proof -
  have new: "get_by_key s' j = (if j = i then Some x else get_by_key s j)" for j
    using assms(1) by (auto simp: create_finish_def save_def get_by_key_def split: if_splits)
  have "get_by_field f (f x) s = None" using assms(1) by (auto simp: create_finish_def split: if_splits)
  then have "f y \<noteq> f x" if "get_by_key s j = Some y" for j y
    using that unfolding get_by_field_None get_by_key_def get_all_def by (fastforce dest: map_of_SomeD)
  then show ?thesis using assms(2) unfolding uniq_on_def new by (metis option.inject)
qed

lemma create_step_uniq:
  "create_step f c c' \<Longrightarrow> uniq_on f (get_by_key (fst c)) \<Longrightarrow> uniq_on f (get_by_key (fst c'))"
proof (induction rule: create_step.induct)
  case (step_delete k s s' ps)
  then show ?case unfolding uniq_on_def using get_delete by (metis fst_conv option.distinct(1))
qed (simp_all add: create_insert_cache create_finish_uniq)

text \<open>
  C10. However the creations of several requests overlap, also with deletions, no two live objects
  ever have the same name: the second check makes up for the gap between the first one and the
  insertion.
\<close>

theorem create_overlap_unique:
  assumes "(create_step f)\<^sup>*\<^sup>* (s, []) (s', ps)" "uniq_on f (get_by_key s)"
  shows "uniq_on f (get_by_key s')"
proof -
  have "uniq_on f (get_by_key (fst c'))" if "(create_step f)\<^sup>*\<^sup>* c c'" "uniq_on f (get_by_key (fst c))" for c c'
    using that by (induction rule: rtranclp_induct) (auto intro: create_step_uniq)
  from this [OF assms(1)] show ?thesis using assms(2) by simp
qed

text \<open>
  The losing creation of an overlapping pair fails with \<open>TypeError\<close> and its document stays: the
  next start of the server loads both, and two live objects have the same name.
\<close>

theorem create_overlap_orphan:
  assumes "create_insert f i x s = Inr s1" "create_insert f j y s1 = Inr s2" "f x = f y" "i \<noteq> j"
    and "store_ok s" "map_of (docs s) i = None" "map_of (docs s) j = None"
  shows "\<exists>s3. create_finish f i x s2 = Inr s3 \<and> create_finish f j y s3 = Inl TypeError \<and>
    \<not> uniq_on f (get_by_key (load_all (s3\<lparr>cache := []\<rparr>)))"
proof -
  have s2: "s2 = s\<lparr>docs := docs s @ [(i, x), (j, y)]\<rparr>" and free: "get_by_field f (f x) s = None"
    using assms(1,2) by (auto simp: create_insert_def split: if_splits)
  then have free2: "get_by_field f (f x) s2 = None" by (simp add: get_by_field_def)
  let ?s3 = "save i x (s2\<lparr>cache := AList.update i x (cache s2)\<rparr>)"
  have fin: "create_finish f i x s2 = Inr ?s3" using free2 by (simp add: create_finish_def)
  have "i \<notin> fst ` set (docs s)" "j \<notin> fst ` set (docs s)"
    using assms(6,7) by (simp_all add: map_of_eq_None_iff)
  moreover have "dict_ok (docs s)" using assms(5) by (simp add: store_ok_def)
  ultimately have ok2: "dict_ok (docs s2)" using assms(4) unfolding s2 by (simp add: dict_ok_def)
  have "map_of (docs s2) i = Some x" "map_of (docs s2) j = Some y"
    unfolding dict_ok_mem [OF ok2, symmetric] by (simp_all add: s2)
  then have d3: "dict_ok (docs ?s3)" "map_of (docs ?s3) = map_of (docs s2)"
    using ok2 by (auto simp: save_def)
  have "get_by_key ?s3 i = Some x" by (simp add: save_def get_by_key_def)
  then have "x \<in> set (get_all ?s3)" by (rule get_in_all)
  then have "get_by_field f (f y) ?s3 \<noteq> None" using assms(3) by (auto simp: get_by_field_None)
  then have lost: "create_finish f j y ?s3 = Inl TypeError" by (simp add: create_finish_def)
  have "get_by_key (load_all (?s3\<lparr>cache := []\<rparr>)) k = map_of (docs s2) k" for k
    using load_all_ok [of "?s3\<lparr>cache := []\<rparr>"] d3 by (simp add: get_by_key_def)
  then have "\<not> uniq_on f (get_by_key (load_all (?s3\<lparr>cache := []\<rparr>)))"
    using \<open>map_of (docs s2) i = Some x\<close> \<open>map_of (docs s2) j = Some y\<close> assms(3,4)
    unfolding uniq_on_def by metis
  with fin lost show ?thesis by blast
qed

definition two_inserts :: "str store" where
  "two_inserts = \<lparr>docs = [(''1'', ''ops''), (''2'', ''ops'')], cache = []\<rparr>"

lemma create_overlap_orphan_witness:
  "\<exists>s3. create_finish id ''1'' ''ops'' two_inserts = Inr s3 \<and> create_finish id ''2'' ''ops'' s3 = Inl TypeError \<and>
    \<not> uniq_on id (get_by_key (load_all (s3\<lparr>cache := []\<rparr>)))"
  by (rule create_overlap_orphan [of id "''1''" "''ops''" empty_store
        "two_inserts\<lparr>docs := [(''1'', ''ops'')]\<rparr>" "''2''" "''ops''" two_inserts])
    (simp_all add: two_inserts_def empty_store_def create_insert_def get_by_field_def store_ok_def)

lemma create_overlap_unique_witness:
  "\<exists>s. (create_step id)\<^sup>*\<^sup>* (empty_store, []) (s, []) \<and> get_by_key s ''1'' = Some ''ops'' \<and>
    uniq_on id (get_by_key s)"
proof -
  have one: "create_step id (empty_store, []) (two_inserts\<lparr>docs := [(''1'', ''ops'')]\<rparr>, [(''1'', ''ops'')])"
    by (rule step_insert) (simp_all add: create_insert_def empty_store_def two_inserts_def get_by_field_def)
  obtain s where s: "create_finish id ''1'' ''ops'' (two_inserts\<lparr>docs := [(''1'', ''ops'')]\<rparr>) = Inr s"
    by (simp add: create_finish_def two_inserts_def get_by_field_def)
  have two: "create_step id (two_inserts\<lparr>docs := [(''1'', ''ops'')]\<rparr>, [(''1'', ''ops'')]) (s, [])"
    using step_finish [OF _ s, of "[(''1'', ''ops'')]"] by simp
  have run: "(create_step id)\<^sup>*\<^sup>* (empty_store, []) (s, [])"
    using one two by (meson rtranclp.rtrancl_into_rtrancl rtranclp.rtrancl_refl)
  have "uniq_on id (get_by_key (empty_store :: str store))"
    by (simp add: uniq_on_def empty_store_def get_by_key_def)
  moreover have "get_by_key s ''1'' = Some ''ops''"
    using s by (auto simp: create_finish_def two_inserts_def get_by_field_def save_def get_by_key_def)
  ultimately show ?thesis using create_overlap_unique [OF run] run by blast
qed

end
