(* ===== verification/Gm_Users.thy ===== *)
theory Gm_Users
  imports Complex_Main Gm_Store
begin

text \<open>
  Accounts, groups and powers of the management server: \<^verbatim>\<open>gm_server/user_manager.py\<close>. The state
  holds the two collections and the operation log. MongoDB's new ids, the clock, the random token
  and MD5 are arguments; times are rational seconds.
\<close>

record group =
  gid :: str
  num :: int
  gname :: str
  ginfo :: str
  power_list :: "str list"

record user =
  uid :: str
  uname :: str
  nick :: str
  pwd :: str
  create_ts :: rat
  modify_ts :: rat
  status :: str
  token :: str
  token_expire :: rat
  login_ip :: str
  login_ts :: rat
  last_login_ip :: str
  last_login_ts :: rat
  group_id :: str

record log_entry =
  log_user :: str
  log_page :: str
  log_op :: str
  log_data :: str
  log_ts :: int

record gm =
  groups :: "group store"
  users :: "user store"
  oplog :: "log_entry list"

text \<open>What a request brings along: clock, cookies, the next MongoDB id, randomness and MD5.\<close>

record env =
  now :: rat
  cookie_uid :: "str option"
  cookie_token :: "str option"
  new_id :: str
  rnd :: str
  md5 :: "str \<Rightarrow> str"

definition ALL_POWER :: "str list" where
  "ALL_POWER =
    [''user_mgr'', ''group_mgr'', ''player_query'', ''level_query'', ''role_vip_mgr'', ''player_forbid'',
     ''server_list'', ''delete_item'', ''version'', ''server_time'', ''user_log'', ''role_log'',
     ''sys_mail'', ''role_mail'', ''online_notify'', ''system_notify'', ''map_mgr'', ''gift_key'',
     ''query_union'', ''query_vip'', ''event_config'', ''event_query'', ''query_tool'',
     ''lover_activities'', ''hero_activities'']"

text \<open>The two states of an account, ``normal'' and ``disabled'', and the first group's name and info.\<close>

definition NORMAL :: str where
  "NORMAL = utf8 [0xe6, 0xad, 0xa3, 0xe5, 0xb8, 0xb8]"

definition DISABLED :: str where
  "DISABLED = utf8 [0xe7, 0xa6, 0x81, 0xe7, 0x94, 0xa8]"

definition ALL_STATUS :: "str list" where
  "ALL_STATUS = [NORMAL, DISABLED]"

definition SUPER_ADMIN :: str where
  "SUPER_ADMIN = utf8 [0xe8, 0xb6, 0x85, 0xe7, 0xba, 0xa7, 0xe7, 0xae, 0xa1, 0xe7, 0x90, 0x86, 0xe5, 0x91,
    0x98]"

definition SUPER_INFO :: str where
  "SUPER_INFO = utf8 [0xe6, 0x8b, 0xa5, 0xe6, 0x9c, 0x89, 0xe6, 0x89, 0x80, 0xe6, 0x9c, 0x89, 0xe6, 0x93,
    0x8d, 0xe4, 0xbd, 0x9c, 0xe6, 0x9d, 0x83, 0xe9, 0x99, 0x90]"

subsection \<open>Groups\<close>

definition valid_powers :: "str list \<Rightarrow> str list" where
  "valid_powers ps = filter (\<lambda>p. p \<in> set ALL_POWER) ps"

definition save_group :: "group \<Rightarrow> gm \<Rightarrow> gm" where
  "save_group g st = st\<lparr>groups := save (gid g) g (groups st)\<rparr>"

definition set_power :: "group \<Rightarrow> str list \<Rightarrow> gm \<Rightarrow> gm" where
  "set_power g ps st = save_group (g\<lparr>power_list := valid_powers ps\<rparr>) st"

definition group_modify :: "group \<Rightarrow> str \<Rightarrow> str \<Rightarrow> gm \<Rightarrow> gm" where
  "group_modify g name info st = save_group (g\<lparr>gname := name, ginfo := info\<rparr>) st"

definition get_member :: "group \<Rightarrow> gm \<Rightarrow> user list" where
  "get_member g st = filter (\<lambda>u. group_id u = gid g) (get_all (users st))"

definition create_user_group :: "str \<Rightarrow> str \<Rightarrow> str \<Rightarrow> str list \<Rightarrow> gm \<Rightarrow> (group \<times> gm) res" where
  "create_user_group i name info ps st =
     (let nums = map num (get_all (groups st));
          g = \<lparr>gid = i, num = (if nums = [] then 1 else Max (set nums) + 1), gname = name, ginfo = info,
               power_list = valid_powers ps\<rparr>
      in rbind (create gname i g (groups st)) (\<lambda>gs. Inr (g, st\<lparr>groups := gs\<rparr>)))"

definition get_group_by_name :: "gm \<Rightarrow> str \<Rightarrow> group option" where
  "get_group_by_name st n = get_by_field gname n (groups st)"

definition get_group_by_key :: "gm \<Rightarrow> str \<Rightarrow> group option" where
  "get_group_by_key st k = get_by_key (groups st) k"

subsection \<open>Users\<close>

definition save_user :: "user \<Rightarrow> gm \<Rightarrow> gm" where
  "save_user u st = st\<lparr>users := save (uid u) u (users st)\<rparr>"

definition new_user :: "env \<Rightarrow> str \<Rightarrow> str \<Rightarrow> str \<Rightarrow> str \<Rightarrow> str \<Rightarrow> user" where
  "new_user e name raw_pwd g nk stat =
     \<lparr>uid = new_id e, uname = name, nick = nk, pwd = md5 e raw_pwd, create_ts = now e, modify_ts = now e,
      status = stat, token = [], token_expire = 0, login_ip = [], login_ts = 0, last_login_ip = [],
      last_login_ts = 0, group_id = g\<rparr>"

definition refresh_token :: "env \<Rightarrow> user \<Rightarrow> user" where
  "refresh_token e u = u\<lparr>token := rnd e, token_expire := now e + 24 * 3600\<rparr>"

definition user_modify :: "env \<Rightarrow> user \<Rightarrow> str \<Rightarrow> str \<Rightarrow> str \<Rightarrow> str \<Rightarrow> user" where
  "user_modify e u nk raw g st =
     u\<lparr>nick := nk, pwd := (if raw = [] then pwd u else md5 e raw), group_id := g, status := st,
       modify_ts := now e\<rparr>"

definition change_pwd :: "env \<Rightarrow> user \<Rightarrow> str \<Rightarrow> user" where
  "change_pwd e u raw = u\<lparr>pwd := md5 e raw, modify_ts := now e\<rparr>"

definition check_pwd :: "env \<Rightarrow> user \<Rightarrow> str \<Rightarrow> bool" where
  "check_pwd e u raw \<longleftrightarrow> pwd u = md5 e raw"

text \<open>Powers needed are a conjunction (\<open>,\<close>) of alternatives (\<open>/\<close>).\<close>

definition check_power :: "gm \<Rightarrow> user \<Rightarrow> str \<Rightarrow> bool" where
  "check_power st u need =
     (case get_group_by_key st (group_id u) of
        None \<Rightarrow> False
      | Some g \<Rightarrow> list_all (\<lambda>power. list_ex (\<lambda>p. p \<in> set (power_list g)) (split_on ''/'' power))
                    (split_on '','' need))"

definition is_disabled :: "user \<Rightarrow> bool" where
  "is_disabled u \<longleftrightarrow> status u = DISABLED"

definition create_user :: "env \<Rightarrow> str \<Rightarrow> str \<Rightarrow> str \<Rightarrow> str \<Rightarrow> str \<Rightarrow> gm \<Rightarrow> gm res" where
  "create_user e name raw_pwd g nk stat st =
     (case get_group_by_key st g of
        None \<Rightarrow> Inl (RuntimeError ''no such group'')
      | Some _ \<Rightarrow>
          rbind (create uname (new_id e) (new_user e name raw_pwd g nk stat) (users st))
            (\<lambda>us. Inr (st\<lparr>users := us\<rparr>)))"

definition get_user_by_name :: "gm \<Rightarrow> str \<Rightarrow> user option" where
  "get_user_by_name st n = get_by_field uname n (users st)"

definition get_user_by_uid :: "gm \<Rightarrow> str \<Rightarrow> user option" where
  "get_user_by_uid st k = get_by_key (users st) k"

definition get_curr_user :: "env \<Rightarrow> gm \<Rightarrow> user option" where
  "get_curr_user e st =
     (case cookie_uid e of
        None \<Rightarrow> None
      | Some k \<Rightarrow>
          if k = [] then None
          else case get_user_by_uid st k of
            None \<Rightarrow> None
          | Some u \<Rightarrow> if Some (token u) = cookie_token e \<and> now e < token_expire u then Some u else None)"

subsection \<open>Start of the server\<close>

definition init_groups :: "env \<Rightarrow> gm \<Rightarrow> (group \<times> gm) res" where
  "init_groups e st =
     (let st1 = st\<lparr>groups := load_all (groups st)\<rparr> in
      case get_group_by_name st1 SUPER_ADMIN of
        Some g \<Rightarrow> Inr (g\<lparr>power_list := valid_powers ALL_POWER\<rparr>, set_power g ALL_POWER st1)
      | None \<Rightarrow> create_user_group (new_id e) SUPER_ADMIN SUPER_INFO ALL_POWER st1)"

definition init :: "env \<Rightarrow> gm \<Rightarrow> gm res" where
  "init e st =
     rbind (init_groups e st) (\<lambda>(g, st1).
       let st2 = st1\<lparr>users := load_all (users st1)\<rparr> in
       case get_user_by_name st2 ''admin'' of
         Some _ \<Rightarrow> Inr st2
       | None \<Rightarrow> create_user e ''admin'' ''admin'' (gid g) ''admin'' NORMAL st2)"

subsection \<open>The operation log and the power guard of a page\<close>

definition push_log :: "env \<Rightarrow> user \<Rightarrow> str \<Rightarrow> str \<Rightarrow> str \<Rightarrow> gm \<Rightarrow> gm" where
  "push_log e u page op data st =
     st\<lparr>oplog := oplog st @ [\<lparr>log_user = uname u, log_page = page, log_op = op, log_data = data,
        log_ts = \<lfloor>now e\<rfloor>\<rparr>]\<rparr>"

datatype refusal =
    EmptyPassword | UserExists | NoSuchGroup | BadStatus | NotSelf | NotAdmin | NoSuchUser
  | AdminFixed | GroupExists str | HasMembers str | BadLogin | UserDisabled

datatype reply =
    Redirect str | Abort int | Refused refusal | Done
  | LoginPage | WelcomePage str rat
  | UserPage "(user \<times> str) list" | GroupPage "group list" | GroupInfo group
  | LoggedIn str str

definition check_user :: "str \<Rightarrow> env \<Rightarrow> (user \<Rightarrow> gm \<Rightarrow> (reply \<times> gm) res) \<Rightarrow> gm \<Rightarrow> (reply \<times> gm) res" where
  "check_user need e h st =
     (case get_curr_user e st of
        None \<Rightarrow> Inr (Redirect ''/login'', st)
      | Some u \<Rightarrow>
          if is_disabled u then Inr (Redirect ''/login'', st)
          else if \<not> check_power st u need then Inr (Abort 401, st)
          else h u st)"

end
