(* ===== verification/Gm_Admin.thy ===== *)
theory Gm_Admin
  imports Gm_Users
begin

text \<open>
  The account and group pages of the management server and its login: \<^verbatim>\<open>view_user_mgr.py\<close>,
  \<^verbatim>\<open>view_group_mgr.py\<close> and the handlers of \<^verbatim>\<open>gm_main.py\<close>. A handler is a function from the
  request's environment and parameters and the server state to a reply and the new state; a Python
  exception is \<open>Inl\<close>. Requests run one at a time here; overlapping creations are in Gm_Store.
\<close>

definition PAGE_USER :: str where "PAGE_USER = utf8 [0xe8, 0xb4, 0xa6, 0xe5, 0x8f, 0xb7, 0xe7, 0xae, 0xa1, 0xe7, 0x90, 0x86]"
definition PAGE_GROUP :: str where "PAGE_GROUP = utf8 [0xe7, 0xbb, 0x84, 0xe7, 0xae, 0xa1, 0xe7, 0x90, 0x86]"
definition OP_ADD_USER :: str where "OP_ADD_USER = utf8 [0xe6, 0x96, 0xb0, 0xe5, 0xbb, 0xba, 0xe8, 0xb4, 0xa6, 0xe5, 0x8f, 0xb7]"
definition OP_DEL_USER :: str where "OP_DEL_USER = utf8 [0xe5, 0x88, 0xa0, 0xe9, 0x99, 0xa4, 0xe8, 0xb4, 0xa6, 0xe5, 0x8f, 0xb7]"
definition OP_MOD_USER :: str where "OP_MOD_USER = utf8 [0xe4, 0xbf, 0xae, 0xe6, 0x94, 0xb9, 0xe8, 0xb4, 0xa6, 0xe5, 0x8f, 0xb7]"
definition OP_ADD_GROUP :: str where "OP_ADD_GROUP = utf8 [0xe5, 0x88, 0x9b, 0xe5, 0xbb, 0xba, 0xe7, 0xbb, 0x84]"
definition OP_DEL_GROUP :: str where "OP_DEL_GROUP = utf8 [0xe5, 0x88, 0xa0, 0xe9, 0x99, 0xa4, 0xe7, 0xbb, 0x84]"
definition OP_MOD_GROUP :: str where "OP_MOD_GROUP = utf8 [0xe4, 0xbf, 0xae, 0xe6, 0x94, 0xb9, 0xe7, 0xbb, 0x84]"
definition OP_POWER :: str where "OP_POWER = utf8 [0xe8, 0xae, 0xbe, 0xe7, 0xbd, 0xae, 0xe6, 0x9d, 0x83, 0xe9, 0x99, 0x90]"
definition TXT_REMOVED :: str where "TXT_REMOVED = utf8 [0xe7, 0xa7, 0xbb, 0xe9, 0x99, 0xa4, 0xef, 0xbc, 0x9a]"
definition TXT_ADDED :: str where "TXT_ADDED = utf8 [0x2c, 0x20, 0xe6, 0x96, 0xb0, 0xe5, 0xa2, 0x9e, 0xef, 0xbc, 0x9a]"
definition HOME_CITY :: str where "HOME_CITY = utf8 [0xe5, 0x8c, 0x97, 0xe4, 0xba, 0xac, 0xe5, 0xb8, 0x82]"

definition name_nick :: "user \<Rightarrow> str" where
  "name_nick u = uname u @ ''('' @ nick u @ '')''"

subsection \<open>Accounts\<close>

definition user_render :: "gm \<Rightarrow> user \<Rightarrow> (user \<times> str) res" where
  "user_render st u =
     rbind (of_option AttributeError (get_group_by_key st (group_id u))) (\<lambda>g. Inr (u, gname g))"

definition view_user_mgr :: "user \<Rightarrow> gm \<Rightarrow> (reply \<times> gm) res" where
  "view_user_mgr cu st =
     rbind (mapR (user_render st) (get_all (users st))) (\<lambda>us. Inr (UserPage us, st))"

definition add_user :: "env \<Rightarrow> str \<Rightarrow> str \<Rightarrow> str \<Rightarrow> str \<Rightarrow> str \<Rightarrow> user \<Rightarrow> gm \<Rightarrow> (reply \<times> gm) res" where
  "add_user e name raw nk group_name stat cu st =
     (if raw = [] then Inr (Refused EmptyPassword, st)
      else if get_user_by_name st name \<noteq> None then Inr (Refused UserExists, st)
      else case get_group_by_name st group_name of
        None \<Rightarrow> Inr (Refused NoSuchGroup, st)
      | Some g \<Rightarrow>
          if stat \<notin> set ALL_STATUS then Inr (Refused BadStatus, st)
          else rbind (create_user e name raw (gid g) nk stat st) (\<lambda>st'.
            Inr (Done, push_log e cu PAGE_USER OP_ADD_USER
              (name @ ''('' @ nk @ ''), '' @ gname g @ '', '' @ stat) st')))"

fun delete_refused :: "user \<Rightarrow> gm \<Rightarrow> str list \<Rightarrow> refusal option" where
  "delete_refused cu st [] = None"
| "delete_refused cu st (k # ks) =
     (if k = uid cu then Some NotSelf
      else if map_option uname (get_user_by_uid st k) = Some ''admin'' then Some NotAdmin
      else delete_refused cu st ks)"

definition delete_one_user :: "str list \<times> gm \<Rightarrow> str \<Rightarrow> (str list \<times> gm) res" where
  "delete_one_user s k =
     (case s of (names, st) \<Rightarrow>
        case get_user_by_uid st k of
          None \<Rightarrow> Inr (names, st)
        | Some u \<Rightarrow> rbind (delete (uid u) (users st)) (\<lambda>us.
            Inr (names @ [name_nick u], st\<lparr>users := us\<rparr>)))"

definition delete_user :: "env \<Rightarrow> str list \<Rightarrow> user \<Rightarrow> gm \<Rightarrow> (reply \<times> gm) res" where
  "delete_user e uids cu st =
     (case delete_refused cu st uids of
        Some r \<Rightarrow> Inr (Refused r, st)
      | None \<Rightarrow> rbind (foldR delete_one_user ([], st) uids) (\<lambda>(names, st').
          Inr (Done, push_log e cu PAGE_USER OP_DEL_USER (join '','' names) st')))"

definition user_desc :: "user \<Rightarrow> group \<Rightarrow> str" where
  "user_desc u g = nick u @ '','' @ gname g @ '','' @ status u"

definition modify_user :: "env \<Rightarrow> str \<Rightarrow> str \<Rightarrow> str \<Rightarrow> str \<Rightarrow> str \<Rightarrow> user \<Rightarrow> gm \<Rightarrow> (reply \<times> gm) res" where
  "modify_user e k raw nk group_name stat cu st =
     (case get_user_by_uid st k of
        None \<Rightarrow> Inr (Refused NoSuchUser, st)
      | Some u \<Rightarrow>
          if uname u = ''admin'' then Inr (Refused AdminFixed, st)
          else case get_group_by_name st group_name of
            None \<Rightarrow> Inr (Refused NoSuchGroup, st)
          | Some g \<Rightarrow>
              if stat \<notin> set ALL_STATUS then Inr (Refused BadStatus, st)
              else rbind (of_option AttributeError (get_group_by_key st (group_id u))) (\<lambda>og.
                let u' = user_modify e u nk raw (gid g) stat in
                Inr (Done, push_log e cu PAGE_USER OP_MOD_USER
                  (user_desc u og @ '' => '' @ user_desc u' g) (save_user u' st))))"

subsection \<open>Groups\<close>

definition view_group_mgr :: "user \<Rightarrow> gm \<Rightarrow> (reply \<times> gm) res" where
  "view_group_mgr cu st = Inr (GroupPage (sort_key num (get_all (groups st))), st)"

definition add_group :: "env \<Rightarrow> str \<Rightarrow> str \<Rightarrow> user \<Rightarrow> gm \<Rightarrow> (reply \<times> gm) res" where
  "add_group e name info cu st =
     (if get_group_by_name st name \<noteq> None then Inr (Refused (GroupExists name), st)
      else rbind (create_user_group (new_id e) name info [] st) (\<lambda>(g, st').
        Inr (Done, push_log e cu PAGE_GROUP OP_ADD_GROUP name st')))"

fun group_refused :: "gm \<Rightarrow> str list \<Rightarrow> refusal option" where
  "group_refused st [] = None"
| "group_refused st (k # ks) =
     (case get_group_by_key st k of
        None \<Rightarrow> group_refused st ks
      | Some g \<Rightarrow> if get_member g st \<noteq> [] then Some (HasMembers (gname g)) else group_refused st ks)"

definition delete_one_group :: "str list \<times> gm \<Rightarrow> str \<Rightarrow> (str list \<times> gm) res" where
  "delete_one_group s k =
     (case s of (names, st) \<Rightarrow>
        case get_group_by_key st k of
          None \<Rightarrow> Inr (names, st)
        | Some g \<Rightarrow> rbind (delete (gid g) (groups st)) (\<lambda>gs.
            Inr (names @ [gname g], st\<lparr>groups := gs\<rparr>)))"

definition delete_group :: "env \<Rightarrow> str list \<Rightarrow> user \<Rightarrow> gm \<Rightarrow> (reply \<times> gm) res" where
  "delete_group e gids cu st =
     (case group_refused st gids of
        Some r \<Rightarrow> Inr (Refused r, st)
      | None \<Rightarrow> rbind (foldR delete_one_group ([], st) gids) (\<lambda>(names, st').
          Inr (Done, push_log e cu PAGE_GROUP OP_DEL_GROUP (join '','' names) st')))"

definition modify_group :: "env \<Rightarrow> str \<Rightarrow> str \<Rightarrow> str \<Rightarrow> user \<Rightarrow> gm \<Rightarrow> (reply \<times> gm) res" where
  "modify_group e k name info cu st =
     (case get_group_by_key st k of
        None \<Rightarrow> Inr (Refused NoSuchGroup, st)
      | Some g \<Rightarrow>
          if name \<noteq> gname g \<and> get_group_by_name st name \<noteq> None then Inr (Refused (GroupExists name), st)
          else Inr (Done, group_modify g name info (push_log e cu PAGE_GROUP OP_MOD_GROUP
             (gname g @ ''=>'' @ name @ '', '' @ ginfo g @ ''=>'' @ info) st)))"

text \<open>The checked boxes of the form; the logged sets are listed in the order of the lists.\<close>

definition handle_set_power :: "env \<Rightarrow> str \<Rightarrow> (str \<times> str) list \<Rightarrow> user \<Rightarrow> gm \<Rightarrow> (reply \<times> gm) res" where
  "handle_set_power e k params cu st =
     (let ps = map fst (filter (\<lambda>(n, v). n \<noteq> ''gid'' \<and> v = ''on'') params) in
      case get_group_by_key st k of
        None \<Rightarrow> Inr (Refused NoSuchGroup, st)
      | Some g \<Rightarrow>
          let new = valid_powers ps;
              gone = filter (\<lambda>p. p \<notin> set new) (remdups (power_list g));
              added = filter (\<lambda>p. p \<notin> set (power_list g)) (remdups new)
          in Inr (Done, push_log e cu PAGE_GROUP OP_POWER
               (TXT_REMOVED @ join ''-'' gone @ TXT_ADDED @ join ''/'' added) (set_power g ps st)))"

definition query_group :: "str \<Rightarrow> user \<Rightarrow> gm \<Rightarrow> (reply \<times> gm) res" where
  "query_group k cu st =
     (case get_group_by_key st k of
        None \<Rightarrow> Inr (Refused NoSuchGroup, st)
      | Some g \<Rightarrow> Inr (GroupInfo g, st))"

subsection \<open>Login\<close>

definition login :: "env \<Rightarrow> gm \<Rightarrow> reply" where
  "login e st =
     (case get_curr_user e st of
        None \<Rightarrow> LoginPage
      | Some u \<Rightarrow> if is_disabled u then LoginPage else Redirect ''/welcome'')"

definition login_post :: "env \<Rightarrow> str \<Rightarrow> str \<Rightarrow> gm \<Rightarrow> (reply \<times> gm) res" where
  "login_post e name raw st =
     (case get_user_by_name st name of
        None \<Rightarrow> Inr (Refused BadLogin, st)
      | Some u \<Rightarrow>
          if \<not> check_pwd e u raw then Inr (Refused BadLogin, st)
          else if is_disabled u then Inr (Refused UserDisabled, st)
          else let u1 = refresh_token e u;
                   st1 = save_user u1 st;
                   u2 = u1\<lparr>last_login_ip := login_ip u1, last_login_ts := login_ts u1,
                           login_ip := HOME_CITY, login_ts := now e\<rparr>
               in Inr (LoggedIn (uid u1) (token u1), save_user u2 st1))"

definition logout :: "gm \<Rightarrow> (reply \<times> gm) res" where
  "logout st = Inr (Redirect ''/login'', st)"

definition welcome_page :: "env \<Rightarrow> gm \<Rightarrow> (reply \<times> gm) res" where
  "welcome_page e st =
     (case get_curr_user e st of
        None \<Rightarrow> Inr (Redirect ''/login'', st)
      | Some u \<Rightarrow>
          if is_disabled u then Inr (Redirect ''/login'', st)
          else Inr (WelcomePage (last_login_ip u) (last_login_ts u), st))"

definition change_password :: "env \<Rightarrow> str \<Rightarrow> gm \<Rightarrow> (reply \<times> gm) res" where
  "change_password e raw st =
     (case get_curr_user e st of
        None \<Rightarrow> Inr (Redirect ''/login'', st)
      | Some u \<Rightarrow>
          if raw = [] then Inr (Refused EmptyPassword, st)
          else Inr (Done, save_user (change_pwd e u raw) st))"

subsection \<open>The routes\<close>

datatype request =
    GetLogin | PostLogin str str | Logout | Welcome | ChangePassword str
  | ViewUsers | AddUser str str str str str | DeleteUsers "str list" | ModifyUser str str str str str
  | ViewGroups | AddGroup str str | DeleteGroups "str list" | ModifyGroup str str str
  | SetPower str "(str \<times> str) list" | QueryGroup str

text \<open>The argument of \<open>@check_user\<close> in front of each handler.\<close>

fun needs :: "request \<Rightarrow> str option" where
  "needs ViewUsers = Some ''user_mgr''"
| "needs (AddUser _ _ _ _ _) = Some ''user_mgr''"
| "needs (DeleteUsers _) = Some ''user_mgr''"
| "needs (ModifyUser _ _ _ _ _) = Some ''user_mgr''"
| "needs ViewGroups = Some ''group_mgr''"
| "needs (AddGroup _ _) = Some ''group_mgr''"
| "needs (DeleteGroups _) = Some ''group_mgr''"
| "needs (ModifyGroup _ _ _) = Some ''group_mgr''"
| "needs (SetPower _ _) = Some ''group_mgr''"
| "needs (QueryGroup _) = Some ''group_mgr''"
| "needs _ = None"

fun page :: "env \<Rightarrow> request \<Rightarrow> user \<Rightarrow> gm \<Rightarrow> (reply \<times> gm) res" where
  "page e ViewUsers = view_user_mgr"
| "page e (AddUser n p k g s) = add_user e n p k g s"
| "page e (DeleteUsers ks) = delete_user e ks"
| "page e (ModifyUser i p k g s) = modify_user e i p k g s"
| "page e ViewGroups = view_group_mgr"
| "page e (AddGroup n i) = add_group e n i"
| "page e (DeleteGroups ks) = delete_group e ks"
| "page e (ModifyGroup i n d) = modify_group e i n d"
| "page e (SetPower i ps) = handle_set_power e i ps"
| "page e (QueryGroup i) = query_group i"
| "page e _ = (\<lambda>u st. Inr (Done, st))"

fun handle :: "env \<Rightarrow> request \<Rightarrow> gm \<Rightarrow> (reply \<times> gm) res" where
  "handle e GetLogin st = Inr (login e st, st)"
| "handle e (PostLogin n p) st = login_post e n p st"
| "handle e Logout st = logout st"
| "handle e Welcome st = welcome_page e st"
| "handle e (ChangePassword p) st = change_password e p st"
| "handle e r st = (case needs r of None \<Rightarrow> Inr (Done, st) | Some need \<Rightarrow> check_user need e (page e r) st)"

end
