(* ===== verification/Gm_Admin_Proofs.thy ===== *)
theory Gm_Admin_Proofs
  imports Gm_Admin
begin

text \<open>
  Correctness of the account pages: the data invariant of the server, its preservation by every
  request, the power guard, the life of a login session, and the start of the server. The lemmas on
  the two collections come from the locale of Gm_Store, interpreted here on the model's stores.
\<close>

interpretation group_store: object_store get_by_key save delete "create gname" gname
  by unfold_locales (auto simp: get_delete get_create dest: create_new_value)

interpretation user_store: object_store get_by_key save delete "create uname" uname
  by unfold_locales (auto simp: get_delete get_create dest: create_new_value)

subsection \<open>The invariant\<close>

definition group_ok :: "str \<Rightarrow> group \<Rightarrow> bool" where
  "group_ok k g \<longleftrightarrow> gid g = k \<and> set (power_list g) \<subseteq> set ALL_POWER"

definition user_ok :: "(str \<Rightarrow> group option) \<Rightarrow> str \<Rightarrow> user \<Rightarrow> bool" where
  "user_ok gs k u \<longleftrightarrow> uid u = k \<and> gs (group_id u) \<noteq> None \<and> status u \<in> set ALL_STATUS"

definition data_ok :: "(str \<Rightarrow> group option) \<Rightarrow> (str \<Rightarrow> user option) \<Rightarrow> bool" where
  "data_ok gs us \<longleftrightarrow>
     (\<forall>k g. gs k = Some g \<longrightarrow> group_ok k g) \<and> uniq_on gname gs \<and>
     (\<forall>k u. us k = Some u \<longrightarrow> user_ok gs k u) \<and> uniq_on uname us"

definition has_admin :: "(str \<Rightarrow> user option) \<Rightarrow> bool" where
  "has_admin us \<longleftrightarrow> (\<exists>k u. us k = Some u \<and> uname u = ''admin'')"

text \<open>\<open>pre_ok\<close> is the state of the starting server, before the first account is ensured.\<close>

definition pre_ok :: "gm \<Rightarrow> bool" where
  "pre_ok st \<longleftrightarrow> store_ok (groups st) \<and> store_ok (users st) \<and>
     data_ok (get_by_key (groups st)) (get_by_key (users st))"

definition gm_ok :: "gm \<Rightarrow> bool" where
  "gm_ok st \<longleftrightarrow> pre_ok st \<and> has_admin (get_by_key (users st))"

definition fresh_id :: "env \<Rightarrow> gm \<Rightarrow> bool" where
  "fresh_id e st \<longleftrightarrow> get_by_key (groups st) (new_id e) = None \<and> get_by_key (users st) (new_id e) = None"

lemma gm_ok_cache: "gm_ok st \<Longrightarrow> dict_ok (cache (groups st)) \<and> dict_ok (cache (users st))"
  by (simp add: gm_ok_def pre_ok_def store_ok_def)

lemma user_ofD: "gm_ok st \<Longrightarrow> get_by_key (users st) k = Some u \<Longrightarrow> user_ok (get_by_key (groups st)) k u"
  by (simp add: gm_ok_def pre_ok_def data_ok_def)

lemma group_ofD: "gm_ok st \<Longrightarrow> get_by_key (groups st) k = Some g \<Longrightarrow> group_ok k g"
  by (simp add: gm_ok_def pre_ok_def data_ok_def)

lemma user_by_name:
  assumes "gm_ok st" "get_user_by_name st n = Some u"
  shows "uname u = n \<and> get_by_key (users st) (uid u) = Some u"
proof -
  have n: "uname u = n" "u \<in> set (get_all (users st))"
    using assms(2) by (auto simp: get_user_by_name_def dest: get_by_field_Some)
  then obtain k where "get_by_key (users st) k = Some u"
    using gm_ok_cache [OF assms(1)] get_all_key by metis
  with n(1) user_ofD [OF assms(1)] show ?thesis by (auto simp: user_ok_def)
qed

lemma group_by_name:
  assumes "gm_ok st" "get_group_by_name st n = Some g"
  shows "gname g = n \<and> get_by_key (groups st) (gid g) = Some g"
proof -
  have n: "gname g = n" "g \<in> set (get_all (groups st))"
    using assms(2) by (auto simp: get_group_by_name_def dest: get_by_field_Some)
  then obtain k where "get_by_key (groups st) k = Some g"
    using gm_ok_cache [OF assms(1)] get_all_key by metis
  with n(1) group_ofD [OF assms(1)] show ?thesis by (auto simp: group_ok_def)
qed

lemma name_free:
  "get_group_by_name st n = None \<Longrightarrow> get_by_key (groups st) k = Some g \<Longrightarrow> gname g \<noteq> n"
  unfolding get_group_by_name_def get_by_field_None by (auto dest: get_in_all)

subsection \<open>Every state change keeps the invariant\<close>

lemma gm_ok_log [simp]: "gm_ok (push_log e u p op d st) = gm_ok st"
  by (simp add: push_log_def gm_ok_def pre_ok_def)

lemma save_user_ok:
  assumes "gm_ok st" "get_by_key (users st) (uid u) = Some old" "uname u = uname old"
    and "get_by_key (groups st) (group_id u) \<noteq> None" "status u \<in> set ALL_STATUS"
  shows "gm_ok (save_user u st)"
proof -
  let ?us = "get_by_key (save (uid u) u (users st))"
  have us: "?us j = (if j = uid u then Some u else get_by_key (users st) j)" for j
    using assms(2) by simp
  have "user_ok (get_by_key (groups st)) k x" if "?us k = Some x" for k x
    using user_store.put_all [OF assms(2) _ _ that, of "user_ok (get_by_key (groups st))"] assms
    by (auto simp: gm_ok_def pre_ok_def data_ok_def user_ok_def)
  moreover have "uniq_on uname ?us"
    using assms(1-3) by (intro user_store.put_uniq [OF assms(2)]) (auto simp: gm_ok_def pre_ok_def data_ok_def uniq_on_def)
  moreover have "has_admin ?us" using assms(1-3) unfolding has_admin_def us gm_ok_def by (metis option.inject)
  ultimately show ?thesis using assms(1) by (auto simp: gm_ok_def pre_ok_def data_ok_def save_user_def)
qed

lemma save_group_pre:
  assumes "pre_ok st" "get_by_key (groups st) (gid g) = Some old" "set (power_list g) \<subseteq> set ALL_POWER"
    and "gname g = gname old \<or> get_group_by_name st (gname g) = None"
  shows "pre_ok (save_group g st)"
proof -
  let ?gs = "get_by_key (save (gid g) g (groups st))"
  have gs: "?gs j = (if j = gid g then Some g else get_by_key (groups st) j)" for j
    using assms(2) by simp
  have "group_ok k x" if "?gs k = Some x" for k x
    using group_store.put_all [OF assms(2) _ _ that, of group_ok] assms
    by (auto simp: pre_ok_def data_ok_def group_ok_def)
  moreover have "uniq_on gname ?gs"
  proof (rule group_store.put_uniq [OF assms(2)])
    show "uniq_on gname (get_by_key (groups st))" using assms(1) by (simp add: pre_ok_def data_ok_def)
    then show "gname y \<noteq> gname g" if "get_by_key (groups st) j = Some y" "j \<noteq> gid g" for j y
      using assms(2,4) that name_free unfolding uniq_on_def by metis
  qed
  moreover have "user_ok ?gs k u" if "get_by_key (users st) k = Some u" for k u
    using assms(1) that unfolding pre_ok_def data_ok_def user_ok_def gs by auto
  ultimately show ?thesis using assms(1) by (auto simp: pre_ok_def data_ok_def save_group_def)
qed

lemma save_group_ok:
  assumes "gm_ok st" "get_by_key (groups st) (gid g) = Some old" "set (power_list g) \<subseteq> set ALL_POWER"
    and "gname g = gname old \<or> get_group_by_name st (gname g) = None"
  shows "gm_ok (save_group g st)"
  using save_group_pre [OF _ assms(2-4)] assms(1) by (simp add: gm_ok_def pre_ok_def save_group_def)

lemma create_user_ok:
  assumes "gm_ok st \<or> pre_ok st \<and> name = ''admin''"
    and "get_by_key (users st) (new_id e) = None" "get_group_by_key st g \<noteq> None" "stat \<in> set ALL_STATUS" "get_user_by_name st name = None"
  shows "\<exists>st'. create_user e name raw g nk stat st = Inr st' \<and> gm_ok st' \<and> groups st' = groups st"
proof -
  let ?u = "new_user e name raw g nk stat"
  have ok: "store_ok (users st)" "store_ok (groups st)"
    "data_ok (get_by_key (groups st)) (get_by_key (users st))"
    using assms(1) by (auto simp: gm_ok_def pre_ok_def)
  obtain us where us: "create uname (new_id e) ?u (users st) = Inr us"
    using assms(5) by (auto simp: create_Inr get_user_by_name_def new_user_def)
  have "user_ok (get_by_key (groups st)) k x" if "get_by_key us k = Some x" for k x
    using user_store.new_all [OF us _ _ that, of "user_ok (get_by_key (groups st))"] ok assms(3,4)
    by (auto simp: data_ok_def user_ok_def new_user_def get_group_by_key_def)
  moreover have "uniq_on uname (get_by_key us)"
    using user_store.new_uniq [OF us] ok by (simp add: pre_ok_def data_ok_def)
  moreover have "has_admin (get_by_key us)"
  proof (cases "name = ''admin''")
    case True
    then show ?thesis unfolding has_admin_def get_create [OF us]
      by (auto simp: new_user_def intro!: exI [of _ "new_id e"])
  next
    case False
    then have "has_admin (get_by_key (users st))" using assms(1) by (auto simp: gm_ok_def pre_ok_def)
    then show ?thesis using assms(2) unfolding has_admin_def get_create [OF us]
      by (metis option.distinct(1))
  qed
  moreover have "store_ok us" using store_ok_create [OF us ok(1)] assms(2) by simp
  ultimately have "gm_ok (st\<lparr>users := us\<rparr>)" using ok by (auto simp: gm_ok_def pre_ok_def data_ok_def)
  then show ?thesis using us assms(3) by (auto simp: create_user_def)
qed

lemma create_group_ok:
  assumes "pre_ok st" "get_by_key (groups st) i = None" "get_group_by_name st name = None"
  shows "\<exists>g st'. create_user_group i name info ps st = Inr (g, st') \<and> gid g = i \<and> users st' = users st \<and>
    get_group_by_key st' i = Some g \<and> pre_ok st'"
proof -
  obtain g where g: "gid g = i" "gname g = name" "power_list g = valid_powers ps" and
    c: "create_user_group i name info ps st = rbind (create gname i g (groups st)) (\<lambda>gs. Inr (g, st\<lparr>groups := gs\<rparr>))"
    unfolding create_user_group_def Let_def by (metis group.select_convs(1,3,5))
  obtain gs where gs: "create gname i g (groups st) = Inr gs"
    using assms(3) g(2) by (auto simp: create_Inr get_group_by_name_def)
  have "group_ok k x" if "get_by_key gs k = Some x" for k x
    using group_store.new_all [OF gs _ _ that, of group_ok] assms(1) g
    by (auto simp: pre_ok_def data_ok_def group_ok_def valid_powers_def)
  moreover have "uniq_on gname (get_by_key gs)"
    using group_store.new_uniq [OF gs] assms(1) by (simp add: pre_ok_def data_ok_def)
  moreover have "user_ok (get_by_key gs) k u" if "get_by_key (users st) k = Some u" for k u
    using assms(1) that unfolding pre_ok_def data_ok_def user_ok_def get_create [OF gs] by auto
  ultimately have "data_ok (get_by_key gs) (get_by_key (users st))" using assms(1) by (simp add: pre_ok_def data_ok_def)
  moreover have "store_ok gs" using assms(1) by (intro store_ok_create [OF gs _ assms(2)]) (simp add: pre_ok_def)
  moreover have "get_by_key gs i = Some g" using get_create [OF gs, of i] by simp
  ultimately show ?thesis using c gs g(1) assms(1) by (simp add: get_group_by_key_def pre_ok_def)
qed

lemma delete_one_user_ok:
  assumes "gm_ok st" "map_option uname (get_user_by_uid st k) \<noteq> Some ''admin''"
  shows "\<exists>names' st'. delete_one_user (names, st) k = Inr (names', st') \<and> gm_ok st' \<and>
    (\<forall>j. get_user_by_uid st' j = (if j = k then None else get_user_by_uid st j))"
proof (cases "get_user_by_uid st k")
  case None
  then show ?thesis using assms(1) by (auto simp: delete_one_user_def)
next
  case (Some u)
  then have u: "get_by_key (users st) k = Some u" "uid u = k"
    using user_ofD [OF assms(1)] by (auto simp: get_user_by_uid_def user_ok_def)
  then obtain us where us: "delete k (users st) = Inr us" by (auto simp: delete_Inr)
  have "user_ok (get_by_key (groups st)) j x" if "get_by_key us j = Some x" for j x
    using user_store.del_all [OF us _ that, of "user_ok (get_by_key (groups st))"] assms(1)
    by (auto simp: gm_ok_def pre_ok_def data_ok_def)
  moreover have "uniq_on uname (get_by_key us)"
    using user_store.del_uniq [OF us] assms(1) by (simp add: gm_ok_def pre_ok_def data_ok_def)
  moreover have "has_admin (get_by_key us)"
    using assms Some u(1) unfolding has_admin_def get_delete [OF us] gm_ok_def pre_ok_def by (metis option.map(2) option.inject)
  moreover have "store_ok us" using store_ok_delete [OF _ us] assms(1) by (simp add: gm_ok_def pre_ok_def)
  ultimately have "gm_ok (st\<lparr>users := us\<rparr>)" using assms(1) by (simp add: gm_ok_def pre_ok_def data_ok_def)
  then show ?thesis using Some us u(2) by (simp add: delete_one_user_def get_user_by_uid_def get_delete [OF us])
qed

lemma delete_users_ok:
  "gm_ok st \<Longrightarrow> \<forall>k \<in> set ks. map_option uname (get_user_by_uid st k) \<noteq> Some ''admin'' \<Longrightarrow>
   \<exists>names' st'. foldR delete_one_user (names, st) ks = Inr (names', st') \<and> gm_ok st'"
proof (induction ks arbitrary: names st)
  case (Cons k ks)
  then obtain names' st' where d: "delete_one_user (names, st) k = Inr (names', st')" "gm_ok st'"
    "\<forall>j. get_user_by_uid st' j = (if j = k then None else get_user_by_uid st j)"
    using delete_one_user_ok [of st k names] by auto
  have "\<forall>j \<in> set ks. map_option uname (get_user_by_uid st' j) \<noteq> Some ''admin''"
    using Cons.prems(2) d(3) by simp
  from Cons.IH [OF d(2) this] d(1) show ?case by simp
qed simp

lemma delete_refused_None:
  "delete_refused cu st ks = None \<longleftrightarrow>
   (\<forall>k \<in> set ks. k \<noteq> uid cu \<and> map_option uname (get_user_by_uid st k) \<noteq> Some ''admin'')"
  by (induction ks) auto

lemma get_member_Nil:
  "get_member g st = [] \<Longrightarrow> get_by_key (users st) k = Some u \<Longrightarrow> group_id u \<noteq> gid g"
  unfolding get_member_def filter_empty_conv by (auto dest: get_in_all)

lemma delete_one_group_ok:
  assumes "gm_ok st" "\<forall>j u. get_by_key (users st) j = Some u \<longrightarrow> group_id u \<noteq> k"
  shows "\<exists>names' st'. delete_one_group (names, st) k = Inr (names', st') \<and> gm_ok st' \<and> users st' = users st"
proof (cases "get_group_by_key st k")
  case None
  then show ?thesis using assms(1) by (auto simp: delete_one_group_def)
next
  case (Some g)
  then have g: "get_by_key (groups st) k = Some g" "gid g = k"
    using group_ofD [OF assms(1)] by (auto simp: get_group_by_key_def group_ok_def)
  then obtain gs where gs: "delete k (groups st) = Inr gs" by (auto simp: delete_Inr)
  have "group_ok j x" if "get_by_key gs j = Some x" for j x
    using group_store.del_all [OF gs _ that, of group_ok] assms(1) by (auto simp: gm_ok_def pre_ok_def data_ok_def)
  moreover have "uniq_on gname (get_by_key gs)"
    using group_store.del_uniq [OF gs] assms(1) by (simp add: gm_ok_def pre_ok_def data_ok_def)
  moreover have "user_ok (get_by_key gs) j u" if "get_by_key (users st) j = Some u" for j u
    using user_ofD [OF assms(1) that] assms(2) that unfolding user_ok_def get_delete [OF gs] by auto
  moreover have "store_ok gs" using store_ok_delete [OF _ gs] assms(1) by (simp add: gm_ok_def pre_ok_def)
  ultimately have "gm_ok (st\<lparr>groups := gs\<rparr>)" using assms(1) by (simp add: gm_ok_def pre_ok_def data_ok_def)
  then show ?thesis using Some gs g(2) by (simp add: delete_one_group_def)
qed

lemma delete_groups_ok:
  "gm_ok st \<Longrightarrow> \<forall>k \<in> set ks. \<forall>j u. get_by_key (users st) j = Some u \<longrightarrow> group_id u \<noteq> k \<Longrightarrow>
   \<exists>names' st'. foldR delete_one_group (names, st) ks = Inr (names', st') \<and> gm_ok st'"
proof (induction ks arbitrary: names st)
  case (Cons k ks)
  then obtain names' st' where d: "delete_one_group (names, st) k = Inr (names', st')" "gm_ok st'"
    "users st' = users st"
    using delete_one_group_ok [of st k names] by auto
  from Cons.IH [OF d(2)] Cons.prems(2) d(1,3) show ?case by simp
qed simp

lemma group_refused_None:
  assumes "gm_ok st" "group_refused st ks = None" "k \<in> set ks" "get_by_key (users st) j = Some u"
  shows "group_id u \<noteq> k"
proof
  assume "group_id u = k"
  then obtain g where g: "get_group_by_key st k = Some g"
    using user_ofD [OF assms(1,4)] by (auto simp: user_ok_def get_group_by_key_def)
  then have "gid g = k" using group_ofD [OF assms(1)] by (simp add: get_group_by_key_def group_ok_def)
  moreover have "get_member g st = []" using assms(2,3) g
    by (induction ks) (auto split: option.splits if_splits)
  ultimately show False using get_member_Nil [OF _ assms(4)] \<open>group_id u = k\<close> by blast
qed

subsection \<open>Every request succeeds and keeps the invariant\<close>

abbreviation served :: "(reply \<times> gm) res \<Rightarrow> bool" where
  "served r \<equiv> \<exists>rep st'. r = Inr (rep, st') \<and> gm_ok st'"

lemma user_render_ok: "gm_ok st \<Longrightarrow> u \<in> set (get_all (users st)) \<Longrightarrow> \<exists>x. user_render st u = Inr x"
proof -
  assume "gm_ok st" "u \<in> set (get_all (users st))"
  then obtain k where "user_ok (get_by_key (groups st)) k u"
    using gm_ok_cache [of st] get_all_key [of "users st" u] user_ofD [of st _ u] by blast
  then show ?thesis by (auto simp: user_render_def user_ok_def get_group_by_key_def)
qed

lemma mapR_total: "\<forall>x \<in> set xs. \<exists>y. f x = Inr y \<Longrightarrow> \<exists>ys. mapR f xs = Inr ys"
  by (induction xs) auto

lemma view_user_mgr_served: "gm_ok st \<Longrightarrow> served (view_user_mgr cu st)"
  using mapR_total [of "get_all (users st)" "user_render st"] user_render_ok
  by (fastforce simp: view_user_mgr_def)

lemma add_user_served: "gm_ok st \<Longrightarrow> fresh_id e st \<Longrightarrow> served (add_user e n raw nk gn stat cu st)"
proof (cases "get_user_by_name st n = None \<and> get_group_by_name st gn \<noteq> None \<and> stat \<in> set ALL_STATUS")
  case True
  assume ok: "gm_ok st" "fresh_id e st"
  from True obtain g where g: "get_group_by_name st gn = Some g" by auto
  have "get_group_by_key st (gid g) \<noteq> None" using group_by_name [OF ok(1) g] by (simp add: get_group_by_key_def)
  with True obtain st' where "create_user e n raw (gid g) nk stat st = Inr st'" "gm_ok st'"
    using create_user_ok [OF disjI1 [OF ok(1)] ok(2) [unfolded fresh_id_def, THEN conjunct2], of "gid g" stat n raw nk] by metis
  then show ?thesis using True g ok by (auto simp: add_user_def)
qed (auto simp: add_user_def split: option.splits)

lemma delete_user_served: "gm_ok st \<Longrightarrow> served (delete_user e ks cu st)"
  using delete_users_ok [of st ks "[]"] delete_refused_None [of cu st ks]
  by (auto simp: delete_user_def split: option.splits)

lemma modify_user_served: "gm_ok st \<Longrightarrow> served (modify_user e k raw nk gn stat cu st)"
proof -
  assume ok: "gm_ok st"
  have "served (Inr (Done, push_log e cu p op d (save_user (user_modify e u nk raw (gid g) stat) st)))"
    if "get_user_by_uid st k = Some u" "get_group_by_name st gn = Some g" "stat \<in> set ALL_STATUS" for u g p op d
    using that save_user_ok [OF ok, of "user_modify e u nk raw (gid g) stat" u] group_by_name [OF ok that(2)]
      user_ofD [OF ok, of k u] by (auto simp: user_modify_def get_user_by_uid_def user_ok_def)
  moreover have "get_group_by_key st (group_id u) \<noteq> None" if "get_user_by_uid st k = Some u" for u
    using that user_ofD [OF ok, of k u] by (auto simp: get_user_by_uid_def user_ok_def get_group_by_key_def)
  ultimately show ?thesis using ok by (auto simp: modify_user_def Let_def split: option.splits)
qed

lemma add_group_served: "gm_ok st \<Longrightarrow> fresh_id e st \<Longrightarrow> served (add_group e n i cu st)"
proof (cases "get_group_by_name st n")
  case None
  assume ok: "gm_ok st" "fresh_id e st"
  then obtain g st' where c: "create_user_group (new_id e) n i [] st = Inr (g, st')" "users st' = users st"
    "pre_ok st'"
    using create_group_ok [of st "new_id e" n i "[]"] None by (auto simp: gm_ok_def pre_ok_def fresh_id_def)
  then have "gm_ok st'" using ok(1) by (simp add: gm_ok_def pre_ok_def)
  then show ?thesis using None c(1) by (simp add: add_group_def)
qed (simp add: add_group_def)

lemma delete_group_served: "gm_ok st \<Longrightarrow> served (delete_group e ks cu st)"
proof (cases "group_refused st ks")
  case None
  assume ok: "gm_ok st"
  have "\<forall>k \<in> set ks. \<forall>j u. get_by_key (users st) j = Some u \<longrightarrow> group_id u \<noteq> k"
    using group_refused_None [OF ok None] by blast
  with delete_groups_ok [OF ok this, of "[]"] None show ?thesis by (auto simp: delete_group_def)
qed (simp add: delete_group_def)

lemma group_at: "gm_ok st \<Longrightarrow> get_group_by_key st k = Some g \<Longrightarrow>
    gid g = k \<and> get_by_key (groups st) (gid g) = Some g \<and> set (power_list g) \<subseteq> set ALL_POWER"
  using group_ofD [of st k g] by (auto simp: get_group_by_key_def group_ok_def)

lemma modify_group_served: "gm_ok st \<Longrightarrow> served (modify_group e k n i cu st)"
proof (cases "get_group_by_key st k")
  case (Some g)
  assume ok: "gm_ok st"
  let ?l = "push_log e cu PAGE_GROUP OP_MOD_GROUP (gname g @ ''=>'' @ n @ '', '' @ ginfo g @ ''=>'' @ i) st"
  have "get_group_by_name ?l x = get_group_by_name st x" "groups ?l = groups st" for x
    by (simp_all add: get_group_by_name_def push_log_def)
  then have "gm_ok (group_modify g n i ?l)" if "n = gname g \<or> get_group_by_name st n = None"
    using that group_at [OF ok Some] ok
    by (auto simp: group_modify_def intro!: save_group_ok)
  then show ?thesis using Some ok by (auto simp: modify_group_def)
qed (simp add: modify_group_def)

lemma set_power_served: "gm_ok st \<Longrightarrow> served (handle_set_power e k ps cu st)"
proof (cases "get_group_by_key st k")
  case (Some g)
  assume ok: "gm_ok st"
  have "gm_ok (set_power g qs st)" for qs
    unfolding set_power_def using group_at [OF ok Some]
    by (intro save_group_ok [OF ok]) (auto simp: valid_powers_def)
  then show ?thesis using Some by (simp add: handle_set_power_def Let_def)
qed (simp add: handle_set_power_def Let_def)

lemma login_post_served: "gm_ok st \<Longrightarrow> served (login_post e n raw st)"
proof (cases "get_user_by_name st n")
  case (Some u)
  assume ok: "gm_ok st"
  note u = user_by_name [OF ok Some] user_ofD [OF ok, of "uid u" u]
  have st1: "gm_ok (save_user (refresh_token e u) st)"
    using u by (intro save_user_ok [OF ok, of _ u]) (auto simp: refresh_token_def user_ok_def)
  have u1: "get_by_key (users (save_user (refresh_token e u) st)) (uid u) = Some (refresh_token e u)"
    using u by (simp add: save_user_def refresh_token_def)
  have ok1: "user_ok (get_by_key (groups (save_user (refresh_token e u) st))) (uid u) (refresh_token e u)"
    by (rule user_ofD [OF st1 u1])
  have "gm_ok (save_user (refresh_token e u\<lparr>last_login_ip := a, last_login_ts := b, login_ip := c, login_ts := d\<rparr>)
      (save_user (refresh_token e u) st))" for a b c d
    by (rule save_user_ok [OF st1, of _ "refresh_token e u"]) (use u1 ok1 in \<open>simp_all add: user_ok_def\<close>)
  then show ?thesis using Some ok by (simp add: login_post_def Let_def)
qed (simp add: login_post_def)

lemma curr_user: "get_curr_user e st = Some u \<Longrightarrow> get_user_by_uid st (the (cookie_uid e)) = Some u"
  by (auto simp: get_curr_user_def split: option.splits if_splits)

lemma change_password_served: "gm_ok st \<Longrightarrow> served (change_password e raw st)"
proof (cases "get_curr_user e st")
  case (Some u)
  assume ok: "gm_ok st"
  have "get_by_key (users st) (uid u) = Some u" "user_ok (get_by_key (groups st)) (uid u) u"
    using curr_user [OF Some] user_ofD [OF ok] by (auto simp: get_user_by_uid_def user_ok_def)
  then have "gm_ok (save_user (change_pwd e u raw) st)"
    by (intro save_user_ok [OF ok, of _ u]) (auto simp: change_pwd_def user_ok_def)
  then show ?thesis using Some ok by (simp add: change_password_def)
qed (simp add: change_password_def)

lemmas served_pages =
  view_user_mgr_served add_user_served delete_user_served modify_user_served add_group_served
  delete_group_served modify_group_served set_power_served

lemma page_served: "gm_ok st \<Longrightarrow> fresh_id e st \<Longrightarrow> served (page e r u st)"
  by (cases r) (auto intro: served_pages simp: view_group_mgr_def query_group_def split: option.splits)

lemma check_user_served:
  "gm_ok st \<Longrightarrow> (\<And>u. served (h u st)) \<Longrightarrow> served (check_user need e h st)"
  by (auto simp: check_user_def split: option.splits)


subsection \<open>Start of the server\<close>

lemma init_groups_ok:
  assumes "pre_ok (st\<lparr>groups := load_all (groups st)\<rparr>)" (is "pre_ok ?st1")
    and "get_by_key (load_all (groups st)) (new_id e) = None"
  shows "\<exists>g st'. init_groups e st = Inr (g, st') \<and> pre_ok st' \<and> users st' = users st \<and>
    get_group_by_key st' (gid g) \<noteq> None"
proof (cases "get_group_by_name ?st1 SUPER_ADMIN")
  case None
  have "get_by_key (groups ?st1) (new_id e) = None" using assms(2) by simp
  from create_group_ok [OF assms(1) this None, of SUPER_INFO ALL_POWER] obtain g st' where
    "create_user_group (new_id e) SUPER_ADMIN SUPER_INFO ALL_POWER ?st1 = Inr (g, st')" "gid g = new_id e"
    "users st' = users ?st1" "get_group_by_key st' (new_id e) = Some g" "pre_ok st'" by blast
  then show ?thesis using None by (simp add: init_groups_def)
next
  case (Some g)
  then have "g \<in> set (get_all (groups ?st1))" by (auto simp: get_group_by_name_def dest: get_by_field_Some)
  then obtain k where k: "get_by_key (groups ?st1) k = Some g"
    using get_all_key [of "groups ?st1"] assms(1) unfolding pre_ok_def store_ok_def by blast
  then have g: "get_by_key (groups ?st1) (gid g) = Some g" using assms(1)
    by (auto simp: pre_ok_def data_ok_def group_ok_def)
  then have "pre_ok (set_power g ALL_POWER ?st1)" unfolding set_power_def
    by (intro save_group_pre [OF assms(1)]) (auto simp: valid_powers_def)
  then show ?thesis using Some g
    by (simp add: init_groups_def set_power_def save_group_def get_group_by_key_def)
qed

lemma gm_swap: "groups_update f (users_update g st) = users_update g (groups_update f st)"
  by simp

lemma create_user_group_users:
  "create_user_group i n d ps (st\<lparr>users := us\<rparr>) =
   rbind (create_user_group i n d ps st) (\<lambda>(g, st'). Inr (g, st'\<lparr>users := us\<rparr>))"
  by (simp add: create_user_group_def Let_def rbind_assoc gm_swap)

lemma init_groups_users:
  "init_groups e (st\<lparr>users := us\<rparr>) = rbind (init_groups e st) (\<lambda>(g, st'). Inr (g, st'\<lparr>users := us\<rparr>))"
  by (simp add: init_groups_def Let_def create_user_group_users set_power_def save_group_def gm_swap
      get_group_by_name_def split: option.splits)

lemma init_groups_frame: "init_groups e st = Inr (g, s1) \<Longrightarrow> users s1 = users st"
  by (auto simp: init_groups_def create_user_group_def set_power_def save_group_def res_simps Let_def
      split: option.splits)

lemma init_gm_ok:
  assumes "cache (groups st) = []" "cache (users st) = []" "dict_ok (docs (groups st))" "dict_ok (docs (users st))"
    and "data_ok (map_of (docs (groups st))) (map_of (docs (users st)))"
    and "map_of (docs (groups st)) (new_id e) = None" "map_of (docs (users st)) (new_id e) = None"
  shows "\<exists>st'. init e st = Inr st' \<and> gm_ok st'"
proof -
  let ?us = "load_all (users st)"
  note load = load_all_ok [OF assms(3,1)] load_all_ok [OF assms(4,2)]
  have ld: "get_by_key (load_all (groups st)) = map_of (docs (groups st))" "get_by_key ?us = map_of (docs (users st))"
    using load by (simp_all add: get_by_key_def fun_eq_iff)
  have "pre_ok (st\<lparr>users := ?us\<rparr>\<lparr>groups := load_all (groups (st\<lparr>users := ?us\<rparr>))\<rparr>)"
    using load ld assms(5) by (simp add: pre_ok_def)
  moreover have "get_by_key (load_all (groups (st\<lparr>users := ?us\<rparr>))) (new_id e) = None"
    using ld assms(6) by simp
  ultimately obtain g sL where L: "init_groups e (st\<lparr>users := ?us\<rparr>) = Inr (g, sL)" "pre_ok sL" "users sL = ?us"
    "get_group_by_key sL (gid g) \<noteq> None" using init_groups_ok [of "st\<lparr>users := ?us\<rparr>" e] by auto
  then obtain s1 where s1: "init_groups e st = Inr (g, s1)" "sL = s1\<lparr>users := ?us\<rparr>"
    by (auto simp: init_groups_users res_simps split: prod.splits)
  have us1: "users s1 = users st" by (rule init_groups_frame [OF s1(1)])
  have fresh: "get_by_key (users sL) (new_id e) = None" using L(3) ld(2) assms(7) by simp
  show ?thesis
  proof (cases "get_user_by_name sL ''admin''")
    case None
    have "gm_ok sL \<or> pre_ok sL \<and> ''admin'' = ''admin''" using L(2) by simp
    from create_user_ok [OF this fresh L(4) _ None, of NORMAL "''admin''" "''admin''"] obtain st' where
      "create_user e ''admin'' ''admin'' (gid g) ''admin'' NORMAL sL = Inr st'" "gm_ok st'"
      by (auto simp: ALL_STATUS_def)
    then show ?thesis using s1 None us1 by (simp add: init_def Let_def)
  next
    case (Some u)
    have "u \<in> set (get_all (users sL))" "uname u = ''admin''"
      using Some by (auto simp: get_user_by_name_def dest: get_by_field_Some)
    moreover have "dict_ok (cache (users sL))" using L(2) by (simp add: pre_ok_def store_ok_def)
    ultimately have "has_admin (get_by_key (users sL))" by (auto simp: has_admin_def get_all_key)
    then show ?thesis using s1 Some us1 L(2) by (simp add: init_def Let_def gm_ok_def)
  qed
qed

text \<open>
  C11. Starting on any consistent database, an empty one included, succeeds and gives a consistent
  running server: the objects are loaded, and the first group and the account \<open>admin\<close> are made when
  they are missing.
\<close>

theorem init_establishes_ok:
  assumes "cache (groups st) = []" "cache (users st) = []" "dict_ok (docs (groups st))" "dict_ok (docs (users st))"
    and "data_ok (map_of (docs (groups st))) (map_of (docs (users st)))"
    and "map_of (docs (groups st)) (new_id e) = None" "map_of (docs (users st)) (new_id e) = None"
  shows "\<exists>st'. init e st = Inr st' \<and> gm_ok st'"
  by (rule init_gm_ok [OF assms])

definition empty_gm :: gm where
  "empty_gm = \<lparr>groups = empty_store, users = empty_store, oplog = []\<rparr>"

definition env0 :: "str \<Rightarrow> env" where
  "env0 i = \<lparr>now = 0, cookie_uid = None, cookie_token = None, new_id = i, rnd = ''ab'', md5 = rev\<rparr>"

lemma empty_gm_start:
  "cache (groups empty_gm) = []" "cache (users empty_gm) = []" "dict_ok (docs (groups empty_gm))"
  "dict_ok (docs (users empty_gm))" "data_ok (map_of (docs (groups empty_gm))) (map_of (docs (users empty_gm)))"
  "map_of (docs (groups empty_gm)) i = None" "map_of (docs (users empty_gm)) i = None"
  by (simp_all add: empty_gm_def empty_store_def data_ok_def uniq_on_def)

lemma init_establishes_ok_witness: "\<exists>st'. init (env0 ''1'') empty_gm = Inr st' \<and> gm_ok st'"
  by (rule init_establishes_ok) (rule empty_gm_start)+

definition first_group :: group where
  "first_group = \<lparr>gid = ''1'', num = 1, gname = SUPER_ADMIN, ginfo = SUPER_INFO, power_list = valid_powers ALL_POWER\<rparr>"

definition running :: gm where
  "running = \<lparr>groups = \<lparr>docs = [(''1'', first_group)], cache = [(''1'', first_group)]\<rparr>,
     users = (let u = new_user (env0 ''1'') ''admin'' ''admin'' ''1'' ''admin'' NORMAL in
       \<lparr>docs = [(''1'', u)], cache = [(''1'', u)]\<rparr>), oplog = []\<rparr>"

lemma running_start: "init (env0 ''1'') empty_gm = Inr running"
  by (simp add: init_def init_groups_def empty_gm_def empty_store_def load_all_def get_group_by_name_def
      get_by_field_def create_user_group_def get_all_def create_Inr create_def create_insert_def
      create_finish_def save_def Let_def env0_def get_user_by_name_def create_user_def get_group_by_key_def
      get_by_key_def running_def first_group_def new_user_def)

lemma running_ok: "gm_ok running"
  using init_gm_ok [OF empty_gm_start, of "env0 ''1''" for i] running_start by simp

lemma fresh_running: "fresh_id (env0 ''2'') running"
  by (simp add: fresh_id_def running_def env0_def get_by_key_def Let_def)


subsection \<open>Who may change what\<close>

text \<open>
  C9. A request for a guarded page changes nothing unless it carries the cookies of a live session:
  an account that exists and is not disabled, whose current token is the cookie and has not expired,
  and whose group holds the power the page needs.
\<close>

theorem handle_guarded:
  assumes "needs r = Some need" "handle e r st = Inr (rep, st')" "st' \<noteq> st"
  shows "\<exists>k u. cookie_uid e = Some k \<and> get_user_by_uid st k = Some u \<and> cookie_token e = Some (token u) \<and>
    now e < token_expire u \<and> status u \<noteq> DISABLED \<and> check_power st u need"
proof -
  have "handle e r st = check_user need e (page e r) st" using assms(1) by (cases r) auto
  then obtain u where u: "get_curr_user e st = Some u" "\<not> is_disabled u" "check_power st u need"
    using assms(2,3) by (auto simp: check_user_def split: option.splits if_splits)
  then show ?thesis
    by (auto simp: get_curr_user_def is_disabled_def split: option.splits if_splits)
qed

text \<open>
  The power expression of a page, alternatives (\<open>/\<close>) within a conjunction (\<open>,\<close>), is granted
  exactly when the account's group exists and holds one power of every alternative.
\<close>

theorem check_power_cnf:
  assumes "cs \<noteq> []" "\<forall>c \<in> set cs. c \<noteq> [] \<and> (\<forall>p \<in> set c. CHR '','' \<notin> set p \<and> CHR ''/'' \<notin> set p)"
  shows "check_power st u (join '','' (map (join ''/'') cs)) \<longleftrightarrow>
    (\<exists>g. get_group_by_key st (group_id u) = Some g \<and> (\<forall>c \<in> set cs. set c \<inter> set (power_list g) \<noteq> {}))"
proof -
  have chars: "set (join s xs) \<subseteq> set s \<union> \<Union> (set ` set xs)" for s and xs :: "str list"
    by (induction s xs rule: join.induct) auto
  have free: "\<forall>x \<in> set (map (join ''/'') cs). CHR '','' \<notin> set x"
    using assms(2) chars [of "''/''"] by fastforce
  have and_: "split_on '','' (join '','' (map (join ''/'') cs)) = map (join ''/'') cs"
    using split_join_single [OF _ free] assms(1) by simp
  have or_: "split_on ''/'' (join ''/'' c) = c" if "c \<in> set cs" for c
    using split_join_single [of c "CHR ''/''"] assms(2) that by auto
  have "list_all (\<lambda>power. list_ex (\<lambda>p. p \<in> set (power_list g)) (split_on ''/'' power))
      (split_on '','' (join '','' (map (join ''/'') cs))) \<longleftrightarrow> (\<forall>c \<in> set cs. set c \<inter> set (power_list g) \<noteq> {})" for g
    unfolding and_ list_all_iff list_ex_iff using or_ by auto
  then show ?thesis by (auto simp: check_power_def split: option.splits)
qed

lemma check_power_cnf_witness:
  "check_power running (new_user (env0 ''1'') ''admin'' ''admin'' ''1'' ''admin'' NORMAL)
     (join '','' (map (join ''/'') [[''player_query'', ''level_query''], [''version'']]))"
proof -
  have "get_group_by_key running ''1'' = Some first_group"
    by (simp add: get_group_by_key_def get_by_key_def running_def)
  moreover have "set [''player_query'', ''level_query''] \<inter> set (power_list first_group) \<noteq> {}"
    "set [''version''] \<inter> set (power_list first_group) \<noteq> {}"
    by (simp_all add: first_group_def valid_powers_def ALL_POWER_def)
  ultimately show ?thesis
    by (subst check_power_cnf) (simp_all add: new_user_def)
qed

subsection \<open>Sessions\<close>

text \<open>
  A successful login starts a session of exactly 24 hours: from then on, while the account is
  unchanged, the returned cookies identify it at every time before the expiry and at none after;
  any other token is refused.
\<close>

theorem login_session:
  assumes "gm_ok st" "login_post e name raw st = Inr (LoggedIn k t, st')" "k \<noteq> []" "cookie_uid e' = Some k"
  shows "\<exists>u. uname u = name \<and> pwd u = md5 e raw \<and> status u \<noteq> DISABLED \<and>
    get_curr_user e' st' = (if cookie_token e' = Some t \<and> now e' < now e + 24 * 3600 then Some u else None)"
proof -
  obtain u where u: "get_user_by_name st name = Some u" "check_pwd e u raw" "\<not> is_disabled u"
    using assms(2) by (auto simp: login_post_def split: option.splits if_splits)
  define u1 where "u1 = refresh_token e u"
  define u2 where "u2 = u1\<lparr>last_login_ip := login_ip u1, last_login_ts := login_ts u1,
                           login_ip := HOME_CITY, login_ts := now e\<rparr>"
  have st': "st' = save_user u2 (save_user u1 st)" "k = uid u" "t = rnd e"
    using assms(2) u by (auto simp: login_post_def Let_def u1_def u2_def refresh_token_def)
  have "get_by_key (users st) (uid u) = Some u" "uname u = name" using user_by_name [OF assms(1) u(1)] by simp_all
  then have "get_user_by_uid st' k = Some u2" unfolding st' save_user_def u1_def u2_def
    by (simp add: get_user_by_uid_def refresh_token_def)
  moreover have "uname u2 = name" "pwd u2 = md5 e raw" "status u2 \<noteq> DISABLED" "token u2 = t"
    "token_expire u2 = now e + 24 * 3600"
    using u \<open>uname u = name\<close> st'(3) by (simp_all add: u1_def u2_def refresh_token_def check_pwd_def is_disabled_def)
  ultimately show ?thesis using assms(3,4)
    by (intro exI [of _ u2]) (auto simp: get_curr_user_def)
qed

lemma login_session_witness:
  "\<exists>st' u. login_post (env0 ''2'') ''admin'' ''admin'' running = Inr (LoggedIn ''1'' ''ab'', st') \<and> uname u = ''admin'' \<and>
     get_curr_user ((env0 ''3'')\<lparr>cookie_uid := Some ''1'', cookie_token := Some ''ab'', now := 1000\<rparr>) st' = Some u"
proof -
  let ?e = "(env0 ''3'')\<lparr>cookie_uid := Some ''1'', cookie_token := Some ''ab'', now := 1000\<rparr>"
  obtain st' where l: "login_post (env0 ''2'') ''admin'' ''admin'' running = Inr (LoggedIn ''1'' ''ab'', st')"
    by (simp add: login_post_def running_def get_user_by_name_def get_by_field_def new_user_def env0_def
        check_pwd_def is_disabled_def NORMAL_def DISABLED_def utf8_def Let_def refresh_token_def)
  with login_session [OF running_ok l, of ?e] show ?thesis by (auto simp: env0_def)
qed

definition session_env :: env where
  "session_env = (env0 ''2'')\<lparr>cookie_uid := Some ''1'', cookie_token := Some ''ab'', now := 1000\<rparr>"

definition logged_in :: gm where
  "logged_in = running\<lparr>users := (let u = (new_user (env0 ''1'') ''admin'' ''admin'' ''1'' ''admin'' NORMAL)
       \<lparr>token := ''ab'', token_expire := 86400\<rparr> in \<lparr>docs = [(''1'', u)], cache = [(''1'', u)]\<rparr>)\<rparr>"

lemma logged_in_add_group:
  "\<exists>st'. handle session_env (AddGroup ''ops'' ''operators'') logged_in = Inr (Done, st') \<and> oplog st' \<noteq> []"
proof -
  have u: "get_curr_user session_env logged_in = Some ((new_user (env0 ''1'') ''admin'' ''admin'' ''1'' ''admin'' NORMAL)
       \<lparr>token := ''ab'', token_expire := 86400\<rparr>)" (is "_ = Some ?u")
    by (simp add: get_curr_user_def session_env_def logged_in_def get_user_by_uid_def get_by_key_def env0_def Let_def)
  have g: "get_group_by_key logged_in (group_id ?u) = Some first_group"
    by (simp add: get_group_by_key_def get_by_key_def logged_in_def running_def new_user_def)
  have "''group_mgr'' \<in> set (power_list first_group)"
    by (simp add: first_group_def valid_powers_def ALL_POWER_def)
  moreover have "split_on '','' ''group_mgr'' = [''group_mgr'']" "split_on ''/'' ''group_mgr'' = [''group_mgr'']"
    by (rule split_on_single_Nil, simp)+
  ultimately have p: "check_power logged_in ?u ''group_mgr''" using g by (simp add: check_power_def)
  have "\<not> is_disabled ?u" by (simp add: is_disabled_def new_user_def NORMAL_def DISABLED_def utf8_def)
  then have eq: "handle session_env (AddGroup ''ops'' ''operators'') logged_in =
      add_group session_env ''ops'' ''operators'' ?u logged_in"
    using u p by (simp add: check_user_def)
  have "\<exists>st'. add_group session_env ''ops'' ''operators'' ?u logged_in = Inr (Done, st') \<and> oplog st' \<noteq> []"
    by (simp add: add_group_def logged_in_def running_def get_group_by_name_def get_by_field_def first_group_def
        SUPER_ADMIN_def utf8_def create_user_group_def create_Inr create_def create_insert_def create_finish_def
        Let_def push_log_def)
  then show ?thesis unfolding eq .
qed

lemma handle_guarded_witness:
  "\<exists>rep st' u. handle session_env (AddGroup ''ops'' ''operators'') logged_in = Inr (rep, st') \<and> st' \<noteq> logged_in \<and>
     get_user_by_uid logged_in ''1'' = Some u \<and> check_power logged_in u ''group_mgr''"
proof -
  obtain st' where h: "handle session_env (AddGroup ''ops'' ''operators'') logged_in = Inr (Done, st')"
    "oplog st' \<noteq> []" using logged_in_add_group by blast
  have ne: "st' \<noteq> logged_in" using h(2) by (auto simp: logged_in_def running_def)
  have "needs (AddGroup ''ops'' ''operators'') = Some ''group_mgr''" by simp
  from handle_guarded [OF this h(1) ne] h(1) ne show ?thesis by (auto simp: session_env_def)
qed

end
