(* ===== verification/Op_Server.thy ===== *)
theory Op_Server
  imports Py_String
begin

text \<open>
  Remote operations on a game server: class \<open>Server\<close> of \<^verbatim>\<open>dev_http/op_server.py\<close> and of its
  reduced copy \<^verbatim>\<open>gm_server/op_server.py\<close> (restart only). An operation is a background task, a
  list of actions still to do; a request only takes the lock and starts the task. The steps of the
  tasks, the requests, and the log reader interleave in any order. What a shell command does and
  prints, and the clock, are outcomes handed to the step.
\<close>

datatype variant = Dev | Gm

datatype act =
    Log str | Cmd "str list" | CmdLimited "str list" | KillIfAlive | SetTime | DropDatabase

record server =
  server_id :: int
  op_lock :: bool
  op_log :: "str list"
  status :: str
  stime :: str
  cmds :: "str list list"
  tasks :: "act list list"

definition new_server :: "int \<Rightarrow> str \<Rightarrow> server" where
  "new_server i t = \<lparr>server_id = i, op_lock = False, op_log = [], status = [], stime = t, cmds = [], tasks = []\<rparr>"

definition LF :: str where
  "LF = [CHR 0x0A]"

definition SHUT_BEGIN :: str where "SHUT_BEGIN = utf8 [0x3d, 0x3d, 0x3d, 0x3d, 0x3d, 0x3d, 0x3d, 0x3d, 0x3d, 0x3d, 0x3d, 0x3d, 0xe5, 0x85,
    0xb3, 0xe9, 0x97, 0xad, 0xe6, 0x9c, 0x8d, 0xe5, 0x8a, 0xa1, 0xe5, 0x99, 0xa8, 0xe5, 0xbc,
    0x80, 0xe5, 0xa7, 0x8b]"
definition SHUT_FORCE :: str where "SHUT_FORCE = utf8 [0x3d, 0x3d, 0x3d, 0x3d, 0x3d, 0x3d, 0x3d, 0x3d, 0x3d, 0x3d, 0x3d, 0x3d, 0xe5, 0xbc,
    0xba, 0xe5, 0x88, 0xb6, 0xe5, 0x85, 0xb3, 0xe9, 0x97, 0xad, 0xe6, 0x9c, 0x8d, 0xe5, 0x8a,
    0xa1, 0xe5, 0x99, 0xa8]"
definition SHUT_END :: str where "SHUT_END = utf8 [0x3d, 0x3d, 0x3d, 0x3d, 0x3d, 0x3d, 0x3d, 0x3d, 0x3d, 0x3d, 0x3d, 0x3d, 0xe5, 0x85,
    0xb3, 0xe9, 0x97, 0xad, 0xe6, 0x9c, 0x8d, 0xe5, 0x8a, 0xa1, 0xe5, 0x99, 0xa8, 0xe7, 0xbb,
    0x93, 0xe6, 0x9d, 0x9f]"
definition EXCEL_BEGIN :: str where "EXCEL_BEGIN = utf8 [0x3d, 0x3d, 0x3d, 0x3d, 0x3d, 0x3d, 0x3d, 0x3d, 0x3d, 0x3d, 0x3d, 0x3d, 0xe6, 0x9b,
    0xb4, 0xe6, 0x96, 0xb0, 0xe9, 0x85, 0x8d, 0xe7, 0xbd, 0xae, 0xe8, 0xa1, 0xa8, 0xe5, 0xbc,
    0x80, 0xe5, 0xa7, 0x8b]"
definition EXCEL_END :: str where "EXCEL_END = utf8 [0x3d, 0x3d, 0x3d, 0x3d, 0x3d, 0x3d, 0x3d, 0x3d, 0x3d, 0x3d, 0x3d, 0x3d, 0xe6, 0x9b,
    0xb4, 0xe6, 0x96, 0xb0, 0xe9, 0x85, 0x8d, 0xe7, 0xbd, 0xae, 0xe8, 0xa1, 0xa8, 0xe7, 0xbb,
    0x93, 0xe6, 0x9d, 0x9f]"
definition START_BEGIN :: str where "START_BEGIN = utf8 [0x3d, 0x3d, 0x3d, 0x3d, 0x3d, 0x3d, 0x3d, 0x3d, 0x3d, 0x3d, 0x3d, 0x3d, 0xe5, 0x90,
    0xaf, 0xe5, 0x8a, 0xa8, 0xe6, 0x9c, 0x8d, 0xe5, 0x8a, 0xa1, 0xe5, 0x99, 0xa8, 0xe5, 0xbc,
    0x80, 0xe5, 0xa7, 0x8b]"
definition START_END :: str where "START_END = utf8 [0x3d, 0x3d, 0x3d, 0x3d, 0x3d, 0x3d, 0x3d, 0x3d, 0x3d, 0x3d, 0x3d, 0x3d, 0xe5, 0x90,
    0xaf, 0xe5, 0x8a, 0xa8, 0xe6, 0x9c, 0x8d, 0xe5, 0x8a, 0xa1, 0xe5, 0x99, 0xa8, 0xe7, 0xbb,
    0x93, 0xe6, 0x9d, 0x9f]"
definition DROP_DB :: str where "DROP_DB = utf8 [0x3d, 0x3d, 0x3d, 0x3d, 0x3d, 0x3d, 0x3d, 0x3d, 0x3d, 0x3d, 0x3d, 0x3d, 0xe5, 0x88,
    0xa0, 0xe9, 0x99, 0xa4, 0xe6, 0x95, 0xb0, 0xe6, 0x8d, 0xae, 0xe5, 0xba, 0x93, 0x3a]"
definition BUSY :: str where "BUSY = utf8 [0xe5, 0x85, 0xb6, 0xe4, 0xbb, 0x96, 0xe4, 0xba, 0xba, 0xe6, 0xad, 0xa3, 0xe5, 0x9c,
    0xa8, 0xe6, 0x93, 0x8d, 0xe4, 0xbd, 0x9c, 0xe8, 0xbf, 0x99, 0xe4, 0xb8, 0xaa, 0xe6, 0x9c,
    0x8d, 0xe5, 0x8a, 0xa1, 0xe5, 0x99, 0xa8, 0xef, 0xbc, 0x8c, 0xe8, 0xaf, 0xb7, 0xe8, 0xbf,
    0x87, 0xe4, 0xbc, 0x9a, 0xe5, 0x86, 0x8d, 0xe8, 0xaf, 0x95]"
definition UNSUPPORTED :: str where "UNSUPPORTED = utf8 [0xe6, 0x9a, 0x82, 0xe4, 0xb8, 0x8d, 0xe6, 0x94, 0xaf, 0xe6, 0x8c, 0x81, 0xe6, 0xad,
    0xa4, 0xe6, 0x93, 0x8d, 0xe4, 0xbd, 0x9c]"
definition CLOSED :: str where "CLOSED = utf8 [0xe5, 0x85, 0xb3, 0xe9, 0x97, 0xad]"
definition RUNNING :: str where "RUNNING = utf8 [0xe8, 0xbf, 0x90, 0xe8, 0xa1, 0x8c]"
definition ABNORMAL :: str where "ABNORMAL = utf8 [0xe5, 0xbc, 0x82, 0xe5, 0xb8, 0xb8]"
definition BAD_ID :: str where "BAD_ID = utf8 [0x73, 0x65, 0x72, 0x76, 0x65, 0x72, 0x5f, 0x69, 0x64, 0xe9, 0x94, 0x99, 0xe8, 0xaf,
    0xaf]"
definition BAD_DIR :: str where "BAD_DIR = utf8 [0x73, 0x65, 0x72, 0x76, 0x65, 0x72, 0xe7, 0x9b, 0xae, 0xe5, 0xbd, 0x95, 0xe9, 0x94,
    0x99, 0xe8, 0xaf, 0xaf]"

subsection \<open>The log and the status\<close>

definition put_log :: "str \<Rightarrow> server \<Rightarrow> server" where
  "put_log l s = s\<lparr>op_log := op_log s @ [l]\<rparr>"

definition clear_log :: "server \<Rightarrow> server" where
  "clear_log s = s\<lparr>op_log := []\<rparr>"

definition fetch_log :: "server \<Rightarrow> str list \<times> server" where
  "fetch_log s = (concat (map (split_on LF) (op_log s)), s\<lparr>op_log := []\<rparr>)"

definition alive_lines :: "str \<Rightarrow> str list" where
  "alive_lines out = filter (\<lambda>l. \<not> contains ''grep'' l \<and> strip l \<noteq> []) (split_on LF out)"

definition check_status :: "str \<Rightarrow> server \<Rightarrow> server" where
  "check_status out s =
     (let n = length (alive_lines out) in
      s\<lparr>status := (if n = 0 then CLOSED else if 2 \<le> n then RUNNING else ABNORMAL)\<rparr>)"

subsection \<open>Dropping the database\<close>

text \<open>The \<open>key = value\<close> lines of the server's configuration file.\<close>

definition conf_line :: "(str \<times> str) list \<Rightarrow> str \<Rightarrow> (str \<times> str) list res" where
  "conf_line conf l0 =
     (let l = strip l0 in
      if \<not> contains ''='' l then Inr conf
      else case map strip (split_on ''='' l) of
        [k, v] \<Rightarrow> Inr (AList.update k v conf)
      | _ \<Rightarrow> Inl ValueError)"

definition unquote :: "str \<Rightarrow> str" where
  "unquote v = replace_sub [CHR 0x22] [] (replace_sub [CHR 0x27] [] (strip v))"

definition db_target :: "str list \<Rightarrow> (str \<times> str \<times> int \<times> str \<times> str) res" where
  "db_target ls =
     rbind (foldR conf_line [] ls) (\<lambda>conf.
     rbind (dict_get conf ''gamedb'') (\<lambda>db0.
     if db0 = [] then Inl AssertionError else
     rbind (dict_get conf ''db_host'') (\<lambda>host.
     rbind (dict_get conf ''db_port'') (\<lambda>port.
     rbind (dict_get conf ''db_user'') (\<lambda>usr.
     rbind (dict_get conf ''db_passwd'') (\<lambda>pw.
     rbind (int_of (unquote port)) (\<lambda>p.
       Inr (unquote db0, unquote host, p, unquote usr, unquote pw))))))))"

subsection \<open>Tasks\<close>

datatype outcome = Fine | Raises str | PsOutput str | Clock str | ConfFile "str list"

definition id_str :: "server \<Rightarrow> str" where
  "id_str s = int_str (server_id s)"

definition shutdown_cmd :: "server \<Rightarrow> str list" where
  "shutdown_cmd s = [''python'', ''-u'', ''shutdown_server.py'', id_str s]"

definition start_cmd :: "server \<Rightarrow> str list" where
  "start_cmd s = [''python'', ''-u'', ''start_server.py'', id_str s]"

definition svn_up :: "str \<Rightarrow> str list" where
  "svn_up d = [''svn'', ''up'', d, ''--accept theirs-full'']"

definition shut_server :: "server \<Rightarrow> act list" where
  "shut_server s = [Log SHUT_BEGIN, CmdLimited (shutdown_cmd s), KillIfAlive, Log SHUT_END]"

definition reload_exceldata :: "act list" where
  "reload_exceldata = [Log EXCEL_BEGIN, Cmd (svn_up ''../sharedata''), Cmd [''make''], Log EXCEL_END]"

definition start_server :: "server \<Rightarrow> act list" where
  "start_server s = [SetTime, Log START_BEGIN, Cmd (svn_up ''.''), Cmd (start_cmd s), Log START_END]"

text \<open>The task of an operation; \<open>None\<close> for an unknown one.\<close>

definition op_task :: "variant \<Rightarrow> server \<Rightarrow> str \<Rightarrow> act list option" where
  "op_task v s op =
     (case v of
        Dev \<Rightarrow>
          if op = ''restart'' then Some (shut_server s @ reload_exceldata @ start_server s)
          else if op = ''reload_exceldata'' then Some reload_exceldata
          else if op = ''del_database'' then Some (shut_server s @ [DropDatabase] @ start_server s)
          else None
      | Gm \<Rightarrow> if op = ''restart'' then Some (shut_server s @ start_server s) else None)"

definition run_cmd :: "str list \<Rightarrow> server \<Rightarrow> server" where
  "run_cmd c s = s\<lparr>cmds := cmds s @ [c]\<rparr>"

text \<open>One action; \<open>Inl\<close> is the text of the exception.\<close>

fun do_act :: "act \<Rightarrow> outcome \<Rightarrow> server \<Rightarrow> str + server" where
  "do_act a (Raises e) s = (case a of Log l \<Rightarrow> Inr (put_log l s) | _ \<Rightarrow> Inl e)"
| "do_act (Log l) _ s = Inr (put_log l s)"
| "do_act (Cmd c) _ s = Inr (run_cmd c s)"
| "do_act (CmdLimited c) _ s = Inr (run_cmd c s)"
| "do_act KillIfAlive (PsOutput out) s =
     (if alive_lines out = [] then Inr s
      else Inr (run_cmd (shutdown_cmd s @ [''--kill'']) (put_log SHUT_FORCE s)))"
| "do_act KillIfAlive _ s = Inl ''CalledProcessError''"
| "do_act SetTime (Clock t) s = Inr (s\<lparr>stime := t\<rparr>)"
| "do_act SetTime _ s = Inr s"
| "do_act DropDatabase (ConfFile ls) s =
     (case db_target ls of
        Inl e \<Rightarrow> Inl ''config''
      | Inr (db, host, port, usr, pw) \<Rightarrow> Inr (run_cmd [''drop database '' @ db] (put_log (DROP_DB @ db) s)))"
| "do_act DropDatabase _ s = Inl ''IOError''"

subsection \<open>Requests\<close>

definition op_server :: "variant \<Rightarrow> str \<Rightarrow> server \<Rightarrow> (bool \<times> str) \<times> server" where
  "op_server v op s =
     (if op_lock s then ((False, BUSY), s)
      else let s1 = clear_log (s\<lparr>op_lock := True\<rparr>) in
        case op_task v s op of
          None \<Rightarrow> ((False, UNSUPPORTED), s1)
        | Some t \<Rightarrow> ((True, []), s1\<lparr>tasks := tasks s1 @ [t]\<rparr>))"

text \<open>\<open>reload_exceldata\<close> as a method: it asserts that the lock is free.\<close>

definition call_reload :: "server \<Rightarrow> server res" where
  "call_reload s =
     (if op_lock s then Inl AssertionError
      else let s1 = clear_log (s\<lparr>op_lock := True\<rparr>) in Inr (s1\<lparr>tasks := tasks s1 @ [reload_exceldata]\<rparr>))"

text \<open>
  The module's list of servers and its entry points; whether the server's directory exists is
  a parameter.
\<close>

definition get_server :: "server list \<Rightarrow> int \<Rightarrow> server option" where
  "get_server ss i = List.find (\<lambda>s. server_id s = i) ss"

definition put_server :: "server \<Rightarrow> server list \<Rightarrow> server list" where
  "put_server s ss = map (\<lambda>x. if server_id x = server_id s then s else x) ss"

definition do_op :: "(int \<Rightarrow> bool) \<Rightarrow> str \<Rightarrow> int \<Rightarrow> server list \<Rightarrow> (bool \<times> str) \<times> server list" where
  "do_op isdir op i ss =
     (case get_server ss i of
        None \<Rightarrow> ((False, BAD_ID), ss)
      | Some s \<Rightarrow>
          if \<not> isdir i then ((False, BAD_DIR), ss)
          else (case op_server Dev op s of (r, s') \<Rightarrow> (r, put_server s' ss)))"

definition check_server_op :: "int \<Rightarrow> server list \<Rightarrow> ((bool \<times> str list) \<times> server list) res" where
  "check_server_op i ss =
     (case get_server ss i of
        None \<Rightarrow> Inl AssertionError
      | Some s \<Rightarrow> (case fetch_log s of (ls, s') \<Rightarrow> Inr ((\<not> op_lock s, ls), put_server s' ss)))"

subsection \<open>Interleaving\<close>

definition end_task :: "nat \<Rightarrow> server \<Rightarrow> server" where
  "end_task i s = s\<lparr>op_lock := False, tasks := take i (tasks s) @ drop (Suc i) (tasks s)\<rparr>"

inductive op_step :: "variant \<Rightarrow> server \<Rightarrow> server \<Rightarrow> bool" for v where
  request: "op_server v op s = (r, s') \<Longrightarrow> op_step v s s'"
| direct: "v = Dev \<Longrightarrow> call_reload s = Inr s' \<Longrightarrow> op_step v s s'"
| run: "i < length (tasks s) \<Longrightarrow> tasks s ! i = a # as \<Longrightarrow> do_act a out s = Inr s' \<Longrightarrow>
    op_step v s (s'\<lparr>tasks := (tasks s')[i := as]\<rparr>)"
| raise: "i < length (tasks s) \<Longrightarrow> tasks s ! i = a # as \<Longrightarrow> do_act a out s = Inl e \<Longrightarrow>
    op_step v s (end_task i (put_log e s))"
| finish: "i < length (tasks s) \<Longrightarrow> tasks s ! i = [] \<Longrightarrow> op_step v s (end_task i s)"
| read_log: "op_step v s (put_log l s)"
| watch: "op_step v s (check_status out s)"
| fetch: "op_step v s (snd (fetch_log s))"

inductive_cases op_stepE: "op_step v s s'"

lemma do_act_frame:
  "do_act a out s = Inr s' \<Longrightarrow> tasks s' = tasks s \<and> op_lock s' = op_lock s \<and> server_id s' = server_id s"
  by (induction a out s rule: do_act.induct)
    (auto simp: put_log_def run_cmd_def split: act.splits if_splits sum.splits prod.splits)

subsection \<open>One operation at a time\<close>

text \<open>
  What a server with a lock promises: a task starts only while the lock is free and takes it, the
  lock stays while the number of tasks does, and the lock is released only by the end of a task.
\<close>

locale op_mutex =
  fixes step :: "'s \<Rightarrow> 's \<Rightarrow> bool" and locked :: "'s \<Rightarrow> bool" and running :: "'s \<Rightarrow> nat"
  assumes start: "step s t \<Longrightarrow> running s < running t \<Longrightarrow> \<not> locked s \<and> locked t \<and> running t = Suc (running s)"
    and hold: "step s t \<Longrightarrow> running t = running s \<Longrightarrow> locked s \<Longrightarrow> locked t"
    and release: "step s t \<Longrightarrow> running t < running s \<Longrightarrow> running s = Suc (running t)"
begin

lemma step_inv:
  assumes "step s t" "running s \<le> 1 \<and> (running s = 1 \<longrightarrow> locked s)"
  shows "running t \<le> 1 \<and> (running t = 1 \<longrightarrow> locked t)"
proof (cases "running s" "running t" rule: linorder_cases)
  case less
  then show ?thesis using start [OF assms(1)] assms(2) by auto
next
  case equal
  then show ?thesis using hold [OF assms(1)] assms(2) by auto
next
  case greater
  then show ?thesis using release [OF assms(1)] assms(2) by auto
qed

lemma reachable_inv:
  assumes "step\<^sup>*\<^sup>* s t" "running s = 0"
  shows "running t \<le> 1 \<and> (running t = 1 \<longrightarrow> locked t)"
  using assms by (induction rule: rtranclp_induct) (auto dest: step_inv)

text \<open>A lock that is held by no task is never released.\<close>

lemma stuck:
  assumes "step\<^sup>*\<^sup>* s t" "locked s" "running s = 0"
  shows "locked t \<and> running t = 0"
  using assms
proof (induction rule: rtranclp_induct)
  case (step t u)
  then have t: "locked t" "running t = 0" by auto
  have "running u = running t"
  proof (cases "running t" "running u" rule: linorder_cases)
    case less
    then show ?thesis using start [OF step(2)] t by simp
  next
    case greater
    then show ?thesis using t by simp
  qed simp
  then show ?case using hold [OF step(2)] t by simp
qed simp

end

lemma op_step_tasks:
  assumes "op_step v s t"
  shows "(length (tasks t) = length (tasks s) \<and> (op_lock s \<longrightarrow> op_lock t)) \<or>
    (length (tasks t) = Suc (length (tasks s)) \<and> \<not> op_lock s \<and> op_lock t) \<or>
    (length (tasks s) = Suc (length (tasks t)))"
  using assms
proof (induction rule: op_step.induct)
  case (request op s r s')
  then show ?case by (auto simp: op_server_def clear_log_def Let_def split: if_splits option.splits)
next
  case (direct s s')
  then show ?case by (auto simp: call_reload_def clear_log_def Let_def split: if_splits)
next
  case (run i s a as out s')
  then show ?case using do_act_frame [OF run(3)] by simp
qed (auto simp: end_task_def put_log_def check_status_def Let_def fetch_log_def)

interpretation dev_ops: op_mutex "op_step Dev" op_lock "\<lambda>s. length (tasks s)"
  by unfold_locales (use op_step_tasks in fastforce)+

interpretation gm_ops: op_mutex "op_step Gm" op_lock "\<lambda>s. length (tasks s)"
  by unfold_locales (use op_step_tasks in fastforce)+

text \<open>
  C12. At most one operation runs on a game server at any time, in every interleaving of requests,
  background tasks, log readers and exceptions, and the lock is held whenever one runs. This holds
  for the development server and for the management server.
\<close>

theorem one_operation_at_a_time:
  assumes "(op_step v)\<^sup>*\<^sup>* (new_server i t) s"
  shows "length (tasks s) \<le> 1 \<and> (tasks s \<noteq> [] \<longrightarrow> op_lock s)"
proof -
  have "length (tasks s) \<le> 1 \<and> (length (tasks s) = 1 \<longrightarrow> op_lock s)"
    using assms dev_ops.reachable_inv gm_ops.reachable_inv by (cases v) (auto simp: new_server_def)
  then show ?thesis by (cases "tasks s") auto
qed

definition first_request :: server where
  "first_request = snd (op_server Gm ''restart'' (new_server 55 []))"

lemma one_operation_at_a_time_witness:
  "(op_step Gm)\<^sup>*\<^sup>* (new_server 55 []) first_request \<and> length (tasks first_request) = 1 \<and> op_lock first_request"
proof -
  have run: "(op_step Gm)\<^sup>*\<^sup>* (new_server 55 []) first_request"
    unfolding first_request_def by (rule r_into_rtranclp, rule op_step.request) (rule surjective_pairing)
  have "tasks first_request \<noteq> []"
    by (simp add: first_request_def op_server_def new_server_def clear_log_def Let_def op_task_def)
  with one_operation_at_a_time [OF run] run show ?thesis by (cases "tasks first_request") auto
qed

text \<open>
  C13. An operation name the server does not know is refused, yet it leaves the lock taken with no
  task to release it: from then on, whatever happens, every operation on this server is refused as
  busy.
\<close>

theorem unknown_op_locks_forever:
  assumes "op_task v s op = None" "\<not> op_lock s" "tasks s = []" "(op_step v)\<^sup>*\<^sup>* (snd (op_server v op s)) s'"
  shows "fst (op_server v op s) = (False, UNSUPPORTED) \<and> (\<forall>op'. op_server v op' s' = ((False, BUSY), s'))"
proof -
  have r: "op_server v op s = ((False, UNSUPPORTED), clear_log (s\<lparr>op_lock := True\<rparr>))"
    using assms(1,2) by (simp add: op_server_def Let_def)
  have "op_lock (snd (op_server v op s))" "length (tasks (snd (op_server v op s))) = 0"
    using assms(3) by (simp_all add: r clear_log_def)
  then have "op_lock s'" using assms(4) dev_ops.stuck gm_ops.stuck by (cases v) blast+
  then show ?thesis using r by (simp add: op_server_def)
qed

lemma unknown_op_locks_forever_witness:
  "op_server Gm ''restart'' (snd (op_server Gm ''reload_exceldata'' (new_server 55 []))) =
   ((False, BUSY), snd (op_server Gm ''reload_exceldata'' (new_server 55 [])))"
  using unknown_op_locks_forever [of Gm "new_server 55 []" "''reload_exceldata''"]
  by (simp add: op_task_def new_server_def)

text \<open>Running a task alone, given what each action meets.\<close>

fun run_task :: "(act \<times> outcome) list \<Rightarrow> server \<Rightarrow> server" where
  "run_task [] s = end_task 0 s"
| "run_task ((a, out) # as) s =
     (case do_act a out s of
        Inl e \<Rightarrow> end_task 0 (put_log e s)
      | Inr s' \<Rightarrow> run_task as (s'\<lparr>tasks := [map fst as]\<rparr>))"


definition restart_outcomes :: "str \<Rightarrow> str \<Rightarrow> act \<Rightarrow> outcome" where
  "restart_outcomes ps t a = (case a of KillIfAlive \<Rightarrow> PsOutput ps | SetTime \<Rightarrow> Clock t | _ \<Rightarrow> Fine)"

text \<open>
  A restart whose commands all run shuts the server down, kills it only if a process is still
  alive after that, updates the tables (on the development server) and starts it again, in this
  order.
\<close>

theorem restart_commands:
  "op_task v s ''restart'' = Some as \<Longrightarrow>
   cmds (run_task (map (\<lambda>a. (a, restart_outcomes ps t a)) as) s) = cmds s @ [shutdown_cmd s]
     @ (if alive_lines ps = [] then [] else [shutdown_cmd s @ [''--kill'']])
     @ (if v = Dev then [svn_up ''../sharedata'', [''make'']] else []) @ [svn_up ''.'', start_cmd s]"
  by (cases v) (auto simp: op_task_def shut_server_def reload_exceldata_def start_server_def
      restart_outcomes_def put_log_def run_cmd_def end_task_def shutdown_cmd_def id_str_def)

lemma restart_commands_witness:
  "\<exists>as. op_task Gm (new_server 55 []) ''restart'' = Some as \<and>
     cmds (run_task (map (\<lambda>a. (a, restart_outcomes [] [] a)) as) (new_server 55 [])) =
       [shutdown_cmd (new_server 55 []), svn_up ''.'', start_cmd (new_server 55 [])]"
proof -
  have t: "op_task Gm (new_server 55 []) ''restart'' = Some (shut_server (new_server 55 []) @ start_server (new_server 55 []))"
    by (simp add: op_task_def)
  have "alive_lines [] = []" by (simp add: alive_lines_def LF_def split_on_single_Nil strip_def)
  with restart_commands [OF t, of "[]" "[]"] t show ?thesis by (simp add: new_server_def)
qed


subsection \<open>The development pages\<close>

text \<open>
  \<^verbatim>\<open>dev_http/main.py\<close>: client errors are counted by message, with the time of the last one
  (seconds); the list page shows the latest first.
\<close>

type_synonym client_errors = "(str \<times> int \<times> int) list"

definition client_error :: "int \<Rightarrow> str \<Rightarrow> client_errors \<Rightarrow> client_errors" where
  "client_error ts msg ce =
     (if msg = [] then ce
      else case map_of ce msg of
        None \<Rightarrow> AList.update msg (1, ts) ce
      | Some (n, _) \<Rightarrow> AList.update msg (n + 1, ts) ce)"

definition all_client_error :: "(int \<Rightarrow> str) \<Rightarrow> client_errors \<Rightarrow> str" where
  "all_client_error fmt ce =
     join ''<br>'' (concat (map (\<lambda>(msg, n, ts). [fmt ts @ ''   ====>'' @ int_str n @ ''<===='', msg])
       (sort_key (\<lambda>(msg, n, ts). - ts) ce)))"

definition do_op_server :: "(int \<Rightarrow> bool) \<Rightarrow> str \<Rightarrow> str \<Rightarrow> server list \<Rightarrow> (str option \<times> server list) res" where
  "do_op_server isdir sid op ss =
     rbind (int_of sid) (\<lambda>i.
       case do_op isdir op i ss of ((ok, err), ss') \<Rightarrow> Inr (if ok then None else Some err, ss'))"

definition handle_check_server_op :: "str \<Rightarrow> server list \<Rightarrow> ((bool \<times> str list) \<times> server list) res" where
  "handle_check_server_op sid ss = rbind (int_of sid) (\<lambda>i. check_server_op i ss)"

text \<open>
  The page of client errors counts every report: after any sequence of reports each reported
  message has the number of its reports and the time of its last one, and no other message is
  listed.
\<close>

theorem client_error_counts:
  "map_of (fold (\<lambda>(ts, m). client_error ts m) reports []) msg =
     (let mine = filter (\<lambda>(ts, m). m = msg) reports in
      if msg = [] \<or> mine = [] then None else Some (int (length mine), fst (last mine)))"
proof (induction reports rule: rev_induct)
  case (snoc r reports)
  obtain ts m where r: "r = (ts, m)" by (cases r)
  then show ?case using snoc by (auto simp: client_error_def Let_def split: option.splits if_splits)
qed simp

end
