(* ===== verification/Gm_Router.thy ===== *)
theory Gm_Router
  imports Gm_Users
begin

text \<open>
  What the pages of the management server share: the parameters of a request, the signed call to
  the GM router (\<^verbatim>\<open>common_utils.py\<close>: \<open>req_gm_router\<close>, \<open>call_gm\<close>, \<open>role_mail\<close>, \<open>global_mail\<close>),
  the shape of the answers, and the guard in front of a page. The router's answer, JSON text,
  MD5 and the local-time format are parameters of the environment; the messages sent are part of
  the state.
\<close>

datatype json =
    JNull | JBool bool | JInt int | JStr str | JList "json list" | JDict "(str \<times> json) list"

record message =
  m_data :: "(str \<times> json) list"
  m_ts :: int
  m_sign :: str

record web =
  acct :: gm
  sent :: "message list"

record wenv =
  wbase :: env
  params :: "(str \<times> str) list"
  router :: "(str \<times> json) list \<Rightarrow> json res"
  loads :: "str \<Rightarrow> json res"
  dumps :: "json \<Rightarrow> str"
  repr :: "json \<Rightarrow> str"
  fmt_time :: "int \<Rightarrow> str"

type_synonym page = "wenv \<Rightarrow> user \<Rightarrow> web \<Rightarrow> (json \<times> web) res"
type_synonym open_page = "wenv \<Rightarrow> web \<Rightarrow> (json \<times> web) res"

definition clock :: "wenv \<Rightarrow> int" where
  "clock e = \<lfloor>now (wbase e)\<rfloor>"

subsection \<open>Parameters\<close>

definition arg :: "wenv \<Rightarrow> str \<Rightarrow> json" where
  "arg e k = (case map_of (params e) k of None \<Rightarrow> JNull | Some s \<Rightarrow> JStr s)"

definition int_arg :: "wenv \<Rightarrow> str \<Rightarrow> json res" where
  "int_arg e k =
     (case map_of (params e) k of
        None \<Rightarrow> Inl TypeError
      | Some s \<Rightarrow> rbind (int_of s) (\<lambda>i. Inr (JInt i)))"

definition json_arg :: "wenv \<Rightarrow> str \<Rightarrow> json res" where
  "json_arg e k = (case map_of (params e) k of None \<Rightarrow> Inl TypeError | Some s \<Rightarrow> loads e s)"

text \<open>A time of the form: \<open>NaN\<close> for an empty field, which stands for \<open>d\<close> seconds from now.\<close>

definition ts_arg :: "wenv \<Rightarrow> str \<Rightarrow> int \<Rightarrow> json res" where
  "ts_arg e k d = (if arg e k = JStr ''NaN'' then Inr (JInt (clock e + d)) else int_arg e k)"

fun truthy :: "json \<Rightarrow> bool" where
  "truthy JNull = False"
| "truthy (JBool b) = b"
| "truthy (JInt i) = (i \<noteq> 0)"
| "truthy (JStr s) = (s \<noteq> [])"
| "truthy (JList xs) = (xs \<noteq> [])"
| "truthy (JDict d) = (d \<noteq> [])"

text \<open>\<open>"%s" % x\<close>: parameters are texts or \<open>None\<close>; other values print as their \<open>repr\<close>.\<close>

definition text_of :: "wenv \<Rightarrow> json \<Rightarrow> str" where
  "text_of e j =
     (case j of JNull \<Rightarrow> ''None'' | JStr s \<Rightarrow> s | JInt i \<Rightarrow> int_str i
      | JBool b \<Rightarrow> (if b then ''True'' else ''False'') | _ \<Rightarrow> repr e j)"

fun jget :: "str \<Rightarrow> json \<Rightarrow> json res" where
  "jget k (JDict d) = dict_get d k"
| "jget k _ = Inl TypeError"

fun jvalues :: "json \<Rightarrow> json res" where
  "jvalues (JDict d) = Inr (JList (map snd d))"
| "jvalues _ = Inl AttributeError"

fun jput :: "str \<Rightarrow> json \<Rightarrow> json \<Rightarrow> json res" where
  "jput k v (JDict d) = Inr (JDict (AList.update k v d))"
| "jput k v _ = Inl TypeError"

subsection \<open>Calls to the router\<close>

definition ROUTER_KEY :: str where
  "ROUTER_KEY = ''8dFACTRDdNiAiYv6pV046UfJ147RzE37''"

definition req_gm_router :: "wenv \<Rightarrow> (str \<times> json) list \<Rightarrow> web \<Rightarrow> (json \<times> web) res" where
  "req_gm_router e data w =
     (let ts = clock e;
          sign = md5 (wbase e) (''ts='' @ int_str ts @ ''&key='' @ ROUTER_KEY @ ''&data='' @ dumps e (JDict data))
      in rbind (router e data) (\<lambda>r.
           Inr (r, w\<lparr>sent := sent w @ [\<lparr>m_data = data, m_ts = ts, m_sign = sign\<rparr>]\<rparr>)))"

definition gm_data :: "json \<Rightarrow> json \<Rightarrow> str \<Rightarrow> json \<Rightarrow> (str \<times> json) list" where
  "gm_data sid uuid cmd args =
     (let d0 = [(''gm_name'', JStr cmd)];
          d1 = (if truthy sid then AList.update ''server_id'' sid d0 else d0);
          d2 = (if truthy uuid then AList.update ''uuid'' uuid d1 else d1)
      in case args of
           JDict d \<Rightarrow> fold (\<lambda>(k, v). AList.update k v) d d2
         | JStr s \<Rightarrow> AList.update ''name'' (JStr s) d2
         | _ \<Rightarrow> d2)"

definition call_gm :: "wenv \<Rightarrow> json \<Rightarrow> json \<Rightarrow> str \<Rightarrow> json \<Rightarrow> web \<Rightarrow> (json \<times> web) res" where
  "call_gm e sid uuid cmd args w = req_gm_router e (gm_data sid uuid cmd args) w"

text \<open>The texts are wrapped for the one language \<open>chs\<close>; items and content are left out when empty.\<close>

definition chs :: "json \<Rightarrow> json" where
  "chs t = JDict [(''chs'', t)]"

definition optional :: "str \<Rightarrow> json \<Rightarrow> json \<Rightarrow> (str \<times> json) list" where
  "optional k c v = (if truthy c then [(k, v)] else [])"

definition role_mail :: "wenv \<Rightarrow> json \<Rightarrow> json \<Rightarrow> json \<Rightarrow> json \<Rightarrow> json \<Rightarrow> web \<Rightarrow> (json \<times> web) res" where
  "role_mail e sid title content items u w =
     req_gm_router e
       ([(''gm_name'', JStr ''role_mail''), (''server_id'', sid), (''uuid_list'', JList [u]),
         (''title'', chs title), (''expire_ts'', JInt (clock e + 10000000))]
        @ optional ''item_list'' items items @ optional ''content'' content (chs content)) w"

definition global_mail ::
    "wenv \<Rightarrow> json \<Rightarrow> json \<Rightarrow> json \<Rightarrow> json \<Rightarrow> json \<Rightarrow> json \<Rightarrow> json \<Rightarrow> json \<Rightarrow> web \<Rightarrow> (json \<times> web) res" where
  "global_mail e sid title content channel all_channel items start stop w =
     req_gm_router e
       ([(''gm_name'', JStr ''global_mail''), (''server_id'', sid), (''title'', chs title),
         (''channel'', channel), (''is_all_channel'', all_channel), (''start_ts'', start), (''end_ts'', stop),
         (''expire_ts'', JInt (clock e + 10000000)), (''role_create_ts1'', JInt (clock e - 1000000)),
         (''role_create_ts2'', JInt (clock e + 1000000))]
        @ optional ''item_list'' items items @ optional ''content'' content (chs content)) w"

subsection \<open>Answers\<close>

definition info :: "json \<Rightarrow> json" where
  "info j = JDict [(''info'', j)]"

definition err :: "json \<Rightarrow> json" where
  "err j = JDict [(''err'', j)]"

definition web_log :: "wenv \<Rightarrow> user \<Rightarrow> str \<Rightarrow> str \<Rightarrow> str \<Rightarrow> web \<Rightarrow> web" where
  "web_log e u pg op txt w = w\<lparr>acct := push_log (wbase e) u pg op txt (acct w)\<rparr>"

text \<open>\<open>try: ... except: return \<dots>\<close> around the reading of the parameters.\<close>

definition attempt :: "'a res \<Rightarrow> str \<Rightarrow> ('a \<Rightarrow> web \<Rightarrow> (json \<times> web) res) \<Rightarrow> web \<Rightarrow> (json \<times> web) res" where
  "attempt m msg body w = (case m of Inl _ \<Rightarrow> Inr (err (JStr msg), w) | Inr x \<Rightarrow> body x w)"

text \<open>A call whose answer is tested for \<open>code == 0\<close>; otherwise \<open>err_msg\<close> is passed on.\<close>

definition on_code :: "(json \<times> web) res \<Rightarrow> (json \<Rightarrow> web \<Rightarrow> (json \<times> web) res) \<Rightarrow> (json \<Rightarrow> web \<Rightarrow> (json \<times> web) res) \<Rightarrow> (json \<times> web) res" where
  "on_code call yes no =
     rbind call (\<lambda>(r, w). rbind (jget ''code'' r) (\<lambda>c. if c = JInt 0 then yes r w else no r w))"

definition pass_err :: "json \<Rightarrow> web \<Rightarrow> (json \<times> web) res" where
  "pass_err r w = rbind (jget ''err_msg'' r) (\<lambda>m. Inr (err m, w))"

definition pass_data :: "json \<Rightarrow> web \<Rightarrow> (json \<times> web) res" where
  "pass_data r w = rbind (jget ''data'' r) (\<lambda>d. Inr (info d, w))"

definition pass_text :: "wenv \<Rightarrow> json \<Rightarrow> web \<Rightarrow> (json \<times> web) res" where
  "pass_text e r w = rbind (jget ''data'' r) (\<lambda>d. Inr (JStr (dumps e (info d)), w))"

definition log_then ::
    "wenv \<Rightarrow> user \<Rightarrow> str \<Rightarrow> str \<Rightarrow> str res \<Rightarrow> (json \<Rightarrow> web \<Rightarrow> (json \<times> web) res) \<Rightarrow> json \<Rightarrow> web \<Rightarrow> (json \<times> web) res" where
  "log_then e u pg op txt go r w = rbind txt (\<lambda>t. go r (web_log e u pg op t w))"

text \<open>
  The sample client \<^verbatim>\<open>tools/gm_demo.py\<close> signs its call as the pages do and prints whether it was done, with the data
  or the message.
\<close>

definition demo_args :: "(str \<times> json) list" where
  "demo_args = [(''gm_name'', JStr ''query_rank_forbid''), (''server_id'', JInt 1), (''rank_type'', JInt 2)]"

definition gm_demo :: "wenv \<Rightarrow> web \<Rightarrow> ((bool \<times> json) \<times> web) res" where
  "gm_demo e w =
     rbind (req_gm_router e demo_args w) (\<lambda>(r, w'). rbind (jget ''code'' r) (\<lambda>c.
       if c \<noteq> JInt 0 then rbind (jget ''err_msg'' r) (\<lambda>m. Inr ((False, m), w'))
       else rbind (jget ''data'' r) (\<lambda>d. Inr ((True, d), w'))))"

subsection \<open>Pages and their guard\<close>

datatype route = Open open_page | Guarded str page

definition template :: "str \<Rightarrow> page" where
  "template n e u w = Inr (JDict [(''template'', JStr n), (''curr_user'', JStr (uname u))], w)"

definition redirect_login :: json where
  "redirect_login = JDict [(''redirect'', JStr ''/login'')]"

definition abort_401 :: json where
  "abort_401 = JDict [(''abort'', JInt 401)]"

fun serve :: "wenv \<Rightarrow> route \<Rightarrow> web \<Rightarrow> (json \<times> web) res" where
  "serve e (Open h) w = h e w"
| "serve e (Guarded need h) w =
     (case get_curr_user (wbase e) (acct w) of
        None \<Rightarrow> Inr (redirect_login, w)
      | Some u \<Rightarrow>
          if is_disabled u then Inr (redirect_login, w)
          else if \<not> check_power (acct w) u need then Inr (abort_401, w)
          else h e u w)"

subsection \<open>What a page sends and logs\<close>

text \<open>At most one message, with the command \<open>cmd\<close>; accounts and groups are untouched.\<close>

definition same_accounts :: "web \<Rightarrow> web \<Rightarrow> bool" where
  "same_accounts w w' \<longleftrightarrow> users (acct w') = users (acct w) \<and> groups (acct w') = groups (acct w)"

definition sends :: "str \<Rightarrow> web \<Rightarrow> (json \<times> web) res \<Rightarrow> bool" where
  "sends cmd w r \<longleftrightarrow> (\<forall>j w'. r = Inr (j, w') \<longrightarrow> same_accounts w w' \<and>
     (sent w' = sent w \<or> (\<exists>m. sent w' = sent w @ [m] \<and> map_of (m_data m) ''gm_name'' = Some (JStr cmd))))"

text \<open>A function of the answer that only reads it and logs.\<close>

definition quiet :: "(json \<Rightarrow> web \<Rightarrow> (json \<times> web) res) \<Rightarrow> bool" where
  "quiet f \<longleftrightarrow> (\<forall>r w j w'. f r w = Inr (j, w') \<longrightarrow> same_accounts w w' \<and> sent w' = sent w)"

named_theorems page_rules \<open>rules that walk through the handler of a page\<close>

lemma quiet_pass [page_rules]: "quiet pass_err" "quiet pass_data" "quiet (pass_text e)"
  by (auto simp: quiet_def same_accounts_def pass_err_def pass_data_def pass_text_def res_simps)

lemma quiet_const [page_rules]: "quiet (\<lambda>r w. Inr (j, w))"
  by (simp add: quiet_def same_accounts_def)

lemma quiet_log [page_rules]: "quiet go \<Longrightarrow> quiet (log_then e u pg op txt go)"
  by (fastforce simp: quiet_def same_accounts_def log_then_def web_log_def push_log_def res_simps)

lemma quiet_bind [page_rules]: "(\<And>x. quiet (f x)) \<Longrightarrow> quiet (\<lambda>r w. rbind (m r) (\<lambda>x. f x r w))"
  by (fastforce simp: quiet_def res_simps)

lemma sends_const [page_rules]: "sends cmd w (Inr (j, w))"
  by (simp add: sends_def same_accounts_def)

lemma sends_bind [page_rules]: "(\<And>x. sends cmd w (f x)) \<Longrightarrow> sends cmd w (rbind m f)"
  by (auto simp: sends_def res_simps)

lemma sends_if [page_rules]: "sends cmd w a \<Longrightarrow> sends cmd w b \<Longrightarrow> sends cmd w (if c then a else b)"
  by simp

lemma sends_attempt [page_rules]: "(\<And>x. sends cmd w (body x w)) \<Longrightarrow> sends cmd w (attempt m msg body w)"
  by (auto simp: attempt_def sends_const split: sum.splits)

lemma fold_update_keep:
  "k \<notin> fst ` set d \<Longrightarrow> map_of (fold (\<lambda>(k, v). AList.update k v) d c) k = map_of c k"
  by (induction d arbitrary: c) (auto simp: fun_upd_def)

lemma gm_data_name:
  "\<forall>d. args = JDict d \<longrightarrow> ''gm_name'' \<notin> fst ` set d \<Longrightarrow> map_of (gm_data sid uuid cmd args) ''gm_name'' = Some (JStr cmd)"
  by (auto simp: gm_data_def Let_def fold_update_keep split: json.splits)

lemma sends_req:
  assumes "map_of data ''gm_name'' = Some (JStr cmd)" "quiet yes" "quiet no"
  shows "sends cmd w (on_code (req_gm_router e data w) yes no)"
proof -
  have q: "same_accounts v w' \<and> sent w' = sent v" if "yes r v = Inr (j, w') \<or> no r v = Inr (j, w')" for r v j w'
    using assms(2,3) that by (auto simp: quiet_def)
  show ?thesis using assms(1) by (auto simp: sends_def same_accounts_def on_code_def req_gm_router_def Let_def res_simps
        split: if_splits dest!: q [OF disjI1, unfolded same_accounts_def] q [OF disjI2, unfolded same_accounts_def])
qed

lemma sends_call [page_rules]:
  assumes "\<forall>d. args = JDict d \<longrightarrow> ''gm_name'' \<notin> fst ` set d" "quiet yes" "quiet no"
  shows "sends cmd w (on_code (call_gm e sid uuid cmd args w) yes no)"
  unfolding call_gm_def using assms gm_data_name by (intro sends_req)

end
