(* ===== verification/Gm_Views.thy ===== *)
theory Gm_Views
  imports Gm_Router
begin

text \<open>
  The pages that act on players, servers, mails and activities: \<^verbatim>\<open>view_player_query.py\<close>,
  \<^verbatim>\<open>view_role_vip_mgr.py\<close>, \<^verbatim>\<open>view_map_mgr.py\<close>, \<^verbatim>\<open>view_server_list.py\<close>,
  \<^verbatim>\<open>view_server_time.py\<close>, \<^verbatim>\<open>view_query_vip.py\<close>, \<^verbatim>\<open>view_query_tool.py\<close>, \<^verbatim>\<open>view_query_union.py\<close>,
  \<^verbatim>\<open>view_gift_key.py\<close>, \<^verbatim>\<open>view_role_mail.py\<close>, \<^verbatim>\<open>view_sys_mail.py\<close>, \<^verbatim>\<open>view_online_notify.py\<close>,
  \<^verbatim>\<open>view_hero_activities.py\<close> and \<^verbatim>\<open>view_lover_activities.py\<close>. Most read their parameters, send one
  command to the GM router and pass on the answer.
\<close>

definition CHECK_INPUT :: str where "CHECK_INPUT = utf8 [0xe8, 0xaf, 0xb7, 0xe6, 0xa3, 0x80, 0xe6, 0x9f, 0xa5, 0xe8, 0xbe, 0x93, 0xe5, 0x85,
    0xa5]"
definition CHECK_INPUT2 :: str where "CHECK_INPUT2 = utf8 [0xe6, 0xa3, 0x80, 0xe6, 0x9f, 0xa5, 0xe8, 0xbe, 0x93, 0xe5, 0x85, 0xa5]"
definition EMPTY_UUID :: str where "EMPTY_UUID = utf8 [0x75, 0x75, 0x69, 0x64, 0xe4, 0xb8, 0xba, 0xe7, 0xa9, 0xba]"
definition OP_OK :: str where "OP_OK = utf8 [0xe6, 0x93, 0x8d, 0xe4, 0xbd, 0x9c, 0xe6, 0x88, 0x90, 0xe5, 0x8a, 0x9f]"
definition OP_WRONG :: str where "OP_WRONG = utf8 [0xe6, 0x93, 0x8d, 0xe4, 0xbd, 0x9c, 0xe9, 0x94, 0x99, 0xe8, 0xaf, 0xaf]"
definition SHORT_NAME :: str where "SHORT_NAME = utf8 [0xe7, 0x8e, 0x8b, 0xe6, 0x9c, 0x9d, 0xe5, 0x90, 0x8d, 0xe7, 0xa7, 0xb0, 0xe4, 0xb8,
    0x8d, 0xe8, 0x83, 0xbd, 0xe5, 0xb0, 0x8f, 0xe4, 0xba, 0x8e, 0x33, 0xe4, 0xb8, 0xaa, 0xe5,
    0xad, 0x97, 0xe7, 0xac, 0xa6]"
definition NO_UUIDS :: str where "NO_UUIDS = utf8 [0x75, 0x75, 0x69, 0x64, 0x20, 0xe4, 0xb8, 0x8d, 0xe8, 0x83, 0xbd, 0xe4, 0xb8, 0xba,
    0xe7, 0xa9, 0xba]"
definition NOT_DIGITS :: str where "NOT_DIGITS = utf8 [0x75, 0x75, 0x69, 0x64, 0x20, 0xe5, 0xad, 0x98, 0xe5, 0x9c, 0xa8, 0xe9, 0x9d, 0x9e,
    0xe6, 0x95, 0xb0, 0xe5, 0xad, 0x97]"
definition GIFT_COUNT :: str where "GIFT_COUNT = utf8 [0xe7, 0xa4, 0xbc, 0xe5, 0x8c, 0x85, 0xe7, 0xa0, 0x81, 0xe6, 0xac, 0xa1, 0xe6, 0x95,
    0xb0, 0xe5, 0xad, 0x98, 0xe5, 0x9c, 0xa8, 0xe9, 0x9d, 0x9e, 0xe6, 0x95, 0xb0, 0xe5, 0xad,
    0x97, 0x20]"

definition P_FORBID :: str where "P_FORBID = utf8 [0xe5, 0xb0, 0x81, 0xe7, 0xa6, 0x81, 0xe8, 0xa7, 0xa3, 0xe5, 0xb0, 0x81]"
definition P_LEVEL :: str where "P_LEVEL = utf8 [0xe7, 0xbb, 0x8f, 0xe9, 0xaa, 0x8c, 0xe6, 0x9f, 0xa5, 0xe8, 0xaf, 0xa2]"
definition P_NOTICE :: str where "P_NOTICE = utf8 [0xe5, 0x85, 0xac, 0xe5, 0x91, 0x8a, 0xe7, 0xae, 0xa1, 0xe7, 0x90, 0x86]"
definition P_MAIL :: str where "P_MAIL = utf8 [0xe9, 0x82, 0xae, 0xe4, 0xbb, 0xb6, 0xe7, 0xb3, 0xbb, 0xe7, 0xbb, 0x9f]"
definition T_SERVER :: str where "T_SERVER = utf8 [0xe6, 0x9c, 0x8d, 0xe5, 0x8a, 0xa1, 0xe5, 0x99, 0xa8, 0x49, 0x44, 0x3a]"
definition T_UNTIL :: str where "T_UNTIL = utf8 [0x3b, 0x20, 0xe6, 0x88, 0xaa, 0xe6, 0xad, 0xa2, 0xe6, 0x97, 0xb6, 0xe9, 0x97, 0xb4,
    0x3a]"
definition T_EXP :: str where "T_EXP = utf8 [0x3b, 0x20, 0xe7, 0xbb, 0x8f, 0xe9, 0xaa, 0x8c, 0x3a]"
definition T_LEVEL :: str where "T_LEVEL = utf8 [0x3b, 0x20, 0xe7, 0xad, 0x89, 0xe7, 0xba, 0xa7, 0x3a]"
definition T_MAIL_SERVER :: str where "T_MAIL_SERVER = utf8 [0xe6, 0x9c, 0x8d, 0xe5, 0x8a, 0xa1, 0xe5, 0x99, 0xa8, 0x69, 0x64, 0x3a]"
definition O_KICK :: str where "O_KICK = utf8 [0xe8, 0xb8, 0xa2, 0xe4, 0xb8, 0x8b, 0xe7, 0xba, 0xbf]"
definition O_FORBID :: str where "O_FORBID = utf8 [0xe5, 0xb0, 0x81, 0xe7, 0xa6, 0x81]"
definition O_UNFORBID :: str where "O_UNFORBID = utf8 [0xe8, 0xa7, 0xa3, 0xe5, 0xb0, 0x81, 0xe7, 0x99, 0xbb, 0xe9, 0x99, 0x86]"
definition O_MUTE :: str where "O_MUTE = utf8 [0xe7, 0xa6, 0x81, 0xe8, 0xa8, 0x80]"
definition O_UNMUTE :: str where "O_UNMUTE = utf8 [0xe8, 0xa7, 0xa3, 0xe5, 0xb0, 0x81, 0xe7, 0xa6, 0x81, 0xe8, 0xa8, 0x80]"
definition O_EXP_ADD :: str where "O_EXP_ADD = utf8 [0xe5, 0xa2, 0x9e, 0xe5, 0x8a, 0xa0, 0xe7, 0xbb, 0x8f, 0xe9, 0xaa, 0x8c]"
definition O_EXP_SUB :: str where "O_EXP_SUB = utf8 [0xe5, 0x87, 0x8f, 0xe5, 0xb0, 0x91, 0xe7, 0xbb, 0x8f, 0xe9, 0xaa, 0x8c]"
definition O_LEVEL :: str where "O_LEVEL = utf8 [0xe8, 0xae, 0xbe, 0xe5, 0xae, 0x9a, 0xe7, 0xad, 0x89, 0xe7, 0xba, 0xa7]"
definition O_NOTICE_ADD :: str where "O_NOTICE_ADD = utf8 [0xe6, 0xb7, 0xbb, 0xe5, 0x8a, 0xa0, 0xe5, 0x85, 0xac, 0xe5, 0x91, 0x8a]"
definition O_NOTICE_DEL :: str where "O_NOTICE_DEL = utf8 [0xe5, 0x88, 0xa0, 0xe9, 0x99, 0xa4, 0xe5, 0x85, 0xac, 0xe5, 0x91, 0x8a]"
definition O_NOTICE_EDIT :: str where "O_NOTICE_EDIT = utf8 [0xe4, 0xbf, 0xae, 0xe6, 0x94, 0xb9, 0xe5, 0x85, 0xac, 0xe5, 0x91, 0x8a]"
definition O_SYS_MAIL :: str where "O_SYS_MAIL = utf8 [0xe5, 0x90, 0x8e, 0xe5, 0x8f, 0xb0, 0xe9, 0x82, 0xae, 0xe4, 0xbb, 0xb6]"
definition O_MAIL_OK :: str where "O_MAIL_OK = utf8 [0xe6, 0xb7, 0xbb, 0xe5, 0x8a, 0xa0, 0xe7, 0x8e, 0xa9, 0xe5, 0xae, 0xb6, 0xe9, 0x82,
    0xae, 0xe4, 0xbb, 0xb6, 0xe6, 0x88, 0x90, 0xe5, 0x8a, 0x9f]"
definition O_MAIL_BAD :: str where "O_MAIL_BAD = utf8 [0xe6, 0xb7, 0xbb, 0xe5, 0x8a, 0xa0, 0xe7, 0x8e, 0xa9, 0xe5, 0xae, 0xb6, 0xe9, 0x82,
    0xae, 0xe4, 0xbb, 0xb6, 0xe5, 0xa4, 0xb1, 0xe8, 0xb4, 0xa5]"

subsection \<open>Players\<close>

definition name_or_uuid :: "wenv \<Rightarrow> (str \<times> json) list" where
  "name_or_uuid e =
     (if arg e ''name'' \<noteq> JStr [] then [(''name'', arg e ''name'')] else [])
     @ (if arg e ''uuid'' \<noteq> JStr [] then [(''uuid'', arg e ''uuid'')] else [])"

definition heroes_as_list :: "json \<Rightarrow> json res" where
  "heroes_as_list d =
     rbind (jget ''hero_dict'' d) (\<lambda>h. rbind (jvalues h) (\<lambda>hs. rbind (jput ''hero_dict'' hs d) (\<lambda>d1.
     rbind (jget ''lover_dict'' d1) (\<lambda>l. rbind (jvalues l) (\<lambda>ls. jput ''lover_dict'' ls d1)))))"

definition query_player :: open_page where
  "query_player e w =
     attempt (int_arg e ''server_id'') CHECK_INPUT (\<lambda>sid w.
       if arg e ''name'' = JStr [] \<and> arg e ''uuid'' = JStr [] then Inr (err (JStr CHECK_INPUT), w)
       else on_code (call_gm e sid JNull ''query_user_info'' (JDict ((''server_id'', sid) # name_or_uuid e)) w)
         (\<lambda>r w. rbind (jget ''data'' r) (\<lambda>d. rbind (heroes_as_list d) (\<lambda>d'. Inr (info d', w)))) pass_err) w"

definition server_uid :: "wenv \<Rightarrow> str" where
  "server_uid e = T_SERVER @ text_of e (arg e ''server_id'') @ ''; UID:'' @ text_of e (arg e ''uuid'')"

definition kick_role :: page where
  "kick_role e u w =
     (if \<not> truthy (arg e ''uuid'') then Inr (err (JStr EMPTY_UUID), w)
      else on_code (call_gm e (arg e ''server_id'') (arg e ''uuid'') ''kick_role'' JNull w)
        (log_then e u P_FORBID O_KICK (Inr (server_uid e)) (\<lambda>r w. Inr (info (JStr ''True''), w))) pass_err)"

text \<open>The end of a ban is only read after the ban took effect: a bad number raises then.\<close>

definition until_text :: "wenv \<Rightarrow> str res" where
  "until_text e =
     rbind (int_arg e ''forbad_until_time'') (\<lambda>t.
       case t of JInt i \<Rightarrow> Inr (''UID:'' @ text_of e (arg e ''uuid'') @ T_UNTIL @ fmt_time e i)
       | _ \<Rightarrow> Inl TypeError)"

definition forbid_args :: "wenv \<Rightarrow> json" where
  "forbid_args e = JDict [(''opt_params'', arg e ''forbad_reason''), (''duration'', arg e ''forbad_until_time'')]"

definition forbad_role :: page where
  "forbad_role e u w =
     (if arg e ''uuid'' = JStr [] \<or> arg e ''uuid'' = JNull then Inr (err (JStr EMPTY_UUID), w)
      else on_code (call_gm e (arg e ''server_id'') (arg e ''uuid'') ''forbid_login'' (forbid_args e) w)
        (log_then e u P_FORBID O_FORBID (until_text e) pass_data) pass_err)"

definition remove_forbad_role :: page where
  "remove_forbad_role e u w =
     (if \<not> truthy (arg e ''uuid'') then Inr (err (JStr EMPTY_UUID), w)
      else on_code (call_gm e (arg e ''server_id'') (arg e ''uuid'') ''undo_forbid_login'' JNull w)
        (log_then e u P_FORBID O_UNFORBID (Inr (server_uid e)) pass_data) pass_err)"

definition forbad_speak :: page where
  "forbad_speak e u w =
     on_code (call_gm e (arg e ''server_id'') (arg e ''uuid'') ''forbid_speak'' (forbid_args e) w)
       (log_then e u P_FORBID O_MUTE (until_text e) pass_data) pass_err"

definition remove_forbad_speak :: page where
  "remove_forbad_speak e u w =
     (if \<not> truthy (arg e ''uuid'') then Inr (err (JStr EMPTY_UUID), w)
      else on_code (call_gm e (arg e ''server_id'') (arg e ''uuid'') ''undo_forbid_speak'' JNull w)
        (log_then e u P_FORBID O_UNMUTE (Inr (server_uid e)) pass_data) pass_err)"

definition add_role_exp :: page where
  "add_role_exp e u w =
     on_code (call_gm e (arg e ''server_id'') (arg e ''uuid'') ''add_role_exp'' (JDict [(''count'', arg e ''exp'')]) w)
       (log_then e u P_LEVEL O_EXP_ADD (Inr (server_uid e @ T_EXP @ text_of e (arg e ''exp''))) pass_data) pass_err"

definition delete_role_exp :: page where
  "delete_role_exp e u w =
     on_code (call_gm e (arg e ''server_id'') (arg e ''uuid'') ''delete_role_exp'' (JDict [(''count'', arg e ''exp'')]) w)
       (log_then e u P_LEVEL O_EXP_SUB (Inr (server_uid e @ T_EXP @ text_of e (arg e ''exp''))) pass_data) pass_err"

definition set_role_level :: page where
  "set_role_level e u w =
     on_code (call_gm e (arg e ''server_id'') (arg e ''uuid'') ''set_role_level'' (JDict [(''level'', arg e ''level'')]) w)
       (log_then e u P_LEVEL O_LEVEL (Inr (server_uid e @ T_LEVEL @ text_of e (arg e ''level''))) pass_data) pass_err"

definition role_delete_item :: page where
  "role_delete_item e u w =
     attempt (int_arg e ''server_id'') CHECK_INPUT (\<lambda>sid w.
       if arg e ''name'' = JStr [] \<and> arg e ''uuid'' = JStr [] then Inr (err (JStr CHECK_INPUT), w)
       else on_code (call_gm e sid (arg e ''uuid'') ''delete_item''
           (JDict ([(''server_id'', sid), (''guid'', arg e ''item_id''), (''count'', arg e ''item_count'')] @ name_or_uuid e)) w)
         (\<lambda>r w. Inr (info (JStr []), w)) pass_err) w"

text \<open>\<open>str(None)\<close> is the text \<open>None\<close>, so this page does not notice a missing uuid.\<close>

definition set_role_vip :: page where
  "set_role_vip e u w =
     attempt (rbind (int_arg e ''server_id'') (\<lambda>sid. rbind (int_arg e ''vip_level'') (\<lambda>v. Inr (sid, v)))) CHECK_INPUT
       (\<lambda>(sid, v) w. let uuid = JStr (text_of e (arg e ''uuid'')) in
          on_code (call_gm e sid uuid ''set_role_vip'' (JDict [(''uuid'', uuid), (''server_id'', sid), (''vip_level'', v)]) w)
            pass_data pass_err) w"

definition set_role_stage_to :: page where
  "set_role_stage_to e u w =
     attempt (int_arg e ''server_id'') CHECK_INPUT (\<lambda>sid w.
       on_code (call_gm e sid (arg e ''uuid'') ''set_role_stage_to''
           (JDict [(''server_id'', sid), (''uuid'', arg e ''uuid''), (''stage'', arg e ''stage_id'')]) w)
         (\<lambda>r w. Inr (info (JStr OP_OK), w)) (\<lambda>r w. Inr (err (JStr OP_WRONG), w))) w"

subsection \<open>Servers and queries\<close>

text \<open>One server of the list: its entry, with the numbers of players if it answers.\<close>

definition server_entry :: "wenv \<Rightarrow> json list \<times> web \<Rightarrow> str \<times> json \<Rightarrow> (json list \<times> web) res" where
  "server_entry e s kv =
     (case (s, kv) of ((acc, w), (sid, entry0)) \<Rightarrow>
        rbind (call_gm e (JStr sid) JNull ''get_server_info_role_online'' JNull w) (\<lambda>(q, w1).
        rbind (jget ''code'' q) (\<lambda>c.
          if c = JInt 0 then
            rbind (jget ''data'' q) (\<lambda>d.
            rbind (jget ''role_online_num'' d) (\<lambda>online.
            rbind (jput ''role_online_num'' online entry0) (\<lambda>i1.
            rbind (jget ''role_total_num'' d) (\<lambda>tot.
            rbind (jput ''role_total_num'' tot i1) (\<lambda>i2.
            rbind (jput ''running_state'' (JStr ''1'') i2) (\<lambda>i3. Inr (acc @ [i3], w1)))))))
          else Inr (acc @ [entry0], w1))))"

fun jitems :: "json \<Rightarrow> (str \<times> json) list res" where
  "jitems (JDict d) = Inr d"
| "jitems _ = Inl AttributeError"

definition query_zone :: open_page where
  "query_zone e w =
     rbind (call_gm e JNull JNull ''get_server_list'' JNull w) (\<lambda>(r, w1).
     rbind (jitems r) (\<lambda>ss. rbind (foldR (server_entry e) ([], w1) ss) (\<lambda>(is, w2). Inr (info (JList is), w2))))"

definition query_server_list :: page where
  "query_server_list e u w = query_zone e w"

definition add_server_time :: page where
  "add_server_time e u w =
     rbind (int_arg e ''server_id'') (\<lambda>sid. rbind (int_arg e ''server_time'') (\<lambda>t.
       on_code (call_gm e sid JNull ''set_serverTimes'' (JDict [(''server_time'', t)]) w) pass_data pass_err))"

text \<open>The order's id begins with its time: it is replaced by the time as text.\<close>

definition charge_row :: "wenv \<Rightarrow> json \<Rightarrow> json res" where
  "charge_row e row =
     rbind (jget ''order_id'' row) (\<lambda>o1. case o1 of
       JStr s \<Rightarrow> rbind (int_of (take 10 s)) (\<lambda>i. jput ''order_id'' (JStr (fmt_time e i)) row)
     | _ \<Rightarrow> Inl TypeError)"

definition query_charge_info :: page where
  "query_charge_info e u w =
     attempt (int_arg e ''server_id'') CHECK_INPUT (\<lambda>sid w.
       on_code (call_gm e sid JNull ''get_charge_info'' JNull w)
         (\<lambda>r w. rbind (jget ''data'' r) (\<lambda>d. rbind (jget ''form'' d) (\<lambda>f. case f of
            JList rows \<Rightarrow> rbind (mapR (charge_row e) rows) (\<lambda>rows'.
              rbind (jput ''form'' (JList rows') d) (\<lambda>d'. Inr (info d', w)))
          | _ \<Rightarrow> Inl TypeError))) pass_err) w"

definition query_by_sql :: page where
  "query_by_sql e u w =
     on_code (call_gm e (arg e ''server_id'') JNull ''query_by_sql''
         (JDict [(''server_id'', arg e ''server_id''), (''cmd'', arg e ''query_tool_msg'')]) w)
       (\<lambda>r w. rbind (jget ''data'' r) (\<lambda>d.
          if d = JNull \<or> d = JDict [] then Inr (err (JStr ''Database is empty''), w)
          else case d of
            JList [] \<Rightarrow> Inl IndexError
          | JList (row # rows) \<Rightarrow> rbind (jitems row) (\<lambda>cols.
              Inr (JDict [(''info'', d), (''title_list'', JList (JDict [(''checkbox'', JBool True)]
                # map (\<lambda>(t, _). JDict [(''title'', JStr t), (''field'', JStr t)]) cols))], w))
          | _ \<Rightarrow> Inl KeyError)) pass_err"

text \<open>\<open>len\<close> counts the bytes of the name.\<close>

definition query_dynasty_info :: page where
  "query_dynasty_info e u w =
     attempt (int_arg e ''server_id'') CHECK_INPUT (\<lambda>sid w.
       case arg e ''dynasty_name'' of
         JStr n \<Rightarrow>
           if length n < 3 then Inr (err (JStr SHORT_NAME), w)
           else on_code (call_gm e sid JNull ''seek_dynasty'' (JDict [(''server_id'', sid), (''dynasty_name'', JStr n)]) w)
                  pass_data pass_err
       | _ \<Rightarrow> Inl TypeError) w"

definition set_dynasty_info :: page where
  "set_dynasty_info e u w =
     attempt (rbind (int_arg e ''server_id'') (\<lambda>s. rbind (int_arg e ''dynasty_id'') (\<lambda>d.
         rbind (int_arg e ''dynasty_exp'') (\<lambda>x. Inr (s, d, x))))) CHECK_INPUT
       (\<lambda>(s, d, x) w.
          rbind (call_gm e s JNull ''add_dynasty_exp''
              (JDict [(''server_id'', s), (''uuid'', arg e ''uuid''), (''dynasty_id'', d), (''dynasty_exp'', x)]) w) (\<lambda>(r, w1).
          rbind (jget ''data'' r) (\<lambda>j.
            Inr (if j \<noteq> JDict [] then info j else err (JStr OP_WRONG), w1)))) w"

subsection \<open>Gift keys\<close>

definition delete_gift_key :: page where
  "delete_gift_key e u w =
     on_code (call_gm e JNull JNull ''delete_gift_key'' (JDict [(''key'', arg e ''gift_key'')]) w) (pass_text e) pass_err"

definition query_gift_key :: page where
  "query_gift_key e u w =
     on_code (call_gm e JNull JNull ''query_gift_key'' (JDict [(''key'', arg e ''gift_key'')]) w) (pass_text e) pass_err"

text \<open>The list is reversed in place before the code is looked at.\<close>

definition reversed :: "json \<Rightarrow> json" where
  "reversed d = (case d of JList xs \<Rightarrow> JList (rev xs) | _ \<Rightarrow> d)"

definition query_all_gift_key :: page where
  "query_all_gift_key e u w =
     rbind (call_gm e JNull JNull ''query_all_gift_key'' JNull w) (\<lambda>(r, w1).
     rbind (jget ''data'' r) (\<lambda>d. rbind (jput ''data'' (reversed d) r) (\<lambda>r'.
       on_code (Inr (r', w1)) (pass_text e) pass_err)))"

definition add_gift_key :: page where
  "add_gift_key e u w =
     rbind (json_arg e ''item_list'') (\<lambda>items.
       case arg e ''total_use_count'' of
         JStr n \<Rightarrow>
           if \<not> isdigit n then Inr (err (JStr GIFT_COUNT), w)
           else rbind (ts_arg e ''start_ts'' 2) (\<lambda>a. rbind (ts_arg e ''end_ts'' 100) (\<lambda>b.
             on_code (call_gm e JNull JNull ''make_gift_key''
                 (JDict [(''group_name'', arg e ''group_name''), (''total_use_count'', JStr n),
                    (''total_count'', arg e ''total_count''), (''item_list'', items), (''start_ts'', a), (''end_ts'', b)]) w)
               (pass_text e) pass_err))
       | _ \<Rightarrow> Inl AttributeError)"

end
