(* ===== verification/Gm_Pages.thy ===== *)
theory Gm_Pages
  imports Gm_Views
begin

text \<open>
  Mails, rolling notices, activities and events of the management server, and the table of its
  routes with the properties that hold for every page: the guard, the commands sent and the pages
  that have no guard.
\<close>

subsection \<open>Mails\<close>

definition mail_text :: "wenv \<Rightarrow> json \<Rightarrow> str res" where
  "mail_text e u =
     (case (arg e ''title'', arg e ''content'') of
        (JStr t, JStr c) \<Rightarrow> Inr (text_of e u @ '','' @ t @ '','' @ c)
      | _ \<Rightarrow> Inl TypeError)"

definition failed_line :: "wenv \<Rightarrow> json \<Rightarrow> json \<Rightarrow> json" where
  "failed_line e x m = JStr (text_of e x @ '' '' @ text_of e m @ '' '' @ [CHR 0x0A])"

definition mail_one :: "wenv \<Rightarrow> user \<Rightarrow> json \<Rightarrow> json list \<times> web \<Rightarrow> json \<Rightarrow> (json list \<times> web) res" where
  "mail_one e u items s k =
     (case s of (bad, w) \<Rightarrow>
        rbind (role_mail e (arg e ''server_id'') (arg e ''title'') (arg e ''content'') items k w) (\<lambda>(r, w1).
        rbind (jget ''code'' r) (\<lambda>c.
        rbind (mail_text e k) (\<lambda>t.
          if c = JInt 0 then Inr (bad, web_log e u P_MAIL O_MAIL_OK t w1)
          else rbind (jget ''err_msg'' r) (\<lambda>m.
            Inr (bad @ [failed_line e k m], web_log e u P_MAIL O_MAIL_BAD t w1))))))"

definition digits_only :: "json \<Rightarrow> bool res" where
  "digits_only k = (case k of JStr s \<Rightarrow> Inr (isdigit s) | _ \<Rightarrow> Inl AttributeError)"

fun all_digits :: "json list \<Rightarrow> bool res" where
  "all_digits [] = Inr True"
| "all_digits (k # ks) = rbind (digits_only k) (\<lambda>b. if b then all_digits ks else Inr False)"

definition mail_answer :: "json list \<Rightarrow> json" where
  "mail_answer bad = (if bad \<noteq> [] then err (JList bad) else info (JStr ''ok''))"

definition add_mail_role :: page where
  "add_mail_role e u w =
     rbind (json_arg e ''item_list'') (\<lambda>items. rbind (json_arg e ''arr_uuids'') (\<lambda>uuids.
       if \<not> truthy uuids then Inr (err (JStr NO_UUIDS), w)
       else case uuids of
         JList ks \<Rightarrow> rbind (all_digits ks) (\<lambda>ok.
           if \<not> ok then Inr (err (JStr NOT_DIGITS), w)
           else rbind (foldR (mail_one e u items) ([], w) ks) (\<lambda>(bad, w'). Inr (mail_answer bad, w')))
       | _ \<Rightarrow> Inl TypeError))"

text \<open>
  \<open>bool\<close> of the form's text: every non-empty text is true. When the router refuses, the log call
  has one argument too many and raises \<open>TypeError\<close>.
\<close>

definition add_mail_sys :: page where
  "add_mail_sys e u w =
     rbind (json_arg e ''item_list'') (\<lambda>items.
       on_code (global_mail e (arg e ''server_id'') (arg e ''title'') (arg e ''content'') (arg e ''channel'')
           (JBool (truthy (arg e ''is_all_channel''))) items (arg e ''sys_mail_begin_time'')
           (arg e ''sys_mail_end_time'') w)
         (log_then e u P_MAIL O_SYS_MAIL
            (case arg e ''server_id'' of JStr s \<Rightarrow> Inr (T_MAIL_SERVER @ s) | _ \<Rightarrow> Inl TypeError)
            (\<lambda>r w. Inr (mail_answer [], w)))
         (\<lambda>r w. rbind (jget ''err_msg'' r) (\<lambda>m. Inl TypeError)))"

subsection \<open>Rolling notices\<close>

definition query_roll_notice :: page where
  "query_roll_notice e u w =
     on_code (call_gm e (arg e ''server_id'') JNull ''query_roll_notice'' JNull w) (pass_text e) pass_err"

definition interval_arg :: "wenv \<Rightarrow> json res" where
  "interval_arg e =
     (if arg e ''interval'' = JStr [] \<or> arg e ''interval'' = JNull then Inr (JInt 100) else int_arg e ''interval'')"

definition notice_text :: "wenv \<Rightarrow> json \<Rightarrow> str" where
  "notice_text e n = text_of e (arg e ''server_id'') @ '' '' @ text_of e n"

definition add_roll_notice :: page where
  "add_roll_notice e u w =
     rbind (interval_arg e) (\<lambda>i. rbind (ts_arg e ''start_ts'' 2) (\<lambda>a. rbind (ts_arg e ''end_ts'' 100) (\<lambda>b.
       on_code (call_gm e (arg e ''server_id'') JNull ''add_roll_notice''
           (JDict [(''server_id'', arg e ''server_id''), (''content'', arg e ''content''), (''interval'', i),
              (''start_ts'', a), (''end_ts'', b)]) w)
         (\<lambda>r w. rbind (jget ''notice_id'' r) (\<lambda>n.
            log_then e u P_NOTICE O_NOTICE_ADD (Inr (notice_text e n)) (pass_text e) r w)) pass_err)))"

definition delete_roll_notice :: page where
  "delete_roll_notice e u w =
     on_code (call_gm e (arg e ''server_id'') JNull ''delete_roll_notice'' (JDict [(''notice_id'', arg e ''notice_id'')]) w)
       (log_then e u P_NOTICE O_NOTICE_DEL (Inr (notice_text e (arg e ''notice_id''))) pass_data)
       (\<lambda>r w. Inr (err (JStr ''False''), w))"

text \<open>Editing takes the interval where adding takes the given start and end.\<close>

definition edit_ts :: "wenv \<Rightarrow> str \<Rightarrow> int \<Rightarrow> json res" where
  "edit_ts e k d = (if arg e k = JStr ''NaN'' then Inr (JInt (clock e + d)) else int_arg e ''interval'')"

definition edit_roll_notice :: page where
  "edit_roll_notice e u w =
     rbind (interval_arg e) (\<lambda>i. rbind (edit_ts e ''start_ts'' 2) (\<lambda>a. rbind (edit_ts e ''end_ts'' 100) (\<lambda>b.
       on_code (call_gm e (arg e ''server_id'') JNull ''edit_roll_notice''
           (JDict [(''server_id'', arg e ''server_id''), (''notice_id'', arg e ''notice_id''),
              (''content'', arg e ''content''), (''interval'', i), (''start_ts'', a), (''end_ts'', b)]) w)
         (log_then e u P_NOTICE O_NOTICE_EDIT (Inr (notice_text e (arg e ''notice_id''))) (pass_text e)) pass_err)))"

subsection \<open>Activities\<close>

text \<open>
  The pages for heroes and for lovers differ in their fields. \<open>ints\<close> are the fields read as
  numbers, \<open>texts\<close> those passed as they are, \<open>reward\<close> is JSON; the fixed entries come last.
\<close>

definition int_fields :: "wenv \<Rightarrow> str list \<Rightarrow> (str \<times> json) list res" where
  "int_fields e ks = mapR (\<lambda>k. rbind (int_arg e k) (\<lambda>i. Inr (k, i))) ks"

definition text_fields :: "wenv \<Rightarrow> str list \<Rightarrow> (str \<times> json) list" where
  "text_fields e ks = map (\<lambda>k. (k, arg e k)) ks"

definition activity_args :: "wenv \<Rightarrow> str list \<Rightarrow> str list \<Rightarrow> (str \<times> json) list res" where
  "activity_args e ints texts =
     rbind (int_fields e ints) (\<lambda>is. rbind (json_arg e ''reward'') (\<lambda>rw.
       Inr (is @ text_fields e texts
         @ [(''item_list'', rw), (''status'', JStr ''activate''), (''purchase_count'', JInt 1)])))"

definition HERO_INTS :: "str list" where
  "HERO_INTS = [''server_id'', ''price'', ''discount'', ''refresh_interval'', ''hero_id'', ''hero_left_id'', ''hero_right_id'']"

definition HERO_TEXTS :: "str list" where
  "HERO_TEXTS = [''goods_name'', ''icon'', ''activity_name_fir'', ''activity_name_sec'']"

definition LOVER_INTS :: "str list" where
  "LOVER_INTS = [''server_id'', ''price'', ''discount'', ''refresh_interval'', ''lover_id'', ''lover_piece'',
     ''lover_fashion'', ''lover_type'']"

definition LOVER_TEXTS :: "str list" where
  "LOVER_TEXTS = [''goods_name'', ''icon'', ''face_time'', ''activity_name_fir'', ''activity_name_sec'']"

definition send_activity :: "wenv \<Rightarrow> str \<Rightarrow> (str \<times> json) list res \<Rightarrow> str \<Rightarrow> web \<Rightarrow> (json \<times> web) res" where
  "send_activity e cmd args msg w =
     attempt args msg (\<lambda>d w.
       on_code (call_gm e (case map_of d ''server_id'' of Some s \<Rightarrow> s | None \<Rightarrow> JNull) JNull cmd (JDict d) w)
         (\<lambda>r w. Inr (info (JStr []), w)) pass_err) w"

definition CHECK_EN :: str where "CHECK_EN = ''Check the input''"

definition add_hero_activities :: page where
  "add_hero_activities e u w = send_activity e ''add_hero_activities'' (activity_args e HERO_INTS HERO_TEXTS) CHECK_EN w"

definition update_hero_activities :: page where
  "update_hero_activities e u w =
     send_activity e ''edit_hero_activities'' (activity_args e (''id'' # HERO_INTS) HERO_TEXTS) CHECK_EN w"

definition clone_hero_activities :: page where
  "clone_hero_activities e u w = send_activity e ''add_hero_activities'' (activity_args e HERO_INTS HERO_TEXTS) CHECK_EN w"

definition del_hero_activities :: page where
  "del_hero_activities e u w =
     send_activity e ''del_hero_activities'' (int_fields e [''id'', ''server_id'']) ''error'' w"

definition add_lover_activities :: page where
  "add_lover_activities e u w =
     send_activity e ''add_lover_activities'' (activity_args e LOVER_INTS LOVER_TEXTS) CHECK_INPUT2 w"

definition clone_lover_activities :: page where
  "clone_lover_activities e u w =
     send_activity e ''add_lover_activities'' (activity_args e LOVER_INTS LOVER_TEXTS) CHECK_INPUT2 w"

definition update_lover_activities :: page where
  "update_lover_activities e u w =
     send_activity e ''edit_lover_activities'' (activity_args e (''id'' # LOVER_INTS) LOVER_TEXTS) CHECK_EN w"

definition del_lover_activities :: page where
  "del_lover_activities e u w =
     send_activity e ''del_lover_activities'' (int_fields e [''id'', ''server_id'']) ''error'' w"

text \<open>The activities of every server that answers.\<close>

definition collect_activities :: "wenv \<Rightarrow> str \<Rightarrow> json list \<times> web \<Rightarrow> str \<times> json \<Rightarrow> (json list \<times> web) res" where
  "collect_activities e cmd s kv =
     (case (s, kv) of ((acc, w), (sid, entry0)) \<Rightarrow>
        rbind (call_gm e (JStr sid) JNull ''get_server_info_role_online'' JNull w) (\<lambda>(q, w1).
        rbind (jget ''code'' q) (\<lambda>c.
          if c = JInt 0 then
            rbind (call_gm e (JStr sid) JNull cmd JNull w1) (\<lambda>(r, w2).
            rbind (jget ''data'' r) (\<lambda>d. case d of
              JList xs \<Rightarrow> Inr (acc @ xs, w2)
            | JDict kvs \<Rightarrow> Inr (acc @ map (\<lambda>(k, _). JStr k) kvs, w2)
            | _ \<Rightarrow> Inl TypeError))
          else Inr (acc, w1))))"

definition query_activities :: "str \<Rightarrow> page" where
  "query_activities cmd e u w =
     rbind (call_gm e JNull JNull ''get_server_list'' JNull w) (\<lambda>(r, w1).
     rbind (jitems r) (\<lambda>ss. rbind (foldR (collect_activities e cmd) ([], w1) ss) (\<lambda>(xs, w2).
       Inr (info (JList xs), w2))))"

text \<open>\<open>add_event\<close> only reads its parameters.\<close>

definition add_event :: page where
  "add_event e u w = Inr (JNull, w)"

subsection \<open>The routes\<close>

text \<open>The pages that send one command, with it.\<close>

definition one_command :: "(str \<times> str \<times> page \<times> str) list" where
  "one_command =
    [(''/kick_role'', ''player_forbid'', kick_role, ''kick_role''),
     (''/forbad_role'', ''player_forbid'', forbad_role, ''forbid_login''),
     (''/remove_forbad_role'', ''player_forbid'', remove_forbad_role, ''undo_forbid_login''),
     (''/forbad_speak'', ''player_forbid'', forbad_speak, ''forbid_speak''),
     (''/remove_forbad_speak'', ''player_forbid'', remove_forbad_speak, ''undo_forbid_speak''),
     (''/add_role_exp'', ''level_query'', add_role_exp, ''add_role_exp''),
     (''/delete_role_exp'', ''level_query'', delete_role_exp, ''delete_role_exp''),
     (''/set_role_level'', ''level_query'', set_role_level, ''set_role_level''),
     (''/role_delete_item'', ''delete_item'', role_delete_item, ''delete_item''),
     (''/set_role_vip'', ''role_vip_mgr'', set_role_vip, ''set_role_vip''),
     (''/set_role_stage_to'', ''map_mgr'', set_role_stage_to, ''set_role_stage_to''),
     (''/add_server_time'', ''server_time'', add_server_time, ''set_serverTimes''),
     (''/query_charge_info'', ''query_vip'', query_charge_info, ''get_charge_info''),
     (''/query_by_sql'', ''query_tool'', query_by_sql, ''query_by_sql''),
     (''/query_dynasty_info'', ''query_union'', query_dynasty_info, ''seek_dynasty''),
     (''/delete_gift_key'', ''gift_key'', delete_gift_key, ''delete_gift_key''),
     (''/query_gift_key'', ''gift_key'', query_gift_key, ''query_gift_key''),
     (''/add_gift_key'', ''gift_key'', add_gift_key, ''make_gift_key''),
     (''/add_mail_sys'', ''sys_mail'', add_mail_sys, ''global_mail''),
     (''/query_roll_notice'', ''online_notify'', query_roll_notice, ''query_roll_notice''),
     (''/add_roll_notice'', ''online_notify'', add_roll_notice, ''add_roll_notice''),
     (''/delete_roll_notice'', ''online_notify'', delete_roll_notice, ''delete_roll_notice''),
     (''/edit_roll_notice'', ''online_notify'', edit_roll_notice, ''edit_roll_notice''),
     (''/add_hero_activities'', ''hero_activities'', add_hero_activities, ''add_hero_activities''),
     (''/update_hero_activities'', ''hero_activities'', update_hero_activities, ''edit_hero_activities''),
     (''/clone_hero_activities'', ''hero_activities'', clone_hero_activities, ''add_hero_activities''),
     (''/del_hero_activities'', ''hero_activities'', del_hero_activities, ''del_hero_activities''),
     (''/add_lover_activities'', ''lover_activities'', add_lover_activities, ''add_lover_activities''),
     (''/clone_lover_activities'', ''lover_activities'', clone_lover_activities, ''add_lover_activities''),
     (''/update_lover_activities'', ''lover_activities'', update_lover_activities, ''edit_lover_activities''),
     (''/del_lover_activities'', ''lover_activities'', del_lover_activities, ''del_lover_activities'')]"

definition other_routes :: "(str \<times> route) list" where
  "other_routes =
    [(''/query_player'', Open query_player), (''/query_zone'', Open query_zone),
     (''/query_server_list'', Guarded ''server_list'' query_server_list),
     (''/set_dynasty_info'', Guarded ''query_union'' set_dynasty_info),
     (''/query_all_gift_key'', Guarded ''gift_key'' query_all_gift_key),
     (''/add_mail_role'', Guarded ''role_mail'' add_mail_role),
     (''/query_hero_activities'', Guarded ''hero_activities'' (query_activities ''query_hero_activities'')),
     (''/query_lover_activities'', Guarded ''lover_activities'' (query_activities ''query_lover_activities'')),
     (''/add_event'', Guarded ''event_config'' add_event)]"

definition template_routes :: "(str \<times> str \<times> str) list" where
  "template_routes =
    [(''/view_player_query'', ''player_query'', ''player_query''), (''/view_player_forbid'', ''player_forbid'', ''forbid_query''),
     (''/view_player_level'', ''level_query'', ''level_query''), (''/view_delete_item'', ''delete_item'', ''delete_item''),
     (''/view_role_vip_mgr'', ''role_vip_mgr'', ''role_vip_mgr''), (''/view_map_mgr'', ''map_mgr'', ''map_mgr''),
     (''/view_query_vip'', ''query_vip'', ''query_vip''), (''/view_server_time'', ''server_time'', ''server_time''),
     (''/view_query_tool'', ''query_tool'', ''query_tool''), (''/view_server_list'', ''server_list'', ''server_list''),
     (''/view_user_log'', ''user_log'', ''user_log''), (''/view_event_config'', ''event_config'', ''event_config''),
     (''/view_event_query'', ''event_query'', ''event_query''), (''/view_sys_mail'', ''sys_mail'', ''sys_mail''),
     (''/view_query_union'', ''query_union'', ''query_union''), (''/view_role_mail'', ''role_mail'', ''role_mail''),
     (''/view_role_log'', ''role_log'', ''role_log''), (''/view_version'', ''version'', ''version''),
     (''/view_gift_key'', ''gift_key'', ''gift_key''), (''/view_online_notify'', ''online_notify'', ''online_notify''),
     (''/view_system_notify'', ''system_notify'', ''system_notify''),
     (''/view_hero_activities'', ''hero_activities'', ''hero_activities''),
     (''/view_lover_activities'', ''lover_activities'', ''lover_activities'')]"

definition routes :: "(str \<times> route) list" where
  "routes =
     map (\<lambda>(p, need, h, cmd). (p, Guarded need h)) one_command @ other_routes
     @ map (\<lambda>(p, need, t). (p, Guarded need (template t))) template_routes"

definition not_found :: json where
  "not_found = JDict [(''abort'', JInt 404)]"

definition dispatch :: "wenv \<Rightarrow> str \<Rightarrow> web \<Rightarrow> (json \<times> web) res" where
  "dispatch e path w = (case map_of routes path of None \<Rightarrow> Inr (not_found, w) | Some r \<Rightarrow> serve e r w)"

subsection \<open>Every page sends only its own command\<close>

lemma quiet_fail [page_rules]: "quiet (\<lambda>r w. Inl x)"
  by (simp add: quiet_def)

lemma quiet_if [page_rules]: "quiet a \<Longrightarrow> quiet b \<Longrightarrow> quiet (\<lambda>r w. if c then a r w else b r w)"
  by (cases c) simp_all

lemma quiet_case_list [page_rules]:
  "quiet a \<Longrightarrow> (\<And>y ys. quiet (b y ys)) \<Longrightarrow> quiet (\<lambda>r w. case xs of [] \<Rightarrow> a r w | y # ys \<Rightarrow> b y ys r w)"
  by (cases xs) simp_all

lemma quiet_case_json [page_rules]:
  "quiet a \<Longrightarrow> (\<And>x. quiet (b x)) \<Longrightarrow> (\<And>x. quiet (c x)) \<Longrightarrow> (\<And>x. quiet (d x)) \<Longrightarrow> (\<And>x. quiet (f x)) \<Longrightarrow>
   (\<And>x. quiet (g x)) \<Longrightarrow>
   quiet (\<lambda>r w. case v of JNull \<Rightarrow> a r w | JBool x \<Rightarrow> b x r w | JInt x \<Rightarrow> c x r w | JStr x \<Rightarrow> d x r w
     | JList x \<Rightarrow> f x r w | JDict x \<Rightarrow> g x r w)"
  by (cases v) simp_all

lemma fields_keys:
  "int_fields e ks = Inr d \<Longrightarrow> map fst d = ks" "map fst (text_fields e ks) = ks"
proof -
  show "int_fields e ks = Inr d \<Longrightarrow> map fst d = ks" unfolding int_fields_def
    by (induction ks arbitrary: d) (auto simp: res_simps)
qed (simp add: text_fields_def comp_def)

lemma activity_keys:
  "activity_args e is ts = Inr d \<Longrightarrow> set (map fst d) = set is \<union> set ts \<union> {''item_list'', ''status'', ''purchase_count''}"
  by (auto simp: activity_args_def res_simps simp flip: set_map simp: fields_keys)

lemma activity_no_name:
  "activity_args e is ts = Inr d \<Longrightarrow> ''gm_name'' \<notin> set is \<union> set ts \<Longrightarrow> ''gm_name'' \<notin> set (map fst d)"
  by (simp only: activity_keys) simp

lemma sends_activity:
  assumes "\<And>d. args = Inr d \<Longrightarrow> ''gm_name'' \<notin> set (map fst d)"
  shows "sends cmd w (send_activity e cmd args msg w)"
proof (cases args)
  case (Inr d)
  then have "''gm_name'' \<notin> fst ` set d" using assms by simp
  then show ?thesis unfolding send_activity_def Inr attempt_def by (auto intro!: page_rules)
qed (simp add: send_activity_def attempt_def sends_const)

lemma name_or_uuid_keys: "''gm_name'' \<notin> fst ` set (name_or_uuid e)"
  by (auto simp: name_or_uuid_def)

lemmas page_defs =
  kick_role_def forbad_role_def remove_forbad_role_def forbad_speak_def remove_forbad_speak_def add_role_exp_def
  delete_role_exp_def set_role_level_def set_role_stage_to_def add_server_time_def query_charge_info_def
  query_by_sql_def delete_gift_key_def query_gift_key_def query_roll_notice_def add_roll_notice_def
  delete_roll_notice_def edit_roll_notice_def forbid_args_def

lemma sends_kick_role: "sends ''kick_role'' w (kick_role e u w)"
  unfolding page_defs by (intro page_rules; simp)

lemma sends_forbad_role: "sends ''forbid_login'' w (forbad_role e u w)"
  unfolding page_defs by (intro page_rules; simp)

lemma sends_remove_forbad_role: "sends ''undo_forbid_login'' w (remove_forbad_role e u w)"
  unfolding page_defs by (intro page_rules; simp)

lemma sends_forbad_speak: "sends ''forbid_speak'' w (forbad_speak e u w)"
  unfolding page_defs by (intro page_rules; simp)

lemma sends_remove_forbad_speak: "sends ''undo_forbid_speak'' w (remove_forbad_speak e u w)"
  unfolding page_defs by (intro page_rules; simp)

lemma sends_add_role_exp: "sends ''add_role_exp'' w (add_role_exp e u w)"
  unfolding page_defs by (intro page_rules; simp)

lemma sends_delete_role_exp: "sends ''delete_role_exp'' w (delete_role_exp e u w)"
  unfolding page_defs by (intro page_rules; simp)

lemma sends_set_role_level: "sends ''set_role_level'' w (set_role_level e u w)"
  unfolding page_defs by (intro page_rules; simp)

lemma sends_set_role_stage_to: "sends ''set_role_stage_to'' w (set_role_stage_to e u w)"
  unfolding page_defs by (intro page_rules; simp)

lemma sends_add_server_time: "sends ''set_serverTimes'' w (add_server_time e u w)"
  unfolding page_defs by (intro page_rules; simp)

lemma sends_query_charge_info: "sends ''get_charge_info'' w (query_charge_info e u w)"
  unfolding page_defs by (intro page_rules; simp)

lemma sends_query_by_sql: "sends ''query_by_sql'' w (query_by_sql e u w)"
  unfolding page_defs by (intro page_rules; simp)

lemma sends_delete_gift_key: "sends ''delete_gift_key'' w (delete_gift_key e u w)"
  unfolding page_defs by (intro page_rules; simp)

lemma sends_query_gift_key: "sends ''query_gift_key'' w (query_gift_key e u w)"
  unfolding page_defs by (intro page_rules; simp)

lemma sends_query_roll_notice: "sends ''query_roll_notice'' w (query_roll_notice e u w)"
  unfolding page_defs by (intro page_rules; simp)

lemma sends_add_roll_notice: "sends ''add_roll_notice'' w (add_roll_notice e u w)"
  unfolding page_defs by (intro page_rules; simp)

lemma sends_delete_roll_notice: "sends ''delete_roll_notice'' w (delete_roll_notice e u w)"
  unfolding page_defs by (intro page_rules; simp)

lemma sends_edit_roll_notice: "sends ''edit_roll_notice'' w (edit_roll_notice e u w)"
  unfolding page_defs by (intro page_rules; simp)

lemma sends_role_delete_item: "sends ''delete_item'' w (role_delete_item e u w)"
  unfolding role_delete_item_def by (intro page_rules; use name_or_uuid_keys in force)

lemma sends_set_role_vip: "sends ''set_role_vip'' w (set_role_vip e u w)"
  unfolding set_role_vip_def Let_def case_prod_beta by (intro page_rules; simp)

lemma sends_query_dynasty_info: "sends ''seek_dynasty'' w (query_dynasty_info e u w)"
  unfolding query_dynasty_info_def
  by (cases "arg e ''dynasty_name''"; simp; intro page_rules; simp add: sends_def)

lemma sends_add_gift_key: "sends ''make_gift_key'' w (add_gift_key e u w)"
  unfolding add_gift_key_def
  by (cases "arg e ''total_use_count''"; simp; intro page_rules; simp add: sends_def)

lemma sends_add_mail_sys: "sends ''global_mail'' w (add_mail_sys e u w)"
  unfolding add_mail_sys_def global_mail_def by (intro page_rules sends_req; simp)

lemma sends_add_hero_activities: "sends ''add_hero_activities'' w (add_hero_activities e u w)"
  unfolding add_hero_activities_def
  by (rule sends_activity, erule activity_no_name)
    (simp add: HERO_INTS_def HERO_TEXTS_def LOVER_INTS_def LOVER_TEXTS_def)

lemma sends_update_hero_activities: "sends ''edit_hero_activities'' w (update_hero_activities e u w)"
  unfolding update_hero_activities_def
  by (rule sends_activity, erule activity_no_name)
    (simp add: HERO_INTS_def HERO_TEXTS_def LOVER_INTS_def LOVER_TEXTS_def)

lemma sends_clone_hero_activities: "sends ''add_hero_activities'' w (clone_hero_activities e u w)"
  unfolding clone_hero_activities_def
  by (rule sends_activity, erule activity_no_name)
    (simp add: HERO_INTS_def HERO_TEXTS_def LOVER_INTS_def LOVER_TEXTS_def)

lemma sends_add_lover_activities: "sends ''add_lover_activities'' w (add_lover_activities e u w)"
  unfolding add_lover_activities_def
  by (rule sends_activity, erule activity_no_name)
    (simp add: HERO_INTS_def HERO_TEXTS_def LOVER_INTS_def LOVER_TEXTS_def)

lemma sends_clone_lover_activities: "sends ''add_lover_activities'' w (clone_lover_activities e u w)"
  unfolding clone_lover_activities_def
  by (rule sends_activity, erule activity_no_name)
    (simp add: HERO_INTS_def HERO_TEXTS_def LOVER_INTS_def LOVER_TEXTS_def)

lemma sends_update_lover_activities: "sends ''edit_lover_activities'' w (update_lover_activities e u w)"
  unfolding update_lover_activities_def
  by (rule sends_activity, erule activity_no_name)
    (simp add: HERO_INTS_def HERO_TEXTS_def LOVER_INTS_def LOVER_TEXTS_def)

lemma sends_del_hero_activities: "sends ''del_hero_activities'' w (del_hero_activities e u w)"
  unfolding del_hero_activities_def by (rule sends_activity) (simp add: fields_keys)

lemma sends_del_lover_activities: "sends ''del_lover_activities'' w (del_lover_activities e u w)"
  unfolding del_lover_activities_def by (rule sends_activity) (simp add: fields_keys)

lemmas sends_pages =
  sends_kick_role sends_forbad_role sends_remove_forbad_role sends_forbad_speak
  sends_remove_forbad_speak sends_add_role_exp sends_delete_role_exp sends_set_role_level
  sends_set_role_stage_to sends_add_server_time sends_query_charge_info sends_query_by_sql
  sends_delete_gift_key sends_query_gift_key sends_query_roll_notice sends_add_roll_notice
  sends_delete_roll_notice sends_edit_roll_notice sends_role_delete_item sends_set_role_vip
  sends_query_dynasty_info sends_add_gift_key sends_add_mail_sys sends_add_hero_activities
  sends_update_hero_activities sends_clone_hero_activities sends_add_lover_activities
  sends_clone_lover_activities sends_update_lover_activities sends_del_hero_activities
  sends_del_lover_activities

text \<open>
  Each of these pages, whatever its parameters and the router's answer, sends at most one
  message, whose command is the page's own, and changes no account and no group.
\<close>

theorem page_sends_own_command:
  assumes "(path, need, h, cmd) \<in> set one_command" "dispatch e path w = Inr (j, w')"
  shows "same_accounts w w' \<and>
    (sent w' = sent w \<or> (\<exists>m. sent w' = sent w @ [m] \<and> map_of (m_data m) ''gm_name'' = Some (JStr cmd)))"
proof -
  have "distinct (map fst routes)" unfolding routes_def one_command_def other_routes_def template_routes_def by code_simp
  moreover have "(path, Guarded need h) \<in> set routes" using assms(1) unfolding routes_def by force
  ultimately have "map_of routes path = Some (Guarded need h)" by simp
  then have d: "serve e (Guarded need h) w = Inr (j, w')" using assms(2) by (simp add: dispatch_def)
  have "sends cmd w (h e u w)" for u
    using assms(1) by (auto simp: one_command_def sends_pages)
  then have "sends cmd w (serve e (Guarded need h) w)"
    by (auto simp: sends_const split: option.splits)
  with d show ?thesis by (simp add: sends_def)
qed


text \<open>
  Editing a rolling notice with both times given sends the interval as its start and as its end,
  whatever times were given; adding one sends the times.
\<close>

theorem edit_roll_notice_times:
  assumes "arg e ''start_ts'' \<noteq> JStr ''NaN''" "arg e ''end_ts'' \<noteq> JStr ''NaN''"
    and "int_arg e ''interval'' = Inr (JInt i)" "int_arg e ''start_ts'' = Inr (JInt a)" "int_arg e ''end_ts'' = Inr (JInt b)"
    and "edit_roll_notice e u w = Inr (j, w1)" "add_roll_notice e u w = Inr (k, w2)"
  shows "\<exists>m1 m2. sent w1 = sent w @ [m1] \<and> sent w2 = sent w @ [m2] \<and>
      map_of (m_data m1) ''start_ts'' = Some (JInt i) \<and> map_of (m_data m1) ''end_ts'' = Some (JInt i) \<and>
      map_of (m_data m2) ''start_ts'' = Some (JInt a) \<and> map_of (m_data m2) ''end_ts'' = Some (JInt b)"
proof -
  have ne: "arg e ''interval'' \<noteq> JStr []" using assms(3)
    by (auto simp: int_arg_def arg_def int_of_def parse_int_def strip_def res_simps split: option.splits)
  then have iv: "interval_arg e = Inr (JInt i)" using assms(3)
    by (auto simp: interval_arg_def int_arg_def arg_def split: option.splits)
  obtain m1 where "sent w1 = sent w @ [m1]" "map_of (m_data m1) ''start_ts'' = Some (JInt i)"
    "map_of (m_data m1) ''end_ts'' = Some (JInt i)"
    using assms(1-3,6) iv
    by (auto simp: edit_roll_notice_def edit_ts_def on_code_def call_gm_def req_gm_router_def Let_def res_simps
        gm_data_def log_then_def web_log_def pass_text_def pass_err_def split: if_splits)
  moreover obtain m2 where "sent w2 = sent w @ [m2]" "map_of (m_data m2) ''start_ts'' = Some (JInt a)"
    "map_of (m_data m2) ''end_ts'' = Some (JInt b)"
    using assms(1,2,4,5,7) iv
    by (auto simp: add_roll_notice_def ts_arg_def on_code_def call_gm_def req_gm_router_def Let_def res_simps
        gm_data_def log_then_def web_log_def pass_text_def pass_err_def split: if_splits)
  ultimately show ?thesis by blast
qed

definition sample_wenv :: "(str \<times> str) list \<Rightarrow> wenv" where
  "sample_wenv ps = \<lparr>wbase = \<lparr>now = 1000, cookie_uid = Some ''1'', cookie_token = Some ''ab'', new_id = ''2'',
       rnd = [], md5 = rev\<rparr>, params = ps,
     router = (\<lambda>d. Inr (JDict [(''code'', JInt 0), (''data'', JStr ''done''), (''notice_id'', JInt 4)])),
     loads = (\<lambda>s. Inr (if s = ''uuids'' then JList [JStr ''11'', JStr ''12''] else JList [])), dumps = (\<lambda>j. []), repr = (\<lambda>j. []),
     fmt_time = int_str\<rparr>"

definition sample_user :: user where
  "sample_user = \<lparr>uid = ''1'', uname = ''op'', nick = ''op'', pwd = [], create_ts = 0, modify_ts = 0, status = NORMAL,
     token = ''ab'', token_expire = 2000, login_ip = [], login_ts = 0, last_login_ip = [], last_login_ts = 0,
     group_id = ''1''\<rparr>"

definition sample_web :: web where
  "sample_web = \<lparr>acct = \<lparr>groups = (let g = \<lparr>gid = ''1'', num = 1, gname = ''ops'', ginfo = [], power_list = ALL_POWER\<rparr>
       in \<lparr>docs = [(''1'', g)], cache = [(''1'', g)]\<rparr>),
     users = \<lparr>docs = [(''1'', sample_user)], cache = [(''1'', sample_user)]\<rparr>, oplog = []\<rparr>, sent = []\<rparr>"

definition notice_params :: "(str \<times> str) list" where
  "notice_params = [(''server_id'', ''55''), (''content'', ''hi''), (''notice_id'', ''4''), (''interval'', ''60''),
     (''start_ts'', ''5000''), (''end_ts'', ''9000'')]"

lemma sample_router:
  "router (sample_wenv ps) d = Inr (JDict [(''code'', JInt 0), (''data'', JStr ''done''), (''notice_id'', JInt 4)])"
  by (simp add: sample_wenv_def)

lemma notice_numbers:
  "int_arg (sample_wenv notice_params) ''interval'' = Inr (JInt 60)"
  "int_arg (sample_wenv notice_params) ''start_ts'' = Inr (JInt 5000)"
  "int_arg (sample_wenv notice_params) ''end_ts'' = Inr (JInt 9000)"
  "arg (sample_wenv notice_params) ''start_ts'' = JStr ''5000''"
  "arg (sample_wenv notice_params) ''end_ts'' = JStr ''9000''"
  by code_simp+

lemma edit_roll_notice_times_witness:
  "\<exists>(w1 :: web) (w2 :: web) (m1 :: message) (m2 :: message). sent w1 = [m1] \<and> sent w2 = [m2] \<and>
     map_of (m_data m1) ''start_ts'' = Some (JInt 60) \<and> map_of (m_data m2) ''start_ts'' = Some (JInt 5000)"
proof -
  let ?e = "sample_wenv notice_params"
  have "interval_arg ?e = Inr (JInt 60)" by code_simp
  then obtain j w1 k w2 where "edit_roll_notice ?e sample_user sample_web = Inr (j, w1)"
    "add_roll_notice ?e sample_user sample_web = Inr (k, w2)"
    by (auto simp: edit_roll_notice_def add_roll_notice_def edit_ts_def ts_arg_def notice_numbers on_code_def
        call_gm_def req_gm_router_def Let_def sample_router dict_get_def log_then_def pass_text_def)
  from edit_roll_notice_times [OF _ _ notice_numbers(1-3) this] obtain m1 m2 where
    "sent w1 = [m1]" "sent w2 = [m2]" "map_of (m_data m1) ''start_ts'' = Some (JInt 60)"
    "map_of (m_data m2) ''start_ts'' = Some (JInt 5000)"
    by (auto simp: notice_numbers sample_web_def)
  then show ?thesis by blast
qed

lemma mail_one_step:
  "mail_one e u items (bad, w) k = Inr (bad', w') \<Longrightarrow>
   \<exists>m. sent w' = sent w @ [m] \<and> map_of (m_data m) ''uuid_list'' = Some (JList [k]) \<and>
     (bad' = bad \<and> (\<exists>r. router e (m_data m) = Inr r \<and> jget ''code'' r = Inr (JInt 0)) \<or>
      (\<exists>x. bad' = bad @ [x]) \<and> (\<exists>r. router e (m_data m) = Inr r \<and> jget ''code'' r \<noteq> Inr (JInt 0)))"
  by (auto simp: mail_one_def role_mail_def req_gm_router_def Let_def res_simps web_log_def split: if_splits)

lemma mail_loop:
  "foldR (mail_one e u items) (bad, w) ks = Inr (bad', w') \<Longrightarrow>
   \<exists>ms. sent w' = sent w @ ms \<and> map (\<lambda>m. map_of (m_data m) ''uuid_list'') ms = map (\<lambda>k. Some (JList [k])) ks \<and>
     (bad' = [] \<longleftrightarrow> bad = [] \<and> (\<forall>m \<in> set ms. \<exists>r. router e (m_data m) = Inr r \<and> jget ''code'' r = Inr (JInt 0)))"
proof (induction ks arbitrary: bad w)
  case (Cons k ks)
  then obtain b1 w1 where 1: "mail_one e u items (bad, w) k = Inr (b1, w1)"
    "foldR (mail_one e u items) (b1, w1) ks = Inr (bad', w')"
    by (auto simp: rbind_eq_Inr)
  obtain m where m: "sent w1 = sent w @ [m]" "map_of (m_data m) ''uuid_list'' = Some (JList [k])"
    "b1 = [] \<longleftrightarrow> bad = [] \<and> (\<exists>r. router e (m_data m) = Inr r \<and> jget ''code'' r = Inr (JInt 0))"
    using mail_one_step [OF 1(1)] by fastforce
  obtain ms where ms: "sent w' = sent w1 @ ms" "map (\<lambda>m. map_of (m_data m) ''uuid_list'') ms = map (\<lambda>k. Some (JList [k])) ks"
    "bad' = [] \<longleftrightarrow> b1 = [] \<and> (\<forall>m \<in> set ms. \<exists>r. router e (m_data m) = Inr r \<and> jget ''code'' r = Inr (JInt 0))"
    using Cons.IH [OF 1(2)] by blast
  show ?case using m ms by (intro exI [of _ "m # ms"]) auto
qed simp

text \<open>
  Mailing a list of players sends one mail to each of them, in order, whether or not the earlier
  ones were accepted, and answers \<open>ok\<close> exactly when all of them were.
\<close>

theorem add_mail_role_each:
  assumes "json_arg e ''arr_uuids'' = Inr (JList ks)" "ks \<noteq> []" "all_digits ks = Inr True"
    and "add_mail_role e u w = Inr (j, w')"
  shows "\<exists>ms. sent w' = sent w @ ms \<and> map (\<lambda>m. map_of (m_data m) ''uuid_list'') ms = map (\<lambda>k. Some (JList [k])) ks \<and>
     (j = info (JStr ''ok'') \<longleftrightarrow> (\<forall>m \<in> set ms. \<exists>r. router e (m_data m) = Inr r \<and> jget ''code'' r = Inr (JInt 0)))"
proof -
  obtain items bad where f: "foldR (mail_one e u items) ([], w) ks = Inr (bad, w')" "j = mail_answer bad"
    using assms by (auto simp: add_mail_role_def rbind_eq_Inr)
  have "j = info (JStr ''ok'') \<longleftrightarrow> bad = []" using f(2) by (auto simp: mail_answer_def info_def err_def)
  with mail_loop [OF f(1)] show ?thesis by auto
qed

definition mail_params :: "(str \<times> str) list" where
  "mail_params = [(''server_id'', ''55''), (''title'', ''t''), (''content'', ''c''), (''item_list'', ''items''), (''arr_uuids'', ''uuids'')]"

lemma add_mail_role_each_witness:
  "\<exists>w' ms. add_mail_role (sample_wenv mail_params) sample_user sample_web = Inr (info (JStr ''ok''), w') \<and>
     sent w' = ms \<and> map (\<lambda>m. map_of (m_data m) ''uuid_list'') ms = [Some (JList [JStr ''11'']), Some (JList [JStr ''12''])]"
proof -
  let ?e = "sample_wenv mail_params"
  have j: "json_arg ?e ''arr_uuids'' = Inr (JList [JStr ''11'', JStr ''12''])"
    by (simp add: json_arg_def sample_wenv_def mail_params_def)
  have d: "all_digits [JStr ''11'', JStr ''12''] = Inr True" by code_simp
  have a: "arg ?e ''title'' = JStr ''t''" "arg ?e ''content'' = JStr ''c''" "json_arg ?e ''item_list'' = Inr (JList [])"
    by (simp_all add: arg_def json_arg_def sample_wenv_def mail_params_def)
  obtain w' where r: "add_mail_role ?e sample_user sample_web = Inr (info (JStr ''ok''), w')"
    by (simp add: add_mail_role_def j d a mail_one_def role_mail_def req_gm_router_def Let_def mail_text_def
        sample_router dict_get_def mail_answer_def del: all_digits.simps)
  from add_mail_role_each [OF j _ d r] r show ?thesis by (auto simp: sample_web_def)
qed

lemma sample_session:
  "get_curr_user (wbase (sample_wenv ps)) (acct sample_web) = Some sample_user" "\<not> is_disabled sample_user"
  "check_power (acct sample_web) sample_user ''player_forbid''"
proof -
  show "get_curr_user (wbase (sample_wenv ps)) (acct sample_web) = Some sample_user"
    by (simp add: get_curr_user_def sample_wenv_def sample_web_def sample_user_def get_user_by_uid_def get_by_key_def)
  show "\<not> is_disabled sample_user" by (simp add: is_disabled_def sample_user_def NORMAL_def DISABLED_def utf8_def)
  have "split_on '','' ''player_forbid'' = [''player_forbid'']" "split_on ''/'' ''player_forbid'' = [''player_forbid'']"
    by (rule split_on_single_Nil, simp)+
  then show "check_power (acct sample_web) sample_user ''player_forbid''"
    by (simp add: check_power_def get_group_by_key_def get_by_key_def sample_web_def sample_user_def ALL_POWER_def Let_def)
qed

lemma kick_sample:
  "\<exists>w'. dispatch (sample_wenv [(''uuid'', ''9''), (''server_id'', ''55'')]) ''/kick_role'' sample_web =
     Inr (info (JStr ''True''), w') \<and> sent w' \<noteq> []"
proof -
  have "map_of routes ''/kick_role'' = Some (Guarded ''player_forbid'' kick_role)"
    by (simp add: routes_def one_command_def)
  then show ?thesis
    by (simp add: dispatch_def sample_session)
      (simp add: kick_role_def arg_def sample_wenv_def on_code_def call_gm_def req_gm_router_def Let_def dict_get_def
        log_then_def web_log_def sample_web_def)
qed

lemma page_sends_own_command_witness:
  "\<exists>j w' m. dispatch (sample_wenv [(''uuid'', ''9''), (''server_id'', ''55'')]) ''/kick_role'' sample_web = Inr (j, w') \<and>
     sent w' = [m] \<and> map_of (m_data m) ''gm_name'' = Some (JStr ''kick_role'')"
proof -
  have "(''/kick_role'', ''player_forbid'', kick_role, ''kick_role'') \<in> set one_command" by (simp add: one_command_def)
  moreover have "sent sample_web = []" by (simp add: sample_web_def)
  ultimately show ?thesis using kick_sample page_sends_own_command by (metis append_Nil)
qed


end
