(* ===== verification/Gm_Notices.thy ===== *)
theory Gm_Notices
  imports Gm_Pages
begin

text \<open>
  The pages of the management server that work on their own collections: system notices
  (\<^verbatim>\<open>view_system_notify.py\<close>), server patch addresses (\<^verbatim>\<open>view_role_log.py\<close>), the operation
  log (\<^verbatim>\<open>view_user_log.py\<close>), and the version files: \<^verbatim>\<open>view_version.py\<close>, which signs an update, with
  \<^verbatim>\<open>version_http/main.py\<close>, which checks it. A MongoDB collection is a list in insertion order;
  \<open>find_one\<close>, \<open>delete_one\<close> and \<open>replace_one\<close> take the first match.
\<close>

subsection \<open>System notices\<close>

record notice =
  notice_id :: int
  title :: json
  content :: json
  state :: json
  start_ts :: json
  end_ts :: json

definition OP_FAIL :: str where "OP_FAIL = utf8 [0xe6, 0x93, 0x8d, 0xe4, 0xbd, 0x9c, 0xe5, 0xa4, 0xb1, 0xe8, 0xb4, 0xa5]"

fun delete_first :: "('a \<Rightarrow> bool) \<Rightarrow> 'a list \<Rightarrow> 'a list" where
  "delete_first P [] = []"
| "delete_first P (x # xs) = (if P x then xs else x # delete_first P xs)"

fun replace_first :: "('a \<Rightarrow> bool) \<Rightarrow> 'a \<Rightarrow> 'a list \<Rightarrow> 'a list" where
  "replace_first P y [] = []"
| "replace_first P y (x # xs) = (if P x then y # xs else x # replace_first P y xs)"

text \<open>The notice of the form, with the id given.\<close>

definition form_notice :: "wenv \<Rightarrow> int \<Rightarrow> notice res" where
  "form_notice e i =
     rbind (ts_arg e ''start_ts'' 2) (\<lambda>a. rbind (ts_arg e ''end_ts'' 100) (\<lambda>b.
       Inr \<lparr>notice_id = i, title = arg e ''title'', content = arg e ''content'', state = arg e ''state'',
            start_ts = a, end_ts = b\<rparr>))"

definition answer_if :: "bool \<Rightarrow> json" where
  "answer_if b = (if b then info (JStr OP_OK) else err (JStr OP_FAIL))"

definition add_system_notice :: "wenv \<Rightarrow> notice list \<Rightarrow> (json \<times> notice list) res" where
  "add_system_notice e ns =
     (let i = int (length ns) + 1 in
      rbind (form_notice e i) (\<lambda>n. let ns' = ns @ [n] in Inr (answer_if (int (length ns') = i), ns')))"

definition id_arg :: "wenv \<Rightarrow> str \<Rightarrow> int res" where
  "id_arg e k = rbind (int_arg e k) (\<lambda>j. case j of JInt i \<Rightarrow> Inr i | _ \<Rightarrow> Inl TypeError)"

definition delete_system_notice :: "wenv \<Rightarrow> notice list \<Rightarrow> (json \<times> notice list) res" where
  "delete_system_notice e ns =
     rbind (id_arg e ''notice_id'') (\<lambda>i.
       let ns' = delete_first (\<lambda>n. notice_id n = i) ns
       in Inr (answer_if (int (length ns') = int (length ns) - 1), ns'))"

definition edit_system_notice :: "wenv \<Rightarrow> notice list \<Rightarrow> (json \<times> notice list) res" where
  "edit_system_notice e ns =
     rbind (id_arg e ''notice_id'') (\<lambda>i. rbind (form_notice e i) (\<lambda>n.
       let ns' = replace_first (\<lambda>x. notice_id x = i) n ns in Inr (answer_if (n \<in> set ns'), ns')))"

definition query_system_notice :: "notice list \<Rightarrow> notice list" where
  "query_system_notice ns = ns"

text \<open>The public page shows title, content and state only.\<close>

definition view_notify :: "notice list \<Rightarrow> (json \<times> json \<times> json) list" where
  "view_notify ns = map (\<lambda>n. (title n, content n, state n)) ns"

lemma delete_first_length:
  "length (delete_first P xs) = (if \<exists>x \<in> set xs. P x then length xs - 1 else length xs)"
proof (induction xs)
  case (Cons x xs)
  then show ?case by (cases xs) auto
qed simp

lemma delete_first_map: "map f (delete_first (\<lambda>x. f x = i) xs) = remove1 i (map f xs)"
  by (induction xs) auto

lemma add_ids:
  "add_system_notice e ns = Inr (j, ns') \<Longrightarrow> map notice_id ns' = map notice_id ns @ [int (length ns) + 1]"
  by (auto simp: add_system_notice_def form_notice_def Let_def res_simps)

text \<open>
  Notice ids stay distinct as long as no notice is deleted before the last one: adding gives a
  fresh id exactly when no notice has the number that follows the count.
\<close>

theorem add_system_notice_fresh:
  assumes "add_system_notice e ns = Inr (j, ns')" "distinct (map notice_id ns)"
  shows "j = info (JStr OP_OK) \<and>
    (distinct (map notice_id ns') \<longleftrightarrow> int (length ns) + 1 \<notin> set (map notice_id ns))"
proof -
  have "j = info (JStr OP_OK)" using assms(1)
    by (auto simp: add_system_notice_def Let_def res_simps answer_if_def)
  then show ?thesis using assms(2) by (simp add: add_ids [OF assms(1)])
qed

text \<open>
  Deleting any notice but the last and then adding one gives two notices the same id: with the
  ids 1 to n, the new notice gets the id n, which the last one has.
\<close>

theorem notice_id_reused:
  assumes "map notice_id ns = map int [1..<Suc n]" "id_arg e ''notice_id'' = Inr (int i)" "1 \<le> i" "i < n"
    and "delete_system_notice e ns = Inr (j1, ns1)" "add_system_notice e' ns1 = Inr (j2, ns2)"
  shows "j1 = info (JStr OP_OK) \<and> j2 = info (JStr OP_OK) \<and> \<not> distinct (map notice_id ns2)"
proof -
  have d: "ns1 = delete_first (\<lambda>x. notice_id x = int i) ns"
    and j1: "j1 = answer_if (int (length ns1) = int (length ns) - 1)"
    using assms(2,5) by (auto simp: delete_system_notice_def Let_def)
  have len: "length ns = n" using arg_cong [OF assms(1), of length] by simp
  have "int i \<in> set (map notice_id ns)" using assms(1,3,4) by auto
  then have l1: "length ns1 = n - 1" unfolding d by (auto simp: delete_first_length len)
  then have "j1 = info (JStr OP_OK)" using j1 len assms(3,4) by (simp add: answer_if_def)
  have "map notice_id ns1 = remove1 (int i) (map int [1..<Suc n])"
    unfolding d by (simp only: delete_first_map assms(1))
  moreover have "int n \<in> set (map int [1..<Suc n])" using assms(3,4) by auto
  ultimately have "int n \<in> set (map notice_id ns1)" using assms(4) by (simp add: in_set_remove1 del: upt_Suc)
  moreover have "map notice_id ns2 = map notice_id ns1 @ [int n]"
    using add_ids [OF assms(6)] l1 assms(3,4) by simp
  moreover have "j2 = info (JStr OP_OK)" using assms(6)
    by (auto simp: add_system_notice_def Let_def res_simps answer_if_def)
  ultimately show ?thesis using \<open>j1 = info (JStr OP_OK)\<close> by simp
qed

subsection \<open>Patch addresses\<close>

record patch =
  patch_id :: int
  patch_args :: "json list"
  patch_now :: int

definition patch_server_url :: "wenv \<Rightarrow> patch list \<Rightarrow> (json \<times> patch list) res" where
  "patch_server_url e ps =
     rbind (id_arg e ''id'') (\<lambda>i. Inr (info (JStr OP_OK), ps @ [\<lparr>patch_id = i,
       patch_args = [arg e ''param1'', arg e ''param2'', arg e ''param3'', arg e ''param4''], patch_now = clock e\<rparr>]))"

definition view_server_url :: "wenv \<Rightarrow> patch list \<Rightarrow> patch list res" where
  "view_server_url e ps = rbind (id_arg e ''id'') (\<lambda>i. Inr (rev (filter (\<lambda>p. patch_id p = i) ps)))"

text \<open>The times come in milliseconds; every entry found is deleted by its time.\<close>

definition delete_server_url :: "wenv \<Rightarrow> patch list \<Rightarrow> (json \<times> patch list) res" where
  "delete_server_url e ps =
     rbind (id_arg e ''begin_time'') (\<lambda>b0. rbind (id_arg e ''end_time'') (\<lambda>c0.
       let found = filter (\<lambda>p. b0 div 1000 \<le> patch_now p \<and> patch_now p \<le> c0 div 1000) ps
       in Inr (info (JStr OP_OK), fold (\<lambda>q ps. delete_first (\<lambda>p. patch_now p = patch_now q) ps) found ps)))"

lemma delete_first_skip: "\<not> P x \<Longrightarrow> fold (\<lambda>q ps. delete_first (\<lambda>p. f p = f q) ps) qs (x # ps) =
    (if \<exists>q \<in> set qs. f q = f x then fold (\<lambda>q ps. delete_first (\<lambda>p. f p = f q) ps) (delete_first (\<lambda>q. f q = f x) qs) ps
     else x # fold (\<lambda>q ps. delete_first (\<lambda>p. f p = f q) ps) qs ps)"
  by (induction qs arbitrary: x ps) auto

lemma delete_found:
  "fold (\<lambda>q ps. delete_first (\<lambda>p. f p = f q) ps) (filter (\<lambda>p. P (f p)) ps) ps = filter (\<lambda>p. \<not> P (f p)) ps"
proof (induction ps)
  case (Cons p ps)
  show ?case
  proof (cases "P (f p)")
    case False
    then have "\<not> (\<exists>q \<in> set (filter (\<lambda>p. P (f p)) ps). f q = f p)" by auto
    then show ?thesis using False Cons delete_first_skip [of "\<lambda>_. False" p f "filter (\<lambda>p. P (f p)) ps" ps]
      by simp
  qed (use Cons in simp)
qed simp

text \<open>
  Deleting patch addresses by time removes exactly the entries whose second lies in the given
  range, also when several entries have the same second, and keeps the order of the others.
\<close>

theorem delete_server_url_exact:
  assumes "id_arg e ''begin_time'' = Inr b" "id_arg e ''end_time'' = Inr c"
  shows "delete_server_url e ps = Inr (info (JStr OP_OK),
    filter (\<lambda>p. \<not> (b div 1000 \<le> patch_now p \<and> patch_now p \<le> c div 1000)) ps)"
  using assms delete_found [of patch_now "\<lambda>t. b div 1000 \<le> t \<and> t \<le> c div 1000" ps]
  by (simp add: delete_server_url_def Let_def)

subsection \<open>The operation log\<close>

text \<open>The day of the form is turned into its first second by \<open>day\<close>.\<close>

definition query_user_log :: "(str \<Rightarrow> rat res) \<Rightarrow> wenv \<Rightarrow> gm \<Rightarrow> (log_entry list option) res" where
  "query_user_log day e st =
     rbind (case arg e ''ts_begin'' of JStr s \<Rightarrow> if s = [] then Inr 0 else day s | _ \<Rightarrow> Inr 0) (\<lambda>b.
     rbind (case arg e ''ts_end'' of
         JStr s \<Rightarrow> if s = [] then Inr (now (wbase e)) else rbind (day s) (\<lambda>t. Inr (t + 24 * 3600))
       | _ \<Rightarrow> Inr (now (wbase e))) (\<lambda>c.
     let hits = filter (\<lambda>l. of_int (log_ts l) < c \<and> b < of_int (log_ts l)) (oplog st) in
     case arg e ''name'' of
       JStr n \<Rightarrow>
         if n = [] then Inr (Some (take 1000 hits))
         else if get_user_by_name st n = None then Inr None
         else Inr (Some (take 1000 (filter (\<lambda>l. log_user l = n) hits)))
     | _ \<Rightarrow> Inr (Some (take 1000 hits))))"

subsection \<open>Version files\<close>

definition VERSION_KEY :: str where
  "VERSION_KEY = ''bHDsfXPt26Tjr35pXJHwVHxHXFsfCNGe''"

definition BAD_SIGN :: str where "BAD_SIGN = utf8 [0xe7, 0xad, 0xbe, 0xe5, 0x90, 0x8d, 0xe9, 0x94, 0x99, 0xe8, 0xaf, 0xaf]"
definition UPDATED :: str where "UPDATED = utf8 [0xe6, 0x9b, 0xb4, 0xe6, 0x96, 0xb0, 0xe5, 0xae, 0x8c, 0xe6, 0x88, 0x90]"

definition version_sign :: "(str \<Rightarrow> str) \<Rightarrow> (json \<Rightarrow> str) \<Rightarrow> json \<Rightarrow> json \<Rightarrow> str" where
  "version_sign md5' dumps' ts args =
     md5' (''ts='' @ (case ts of JInt i \<Rightarrow> int_str i | JStr s \<Rightarrow> s | _ \<Rightarrow> ''None'') @ ''&key='' @ VERSION_KEY @ ''&args='' @ dumps' args)"

definition version_entry :: "wenv \<Rightarrow> str \<Rightarrow> str \<Rightarrow> json" where
  "version_entry e u v =
     JDict [(''url'', arg e u), (''version'', arg e v), (''context'', arg e ''context''), (''state'', arg e ''state'')]"

text \<open>The request \<open>update_version\<close> posts.\<close>

definition update_version :: "wenv \<Rightarrow> json" where
  "update_version e =
     (let args = JDict [(''android'', version_entry e ''android_url'' ''android_version''),
                        (''ios'', version_entry e ''ios_url'' ''ios_version'')];
          ts = JInt (clock e)
      in JDict [(''args'', args), (''ts'', ts), (''sign'', JStr (version_sign (md5 (wbase e)) (dumps e) ts args))])"

text \<open>
  The version server keeps one file per channel; \<open>None\<close> is an empty file. A file is opened, and so
  emptied, before the entry to write is looked up.
\<close>

type_synonym files = "(str \<times> json option) list"

definition jget_none :: "str \<Rightarrow> json \<Rightarrow> json" where
  "jget_none k j = (case jget k j of Inl _ \<Rightarrow> JNull | Inr x \<Rightarrow> x)"

definition write_channel :: "json \<Rightarrow> unit res \<times> files \<Rightarrow> str \<Rightarrow> unit res \<times> files" where
  "write_channel args = (\<lambda>(r, fs) ch.
     if r \<noteq> Inr () then (r, fs)
     else case jget ch args of
            Inl x \<Rightarrow> (Inl x, AList.update ch None fs)
          | Inr v \<Rightarrow> (Inr (), AList.update ch (Some v) fs))"

definition update_static :: "(str \<Rightarrow> str) \<Rightarrow> (json \<Rightarrow> str) \<Rightarrow> json \<Rightarrow> files \<Rightarrow> json res \<times> files" where
  "update_static md5' dumps' req files =
     (let args = jget_none ''args'' req in
      if JStr (version_sign md5' dumps' (jget_none ''ts'' req) args) \<noteq> jget_none ''sign'' req
      then (Inr (err (JStr BAD_SIGN)), files)
      else let (r, fs) = foldl (write_channel args) (Inr (), files) [''ios'', ''android'']
           in (rbind r (\<lambda>_. Inr (info (JStr UPDATED))), fs))"

definition query_version :: "files \<Rightarrow> json res" where
  "query_version files =
     rbind (mapR (\<lambda>ch. rbind (dict_get files ch) (\<lambda>c. case c of None \<Rightarrow> Inl ValueError | Some v \<Rightarrow> Inr (ch, v)))
        [''ios'', ''android'']) (\<lambda>d. Inr (JDict d))"

lemma update_static_sent:
  "\<exists>files'. update_static (md5 (wbase e)) (dumps e) (update_version e) files = (Inr (info (JStr UPDATED)), files') \<and>
      query_version files' = Inr (JDict [(''ios'', version_entry e ''ios_url'' ''ios_version''),
        (''android'', version_entry e ''android_url'' ''android_version'')])"
  by (auto simp: update_static_def update_version_def jget_none_def dict_get_def Let_def query_version_def
      write_channel_def update_conv' split: option.splits)

text \<open>
  The version server takes exactly the requests whose signature is the digest of their own time
  and content under the shared key; any other request leaves the files alone. An update the
  management page sends is taken, and the version query then shows what its form said.
\<close>

theorem version_update:
  "(jget_none ''sign'' req \<noteq> JStr (version_sign (md5 (wbase e)) (dumps e) (jget_none ''ts'' req) (jget_none ''args'' req))
      \<longrightarrow> update_static (md5 (wbase e)) (dumps e) req files = (Inr (err (JStr BAD_SIGN)), files)) \<and>
   (\<exists>files'. update_static (md5 (wbase e)) (dumps e) (update_version e) files = (Inr (info (JStr UPDATED)), files') \<and>
      query_version files' = Inr (JDict [(''ios'', version_entry e ''ios_url'' ''ios_version''),
        (''android'', version_entry e ''android_url'' ''android_version'')]))"
  using update_static_sent [of e files] by (auto simp: update_static_def Let_def)

subsection \<open>The hypotheses can hold\<close>

definition note_params :: "(str \<times> str) list" where
  "note_params = [(''notice_id'', ''1''), (''start_ts'', ''5''), (''end_ts'', ''9''), (''begin_time'', ''3000''), (''end_time'', ''5000'')]"

definition sample_notes :: "notice list" where
  "sample_notes = map (\<lambda>i. \<lparr>notice_id = i, title = JNull, content = JNull, state = JNull, start_ts = JNull, end_ts = JNull\<rparr>) [1, 2, 3]"

lemma note_args:
  "id_arg (sample_wenv note_params) ''notice_id'' = Inr 1"
  "id_arg (sample_wenv note_params) ''begin_time'' = Inr 3000"
  "id_arg (sample_wenv note_params) ''end_time'' = Inr 5000"
  "map notice_id sample_notes = [1, 2, 3]"
  "ts_arg (sample_wenv note_params) ''start_ts'' d = Inr (JInt 5)"
  "ts_arg (sample_wenv note_params) ''end_ts'' d = Inr (JInt 9)"
  by (simp_all add: ts_arg_def) code_simp+

lemma add_notes: "\<exists>j ns'. add_system_notice (sample_wenv note_params) ns = Inr (j, ns')"
  by (simp add: add_system_notice_def form_notice_def note_args Let_def)

lemma add_system_notice_fresh_witness:
  "\<exists>j ns'. add_system_notice (sample_wenv note_params) sample_notes = Inr (j, ns') \<and> distinct (map notice_id ns')"
proof -
  obtain j ns' where a: "add_system_notice (sample_wenv note_params) sample_notes = Inr (j, ns')" using add_notes by blast
  have "length sample_notes = 3" by (simp add: sample_notes_def)
  with add_system_notice_fresh [OF a] a note_args(4) show ?thesis by auto
qed

lemma notice_id_reused_witness:
  "\<exists>j1 ns1 j2 ns2. delete_system_notice (sample_wenv note_params) sample_notes = Inr (j1, ns1) \<and>
     add_system_notice (sample_wenv note_params) ns1 = Inr (j2, ns2) \<and> \<not> distinct (map notice_id ns2)"
proof -
  obtain j1 ns1 where d: "delete_system_notice (sample_wenv note_params) sample_notes = Inr (j1, ns1)"
    by (simp add: delete_system_notice_def note_args Let_def)
  obtain j2 ns2 where a: "add_system_notice (sample_wenv note_params) ns1 = Inr (j2, ns2)" using add_notes by blast
  have u: "[1..<Suc 3] = [1, 2, 3]" by code_simp
  have "map notice_id sample_notes = map int [1..<Suc 3]" by (simp only: u note_args) simp
  moreover have "id_arg (sample_wenv note_params) ''notice_id'' = Inr (int 1)" by (simp add: note_args)
  ultimately have "\<not> distinct (map notice_id ns2)" using notice_id_reused [where i = 1 and n = 3, OF _ _ _ _ d a] by fastforce
  with d a show ?thesis by blast
qed

lemma delete_server_url_exact_witness:
  "delete_server_url (sample_wenv note_params) (map (\<lambda>t. \<lparr>patch_id = 1, patch_args = [], patch_now = t\<rparr>) [2, 3, 3, 6]) =
    Inr (info (JStr OP_OK), map (\<lambda>t. \<lparr>patch_id = 1, patch_args = [], patch_now = t\<rparr>) [2, 6])"
  by (simp add: delete_server_url_exact [OF note_args(2,3)])

lemma version_update_witness:
  "update_static rev (dumps (sample_wenv [])) (JDict []) [(''ios'', Some JNull)] = (Inr (err (JStr BAD_SIGN)), [(''ios'', Some JNull)])"
proof -
  have "jget_none ''sign'' (JDict []) \<noteq> JStr x" for x by (simp add: jget_none_def dict_get_def)
  moreover have "md5 (wbase (sample_wenv [])) = rev" by (simp add: sample_wenv_def)
  ultimately show ?thesis using version_update [of "JDict []" "sample_wenv []" "[(''ios'', Some JNull)]"] by metis
qed

end
