(* ===== verification/Prof_Node.thy ===== *)
theory Prof_Node
  imports Py_Float
begin

text \<open>
  The call tree of \<^verbatim>\<open>show_profile.py\<close> (class \<open>Node\<close>). A node holds its depth, tag, function, own
  samples, total samples and children; the \<open>father\<close> of a node is the node whose child it is. The
  depth is a field of its own because \<open>merge\<close> sets it only for the nodes it moves. A function is a
  triple of name, file and line; the line is a number or a text. \<open>mass\<close> is the abstract
  content of a tree: the samples of all its nodes.
\<close>

subsection \<open>Nodes\<close>

datatype line_no = LInt int | LStr str

type_synonym func_info = "str \<times> str \<times> line_no"
type_synonym fkey = "str \<times> str \<times> str"

datatype node =
  Node (deep: int) (tag: str) (finfo: func_info) (sample: int) (total: int) (kids: "node list")

definition new_node :: "int \<Rightarrow> str \<Rightarrow> func_info \<Rightarrow> int \<Rightarrow> node" where
  "new_node d t f s = Node d (lower t) f s 0 []"

definition key :: "node \<Rightarrow> fkey" where
  "key n = (tag n, fst (finfo n), fst (snd (finfo n)))"

definition same_func :: "str \<Rightarrow> func_info \<Rightarrow> node \<Rightarrow> bool" where
  "same_func t f n \<longleftrightarrow> (t, fst f, fst (snd f)) = key n"

fun bump :: "int \<Rightarrow> node \<Rightarrow> node" where
  "bump s (Node d t f s0 m cs) = Node d t f (s0 + s) m cs"

fun set_kids :: "node list \<Rightarrow> node \<Rightarrow> node" where
  "set_kids cs (Node d t f s m _) = Node d t f s m cs"

fun set_deep :: "int \<Rightarrow> node \<Rightarrow> node" where
  "set_deep d (Node _ t f s m cs) = Node d t f s m cs"

fun index_of :: "('a \<Rightarrow> bool) \<Rightarrow> 'a list \<Rightarrow> nat option" where
  "index_of P [] = None"
| "index_of P (x # xs) = (if P x then Some 0 else map_option Suc (index_of P xs))"

text \<open>
  \<open>add_child\<close> adds samples to the node itself for a direct recursion, to the child that has the
  function, or to a new child; the second component says which: \<open>[]\<close> the node, \<open>[i]\<close> its child \<open>i\<close>.
\<close>

definition add_child :: "str \<Rightarrow> func_info \<Rightarrow> int \<Rightarrow> node \<Rightarrow> node \<times> nat list" where
  "add_child t f s n =
     (if same_func t f n then (bump s n, [])
      else case index_of (same_func t f) (kids n) of
        Some i \<Rightarrow> (set_kids ((kids n)[i := bump s (kids n ! i)]) n, [i])
      | None \<Rightarrow> (set_kids (kids n @ [new_node (deep n + 1) t f s]) n, [length (kids n)]))"

fun refresh_total_sample :: "node \<Rightarrow> node" where
  "refresh_total_sample (Node d t f s m cs) =
     (let cs' = map refresh_total_sample cs in Node d t f s (s + sum_list (map total cs')) cs')"

text \<open>\<open>int(total * 0.03)\<close> in floating point.\<close>

definition min_sample :: "int \<Rightarrow> int" where
  "min_sample m = trunc (to_double (to_double (of_int m) * to_double (3 / 100)))"

fun hide_min_sample_node :: "int \<Rightarrow> node \<Rightarrow> node" where
  "hide_min_sample_node m (Node d t f s tot cs) =
     (if tot \<le> min_sample m then Node d t f tot tot []
      else Node d t f s tot (map (hide_min_sample_node m) cs))"

definition FUNC_HIDE :: "(str \<times> str list option) list" where
  "FUNC_HIDE =
    [(''ldo.c(skynet)'', None), (''lcorolib.c(skynet)'', None), (''lvm.c(skynet)'', None),
     (''lbaselib.c(skynet)'', None), (''lapi.c(skynet)'', None), (''ltm.c(skynet)'', None),
     (''[C]'', Some [''global <xpcall:-1>'', ''upvalue <coroutine_resume:-1>''])]"

definition hide_func :: "func_info \<Rightarrow> bool" where
  "hide_func f = (case map_of FUNC_HIDE (fst (snd f)) of
      None \<Rightarrow> False | Some None \<Rightarrow> True | Some (Some names) \<Rightarrow> fst f \<in> set names)"

definition can_hide :: "node \<Rightarrow> bool" where
  "can_hide n = hide_func (finfo n)"

text \<open>
  \<open>merge\<close> adds the samples of another node, and merges its children one after the other: into the
  child with the same key, or as a new child.
\<close>

fun merge :: "node \<Rightarrow> node \<Rightarrow> node"
  and put_child :: "int \<Rightarrow> node list \<Rightarrow> node \<Rightarrow> node list"
  and merge_kids :: "int \<Rightarrow> node list \<Rightarrow> node list \<Rightarrow> node list" where
  "merge (Node d t f s m cs) (Node d' t' f' s' m' cs') = Node d t f (s + s') m (merge_kids (d + 1) cs cs')"
| "put_child d [] x = [set_deep d x]"
| "put_child d (c # cs) x = (if key x = key c then merge c x # cs else c # put_child d cs x)"
| "merge_kids d cs [] = cs"
| "merge_kids d cs (x # xs) = merge_kids d (put_child d cs x) xs"

fun hide_lua_vm_func :: "node \<Rightarrow> node" where
  "hide_lua_vm_func (Node d t f s m cs) =
     (let cs' = map hide_lua_vm_func cs
      in fold (\<lambda>c n. merge n c) (filter can_hide cs') (Node d t f s m (filter (\<lambda>c. \<not> can_hide c) cs')))"

definition get_hide_lua_node :: "node \<Rightarrow> node option" where
  "get_hide_lua_node n = List.find (\<lambda>c. fst (finfo c) = ''lua_hide'') (kids n)"

subsection \<open>Printing and the forms a tree is saved in\<close>

definition rjust :: "nat \<Rightarrow> char \<Rightarrow> str \<Rightarrow> str" where
  "rjust w c s = replicate (w - length s) c @ s"

fun line_str :: "line_no \<Rightarrow> str" where
  "line_str (LInt i) = int_str i"
| "line_str (LStr s) = s"

definition func_text :: "func_info \<Rightarrow> str" where
  "func_text f = fst f @ '' => '' @ fst (snd f) @ '':'' @ line_str (snd (snd f))"

definition indent :: "int \<Rightarrow> str" where
  "indent d = replicate (nat d) CHR '' ''"

definition to_line :: "node \<Rightarrow> str" where
  "to_line n = indent (deep n) @ rjust 4 CHR '' '' (int_str (sample n)) @ ''/'' @ rjust 4 CHR '' '' (int_str (total n))
     @ '' '' @ rjust 3 CHR '' '' (tag n) @ '' '' @ func_text (finfo n)"

text \<open>\<open>%.3f\<close> of a quotient of two counts; a zero divisor raises.\<close>

definition ZeroDivision :: exc where "ZeroDivision = RuntimeError ''ZeroDivisionError''"

definition quotient :: "int \<Rightarrow> int \<Rightarrow> rat res" where
  "quotient a b = (if b = 0 then Inl ZeroDivision else Inr (to_double (to_double (of_int a) / to_double (of_int b))))"

definition fixed3 :: "rat \<Rightarrow> str" where
  "fixed3 x = (let m = nat (round_he (\<bar>x\<bar> * 1000))
     in (if x < 0 then ''-'' else []) @ nat_str (m div 1000) @ ''.'' @ rjust 3 CHR ''0'' (nat_str (m mod 1000)))"

definition two_digits :: "int \<Rightarrow> str" where
  "two_digits d = (if d < 0 then int_str d else rjust 2 CHR ''0'' (int_str d))"

definition node_line :: "int \<Rightarrow> node \<Rightarrow> str res" where
  "node_line tot n = rbind (quotient (sample n) tot) (\<lambda>a. rbind (quotient (total n) tot) (\<lambda>b.
     Inr (indent (deep n) @ two_digits (deep n) @ '' '' @ fixed3 a @ ''/'' @ fixed3 b @ '' '' @
       rjust 3 CHR '' '' (tag n) @ '' '' @ func_text (finfo n))))"

fun full_str :: "int \<Rightarrow> node \<Rightarrow> str list \<Rightarrow> str list res" where
  "full_str tot (Node d t f s m cs) out =
     rbind (node_line tot (Node d t f s m cs)) (\<lambda>l. foldR (\<lambda>o1 c. full_str tot c o1) (out @ [l]) cs)"

definition times_f :: "rat \<Rightarrow> int \<Rightarrow> rat" where
  "times_f q m = to_double (to_double q * to_double (of_int m))"

fun simple_str :: "int \<Rightarrow> node \<Rightarrow> str list \<Rightarrow> str list res" where
  "simple_str tot (Node d t f s m cs) out =
     rbind (if 0 \<le> d \<and> times_f (1 / 100) m < of_int s
            then rbind (node_line tot (Node d t f s m cs)) (\<lambda>l. Inr (out @ [l])) else Inr out)
       (\<lambda>out1. foldR (\<lambda>o1 c. if max (times_f (1 / 1000) tot) (times_f (1 / 10) m) < of_int (total c)
                      then simple_str tot c o1 else Inr o1) out1 cs)"

text \<open>A saved tree: the \<open>self\<close> triple and the children.\<close>

datatype saved = Saved "str \<times> func_info \<times> int" "saved list"

primrec to_dict :: "node \<Rightarrow> saved" where
  "to_dict (Node d t f s m cs) = Saved (t, f, s) (map to_dict cs)"

fun from_dict :: "saved \<Rightarrow> int option \<Rightarrow> node" where
  "from_dict (Saved (t, f, s) cs) father =
     (let d = (case father of None \<Rightarrow> 0 | Some fd \<Rightarrow> 1 + fd)
      in set_kids (map (\<lambda>c. from_dict c (Some d)) cs) (new_node d t f s))"

text \<open>\<open>--text\<close>: own and total samples by function, along the stack of callers.\<close>

type_synonym func_dict = "((str \<times> func_info) \<times> int \<times> int) list"

definition count_node :: "node \<Rightarrow> (str \<times> func_info) list \<Rightarrow> func_dict \<Rightarrow> func_dict" where
  "count_node n fathers out =
     (let k = (tag n, finfo n) in
      if 0 < sample n then
        (case map_of out k of
           Some (a, b) \<Rightarrow> AList.update k (a + sample n, if k \<notin> set fathers then b + total n else b) out
         | None \<Rightarrow> AList.update k (sample n, total n) out)
      else out)"

fun to_func_dict :: "node \<Rightarrow> (str \<times> func_info) list \<Rightarrow> func_dict \<Rightarrow> func_dict" where
  "to_func_dict (Node d t f s m cs) fathers out =
     fold (\<lambda>c o1. to_func_dict c (fathers @ [(t, f)]) o1) cs (count_node (Node d t f s m cs) fathers out)"

subsection \<open>The samples of a tree\<close>

fun mass :: "node \<Rightarrow> int" where
  "mass (Node d t f s m cs) = s + sum_list (map mass cs)"

abbreviation masses :: "node list \<Rightarrow> int" where
  "masses ns \<equiv> sum_list (map mass ns)"

lemma mass_unfold: "mass n = sample n + masses (kids n)"
  by (cases n) simp

lemma node_fields [simp]:
  "kids (bump s n) = kids n" "sample (bump s n) = sample n + s" "finfo (bump s n) = finfo n" "tag (bump s n) = tag n"
  "deep (bump s n) = deep n" "total (bump s n) = total n"
  "kids (set_kids cs n) = cs" "sample (set_kids cs n) = sample n" "finfo (set_kids cs n) = finfo n" "tag (set_kids cs n) = tag n"
  "deep (set_kids cs n) = deep n" "total (set_kids cs n) = total n"
  "kids (set_deep d n) = kids n" "sample (set_deep d n) = sample n" "finfo (set_deep d n) = finfo n" "tag (set_deep d n) = tag n"
  "total (set_deep d n) = total n" "deep (set_deep d n) = d"
  "finfo (merge n x) = finfo n" "tag (merge n x) = tag n"
  by (cases n; cases x; simp)+

lemma key_simps [simp]:
  "key (bump s n) = key n" "key (set_kids cs n) = key n" "key (set_deep d n) = key n" "key (merge n x) = key n"
  by (simp_all add: key_def)

lemma can_hide_simps [simp]:
  "can_hide (bump s n) = can_hide n" "can_hide (set_kids cs n) = can_hide n" "can_hide (set_deep d n) = can_hide n"
  "can_hide (merge n x) = can_hide n"
  by (simp_all add: can_hide_def)

lemma mass_simps [simp]:
  "mass (bump s n) = mass n + s" "mass (set_deep d n) = mass n" "mass (set_kids cs n) = sample n + masses cs"
  "mass (new_node d t f s) = s"
  by (simp_all add: mass_unfold new_node_def)

lemma index_of_Some: "index_of P xs = Some i \<Longrightarrow> i < length xs \<and> P (xs ! i) \<and> (\<forall>j < i. \<not> P (xs ! j))"
proof (induction xs arbitrary: i)
  case (Cons x xs)
  show ?case
  proof (cases "P x")
    case False
    with Cons.prems obtain k where k: "i = Suc k" "index_of P xs = Some k" by auto
    have "j < i \<Longrightarrow> \<not> P ((x # xs) ! j)" for j
      using Cons.IH [OF k(2)] False k(1) by (cases j) auto
    then show ?thesis using Cons.IH [OF k(2)] k(1) by auto
  qed (use Cons.prems in simp)
qed simp

lemma index_of_None: "index_of P xs = None \<longleftrightarrow> (\<forall>x \<in> set xs. \<not> P x)"
  by (induction xs) auto

lemma masses_update: "i < length ns \<Longrightarrow> masses (ns[i := n]) = masses ns + mass n - mass (ns ! i)"
proof (induction ns arbitrary: i)
  case (Cons a ns)
  then show ?case by (cases i) auto
qed simp

lemma sum_map_cong: "\<forall>x \<in> set xs. f x = g x \<Longrightarrow> sum_list (map f xs) = sum_list (map g xs)"
  by (induction xs) auto

lemma add_child_mass: "add_child t f s n = (n', p) \<Longrightarrow> mass n' = mass n + s"
  by (auto simp: add_child_def masses_update mass_unfold [of n] dest!: index_of_Some
      split: if_splits option.splits)

lemma merge_mass:
  "mass (merge n x) = mass n + mass x"
  "masses (put_child d cs x) = masses cs + mass x"
  "masses (merge_kids d cs xs) = masses cs + masses xs"
  by (induction n x and d cs x and d cs xs rule: merge_put_child_merge_kids.induct) auto

lemma fold_merge_mass: "mass (fold (\<lambda>c n. merge n c) cs n) = mass n + masses cs"
  by (induction cs arbitrary: n) (auto simp: merge_mass)

lemma masses_partition: "masses (filter P ns) + masses (filter (\<lambda>c. \<not> P c) ns) = masses ns"
  by (induction ns) auto

lemma hide_lua_mass: "mass (hide_lua_vm_func n) = mass n"
proof (induction n)
  case (Node d t f s m cs)
  then have "masses (map hide_lua_vm_func cs) = masses cs" by (auto simp: o_def intro: sum_map_cong)
  then show ?case using masses_partition [of can_hide "map hide_lua_vm_func cs"]
    by (simp add: fold_merge_mass Let_def)
qed

lemma refresh_fields [simp]:
  "sample (refresh_total_sample n) = sample n" "finfo (refresh_total_sample n) = finfo n"
  "tag (refresh_total_sample n) = tag n" "deep (refresh_total_sample n) = deep n"
  "kids (refresh_total_sample n) = map refresh_total_sample (kids n)"
  "key (refresh_total_sample n) = key n" "can_hide (refresh_total_sample n) = can_hide n"
  by (cases n; simp add: key_def can_hide_def Let_def)+

lemma refresh_mass: "mass (refresh_total_sample n) = mass n \<and> total (refresh_total_sample n) = mass n"
proof (induction n)
  case (Node d t f s m cs)
  then have "sum_list (map (\<lambda>c. mass (refresh_total_sample c)) cs) = masses cs"
    "sum_list (map (\<lambda>c. total (refresh_total_sample c)) cs) = masses cs" by (auto intro: sum_map_cong)
  then show ?case by (simp add: Let_def o_def)
qed

text \<open>\<open>totals_ok\<close>: every node knows the samples below it.\<close>

fun totals_ok :: "node \<Rightarrow> bool" where
  "totals_ok (Node d t f s m cs) \<longleftrightarrow> m = s + masses cs \<and> (\<forall>c \<in> set cs. totals_ok c)"

lemma totals_ok_unfold: "totals_ok n \<longleftrightarrow> total n = mass n \<and> (\<forall>c \<in> set (kids n). totals_ok c)"
  by (cases n) simp

lemma refresh_totals_ok: "totals_ok (refresh_total_sample n)"
proof (induction n)
  case (Node d t f s m cs)
  then show ?case by (auto simp: Let_def o_def refresh_mass)
qed

lemma hide_min_fields [simp]: "finfo (hide_min_sample_node m n) = finfo n" "tag (hide_min_sample_node m n) = tag n"
  "total (hide_min_sample_node m n) = total n" "key (hide_min_sample_node m n) = key n"
  "can_hide (hide_min_sample_node m n) = can_hide n" "deep (hide_min_sample_node m n) = deep n"
  by (cases n; simp add: key_def can_hide_def)+

lemma hide_min_mass: "totals_ok n \<Longrightarrow> mass (hide_min_sample_node m n) = mass n \<and> totals_ok (hide_min_sample_node m n)"
proof (induction n)
  case (Node d t f s tot cs)
  then have e: "masses (map (hide_min_sample_node m) cs) = masses cs" by (auto simp: o_def intro!: sum_map_cong)
  show ?case
  proof (cases "tot \<le> min_sample m")
    case False
    then show ?thesis using Node e by auto
  qed (use Node.prems in simp)
qed

fun samples_ok :: "node \<Rightarrow> bool" where
  "samples_ok (Node d t f s m cs) \<longleftrightarrow> 0 \<le> s \<and> (\<forall>c \<in> set cs. samples_ok c)"

text \<open>Only nodes with more than the least number of samples keep their children.\<close>

fun kept_big :: "int \<Rightarrow> node \<Rightarrow> bool" where
  "kept_big k (Node d t f s m cs) \<longleftrightarrow> (cs \<noteq> [] \<longrightarrow> k < m) \<and> (\<forall>c \<in> set cs. kept_big k c)"

lemma hide_min_big: "kept_big (min_sample m) (hide_min_sample_node m n)"
  by (induction n) auto

subsection \<open>Shape: hidden functions and distinct keys\<close>

fun all_below :: "(node \<Rightarrow> bool) \<Rightarrow> node \<Rightarrow> bool" where
  "all_below P (Node d t f s m cs) \<longleftrightarrow> (\<forall>c \<in> set cs. P c \<and> all_below P c)"

text \<open>\<open>shown\<close>: no function below is one of the virtual machine's; \<open>uniq\<close>: siblings differ in tag or function.\<close>

definition shown :: "node \<Rightarrow> bool" where
  "shown n \<longleftrightarrow> all_below (\<lambda>c. \<not> can_hide c) n"

fun uniq :: "node \<Rightarrow> bool" where
  "uniq (Node d t f s m cs) \<longleftrightarrow> distinct (map key cs) \<and> (\<forall>c \<in> set cs. uniq c)"

lemma shown_unfold: "shown n \<longleftrightarrow> (\<forall>c \<in> set (kids n). \<not> can_hide c \<and> shown c)"
  by (cases n) (auto simp: shown_def)

lemma shown_Node [simp]: "shown (Node d t f s m cs) \<longleftrightarrow> (\<forall>c \<in> set cs. \<not> can_hide c \<and> shown c)"
  by (auto simp: shown_def)

lemma shape_simps [simp]:
  "shown (set_deep d n) = shown n" "uniq (set_deep d n) = uniq n" "shown (bump s n) = shown n" "uniq (bump s n) = uniq n"
  by (cases n; simp)+

lemma uniq_unfold: "uniq n \<longleftrightarrow> distinct (map key (kids n)) \<and> (\<forall>c \<in> set (kids n). uniq c)"
  by (cases n) simp

abbreviation kids_shown :: "node list \<Rightarrow> bool" where
  "kids_shown cs \<equiv> \<forall>c \<in> set cs. \<not> can_hide c \<and> shown c"

abbreviation kids_uniq :: "node list \<Rightarrow> bool" where
  "kids_uniq cs \<equiv> distinct (map key cs) \<and> (\<forall>c \<in> set cs. uniq c)"

lemma merge_shown:
  "shown n \<Longrightarrow> shown x \<Longrightarrow> shown (merge n x)"
  "kids_shown cs \<Longrightarrow> \<not> can_hide x \<Longrightarrow> shown x \<Longrightarrow> kids_shown (put_child d cs x)"
  "kids_shown cs \<Longrightarrow> kids_shown xs \<Longrightarrow> kids_shown (merge_kids d cs xs)"
proof (induction n x and d cs x and d cs xs rule: merge_put_child_merge_kids.induct)
  case (1 d t f s m cs d' t' f' s' m' cs')
  then show ?case unfolding merge.simps shown_Node by blast
next
  case (3 d c cs x)
  have h: "\<not> can_hide c" "shown c" "kids_shown cs" using "3.prems"(1) by (blast intro: list.set_intros)+
  show ?case
  proof (cases "key x = key c")
    case True
    have "shown (merge c x)" by (rule "3.IH"(1) [OF True h(2) "3.prems"(3)])
    then have "\<forall>y \<in> insert (merge c x) (set cs). \<not> can_hide y \<and> shown y" using h by simp
    then show ?thesis by (simp only: True put_child.simps simp_thms if_True list.set)
  next
    case False
    have "kids_shown (put_child d cs x)" by (rule "3.IH"(2) [OF False h(3) "3.prems"(2,3)])
    then have "\<forall>y \<in> insert c (set (put_child d cs x)). \<not> can_hide y \<and> shown y" using h by blast
    then show ?thesis by (simp only: False put_child.simps if_False list.set)
  qed
next
  case (5 d cs x xs)
  have h: "\<not> can_hide x" "shown x" "kids_shown xs" using "5.prems"(2) by (blast intro: list.set_intros)+
  show ?case unfolding merge_kids.simps by (rule "5.IH"(2) [OF "5.IH"(1) [OF "5.prems"(1) h(1,2)] h(3)])
qed simp_all

lemma put_child_keys: "set (map key (put_child d cs x)) = insert (key x) (set (map key cs))"
  by (induction cs) auto

lemma put_child_distinct: "distinct (map key cs) \<Longrightarrow> distinct (map key (put_child d cs x))"
proof (induction cs)
  case (Cons c cs)
  have "key c \<in> set (map key (put_child d cs x)) \<longleftrightarrow> key c = key x \<or> key c \<in> set (map key cs)"
    by (simp only: put_child_keys) auto
  with Cons show ?case by auto
qed simp

lemma merge_uniq:
  "uniq n \<Longrightarrow> uniq x \<Longrightarrow> uniq (merge n x)"
  "kids_uniq cs \<Longrightarrow> uniq x \<Longrightarrow> kids_uniq (put_child d cs x)"
  "kids_uniq cs \<Longrightarrow> kids_uniq xs \<Longrightarrow> kids_uniq (merge_kids d cs xs)"
proof (induction n x and d cs x and d cs xs rule: merge_put_child_merge_kids.induct)
  case (3 d c cs x)
  show ?case
  proof
    show "distinct (map key (put_child d (c # cs) x))" using 3 by (intro put_child_distinct) simp
    show "\<forall>y \<in> set (put_child d (c # cs) x). uniq y" using 3 by auto
  qed
qed auto

lemma fold_merge_inv:
  assumes "P n" "\<forall>c \<in> set cs. P c" "\<And>a b. P a \<Longrightarrow> P b \<Longrightarrow> P (merge a b)"
  shows "P (fold (\<lambda>c n. merge n c) cs n)"
  using assms(1,2) by (induction cs arbitrary: n) (auto intro: assms(3))

lemma fold_merge_finfo [simp]:
  "finfo (fold (\<lambda>c n. merge n c) cs n) = finfo n" "tag (fold (\<lambda>c n. merge n c) cs n) = tag n"
  by (induction cs arbitrary: n) auto

lemma hide_lua_fields [simp]:
  "finfo (hide_lua_vm_func n) = finfo n" "tag (hide_lua_vm_func n) = tag n" "key (hide_lua_vm_func n) = key n"
  by (cases n; simp add: Let_def key_def)+

lemma hide_lua_shown: "shown (hide_lua_vm_func n)"
proof (induction n)
  case (Node d t f s m cs)
  then show ?case unfolding hide_lua_vm_func.simps Let_def
    by (intro fold_merge_inv [of shown] merge_shown) auto
qed

lemma distinct_map_filter': "distinct (map f xs) \<Longrightarrow> distinct (map f (filter P xs))"
  by (induction xs) auto

lemma hide_lua_uniq: "uniq n \<Longrightarrow> uniq (hide_lua_vm_func n)"
proof (induction n)
  case (Node d t f s m cs)
  have "map key (map hide_lua_vm_func cs) = map key cs" by simp
  then have "distinct (map key (filter P (map hide_lua_vm_func cs)))" for P
    using Node.prems by (metis distinct_map_filter' uniq.simps)
  then show ?case unfolding hide_lua_vm_func.simps Let_def using Node
    by (intro fold_merge_inv [of uniq] merge_uniq) auto
qed

lemma refresh_shape: "uniq (refresh_total_sample n) = uniq n" "shown (refresh_total_sample n) = shown n"
proof (induction n)
  case (Node d t f s m cs)
  { case 1 then show ?case using Node by (simp add: Let_def o_def) }
  { case 2 then show ?case using Node by (simp add: Let_def) }
qed

lemma hide_min_shape: "uniq n \<Longrightarrow> uniq (hide_min_sample_node m n)" "shown n \<Longrightarrow> shown (hide_min_sample_node m n)"
proof (induction n)
  case (Node d t f s tot cs)
  { case 1 then show ?case using Node by (auto simp: o_def) }
  { case 2 then show ?case using Node by auto }
qed

lemma uniq_set_kids [simp]: "uniq (set_kids cs n) \<longleftrightarrow> distinct (map key cs) \<and> (\<forall>c \<in> set cs. uniq c)"
  by (cases n) simp

lemma uniq_kids: "uniq n \<Longrightarrow> distinct (map key (kids n)) \<and> (\<forall>c \<in> set (kids n). uniq c)"
  by (cases n) simp

lemma uniq_new_node [simp]: "uniq (new_node d t f s)"
  by (simp add: new_node_def)

lemma map_update_same: "f y = f (xs ! i) \<Longrightarrow> map f (xs[i := y]) = map f xs"
  by (metis list_update_id map_update)

lemma add_child_uniq:
  assumes "add_child t f s n = (n', p)" "uniq n" "lower t = t"
  shows "uniq n'"
proof -
  have k: "key (new_node d t f s) = (t, fst f, fst (snd f))" for d by (simp add: key_def new_node_def assms(3))
  consider (self) "n' = bump s n" | (old) i where "i < length (kids n)" "n' = set_kids ((kids n)[i := bump s (kids n ! i)]) n"
    | (new) "\<forall>c \<in> set (kids n). \<not> same_func t f c" "n' = set_kids (kids n @ [new_node (deep n + 1) t f s]) n"
    using assms(1) by (auto simp: add_child_def index_of_None dest!: index_of_Some split: if_splits option.splits)
  then show ?thesis
  proof cases
    case old
    have "map key ((kids n)[i := bump s (kids n ! i)]) = map key (kids n)" by (rule map_update_same) simp
    moreover have "\<forall>c \<in> set ((kids n)[i := bump s (kids n ! i)]). uniq c"
      using uniq_kids [OF assms(2)] old(1) set_update_subset_insert [of "kids n" i "bump s (kids n ! i)"] by auto
    ultimately show ?thesis using uniq_kids [OF assms(2)] old(2) by simp
  next
    case new
    then show ?thesis using uniq_kids [OF assms(2)] by (auto simp: k same_func_def)
  qed (use assms(2) in simp)
qed

subsection \<open>Passes over a tree\<close>

text \<open>
  What the three passes of the reader promise: the samples, the key of the root and the difference
  of siblings stay. A pass followed by the count reports every sample of the tree it was given.
\<close>

locale tree_pass =
  fixes pass :: "node \<Rightarrow> node" and pre :: "node \<Rightarrow> bool"
  assumes keeps_mass: "pre n \<Longrightarrow> mass (pass n) = mass n"
    and keeps_uniq: "pre n \<Longrightarrow> uniq n \<Longrightarrow> uniq (pass n)"
    and keeps_key: "pre n \<Longrightarrow> key (pass n) = key n"
begin

lemma counted: "pre n \<Longrightarrow> total (refresh_total_sample (pass n)) = mass n"
  by (simp add: refresh_mass keeps_mass)

lemma reported: "pre n \<Longrightarrow> mass (hide_min_sample_node m (refresh_total_sample (pass n))) = mass n"
  by (simp add: hide_min_mass refresh_totals_ok refresh_mass keeps_mass)

lemma reported_uniq: "pre n \<Longrightarrow> uniq n \<Longrightarrow> uniq (hide_min_sample_node m (refresh_total_sample (pass n)))"
  by (simp add: hide_min_shape refresh_shape keeps_uniq)

end

locale hiding_pass = tree_pass +
  assumes hides: "pre n \<Longrightarrow> shown (pass n)"
begin

lemma reported_shown: "pre n \<Longrightarrow> shown (hide_min_sample_node m (refresh_total_sample (pass n)))"
  by (simp add: hide_min_shape refresh_shape hides)

end

interpretation vm: hiding_pass hide_lua_vm_func "\<lambda>_. True"
  by unfold_locales (simp_all add: hide_lua_mass hide_lua_uniq hide_lua_shown)

interpretation counting: tree_pass refresh_total_sample "\<lambda>_. True"
  by unfold_locales (simp_all add: refresh_mass refresh_shape)

interpretation cutting: tree_pass "hide_min_sample_node m" totals_ok for m
  by unfold_locales (simp_all add: hide_min_mass hide_min_shape)

end
