(* ===== verification/Prof_Parse.thy ===== *)
theory Prof_Parse
  imports Prof_Node
begin

text \<open>
  Reading a profile (\<^verbatim>\<open>show_profile.py\<close>: \<open>get_so_info\<close>, \<open>addr2line\<close>, \<open>parse_lua_function_def\<close>,
  \<open>lua_line2func\<close>, \<open>parse_call_tree\<close>). The answers of the \<^verbatim>\<open>addr2line\<close> processes, the Lua files
  found under the directory and their lines are parameters. The caches of the module hold results of
  functions that are pure here and are left out. The cursor of the parser is a path of child
  indices from the root.
\<close>

record penv =
  resolve :: "str \<Rightarrow> str \<Rightarrow> str"
  lua_files :: "(str \<times> str) list"
  lua_lines :: "str \<Rightarrow> str list"

subsection \<open>Shared libraries and addresses\<close>

fun hex_digits :: "nat \<Rightarrow> str" where
  "hex_digits n = (if n < 16 then [''0123456789abcdef'' ! n] else hex_digits (n div 16) @ [''0123456789abcdef'' ! (n mod 16)])"

definition hex_str :: "int \<Rightarrow> str" where
  "hex_str i = (if i < 0 then ''-'' else []) @ hex_digits (nat \<bar>i\<bar>)"

record so_info =
  so_name :: str
  so_begin :: int
  so_end :: int

definition NL :: str where "NL = [CHR 0x0A]"
definition SAMPLE_BEGIN :: str where "SAMPLE_BEGIN = ''==sample_begin==''"

definition pair_of :: "'a list \<Rightarrow> ('a \<times> 'a) res" where
  "pair_of xs = (case xs of [a, b] \<Rightarrow> Inr (a, b) | _ \<Rightarrow> Inl ValueError)"

definition add_so :: "so_info list \<Rightarrow> str \<Rightarrow> so_info list res" where
  "add_so infos line =
     (let ws = split_ws line in
      if length ws < 6 \<or> CHR ''x'' \<notin> set (ws ! 1) \<or> \<not> starts_with ''/'' (last ws) then Inr infos
      else rbind (pair_of (split_on ''-'' (ws ! 0))) (\<lambda>(a, b).
        rbind (int16_of a) (\<lambda>lo. rbind (int16_of b) (\<lambda>hi.
          if infos \<noteq> [] \<and> so_name (last infos) = ws ! 5 \<and> so_end (last infos) = lo
          then Inr (butlast infos @ [(last infos)\<lparr>so_end := hi\<rparr>])
          else Inr (infos @ [\<lparr>so_name = ws ! 5, so_begin = lo, so_end = hi\<rparr>])))))"

definition get_so_info :: "str \<Rightarrow> so_info list res" where
  "get_so_info data =
     rbind (of_option ValueError (find_sub SAMPLE_BEGIN data)) (\<lambda>i.
     rbind (foldR add_so [] (split_on NL (take i data))) (\<lambda>infos. Inr (sort_key so_begin infos)))"

definition base_name :: "str \<Rightarrow> str" where
  "base_name s = rev (takeWhile (\<lambda>c. c \<noteq> CHR ''/'') (rev s))"

definition addr2line :: "penv \<Rightarrow> so_info list \<Rightarrow> int \<Rightarrow> func_info res" where
  "addr2line e infos addr =
     (if addr = 0 then Inr (''root'', ''root'', LStr ''0'')
      else case List.find (\<lambda>i. so_begin i \<le> addr \<and> addr < so_end i) infos of
        None \<Rightarrow> Inr (''?'', ''?'', LStr ''?'')
      | Some i \<Rightarrow>
          let exe = so_name i;
              ask = hex_str (if ends_with ''.so'' exe then addr - so_begin i - 1 else addr - 1);
              ws = split_on '' at '' (strip (resolve e exe ask))
          in rbind (pair_of (split_on '':'' (last ws))) (\<lambda>(file, no).
               Inr (ws ! 0, base_name file @ ''('' @ base_name exe @ '')'', LStr no)))"

subsection \<open>Lua functions\<close>

text \<open>
  The regular expressions, as matchers at one position under \<open>search\<close>, which tries the positions
  from the left. Each repetition stops at a character that its successor needs, so taking the
  longest run is the only match; only \<open>.+\<close> has a choice, of which the longest is taken.
\<close>

fun search :: "(str \<Rightarrow> 'a option) \<Rightarrow> str \<Rightarrow> 'a option" where
  "search m [] = m []"
| "search m (c # s) = (case m (c # s) of Some x \<Rightarrow> Some x | None \<Rightarrow> search m s)"

definition name_char :: "char \<Rightarrow> bool" where
  "name_char c \<longleftrightarrow> is_word c \<or> c = CHR ''.'' \<or> c = CHR '':''"

definition dotted_char :: "char \<Rightarrow> bool" where
  "dotted_char c \<longleftrightarrow> is_word c \<or> c = CHR ''.''"

definition arg_char :: "char \<Rightarrow> bool" where
  "arg_char c \<longleftrightarrow> is_word c \<or> c = CHR '' '' \<or> c = CHR '','' \<or> c = CHR ''.''"

definition arg_list :: "str \<Rightarrow> bool" where
  "arg_list s \<longleftrightarrow> starts_with ''('' s \<and> starts_with '')'' (dropWhile arg_char (drop 1 s))"

definition named_function :: "str \<Rightarrow> str option" where
  "named_function s =
     (let r = dropWhile is_ws (drop 8 s); n = takeWhile name_char r in
      if starts_with ''function'' s \<and> n \<noteq> [] \<and> arg_list (dropWhile name_char r) then Some n else None)"

definition assigned_function :: "str \<Rightarrow> str option" where
  "assigned_function s =
     (let n = takeWhile dotted_char s; r = dropWhile is_ws (dropWhile dotted_char s);
          r2 = dropWhile is_ws (drop 1 r) in
      if n \<noteq> [] \<and> starts_with ''='' r \<and> starts_with ''function'' r2 \<and> arg_list (dropWhile is_ws (drop 8 r2))
      then Some n else None)"

definition parse_lua_function_def :: "str \<Rightarrow> str option" where
  "parse_lua_function_def line =
     (let s = takeWhile (\<lambda>c. c \<noteq> CHR ''#'') (strip line) in
      map_option (\<lambda>n. if CHR '':'' \<in> set n then last (split_on '':'' n)
                      else if CHR ''.'' \<in> set n then last (split_on ''.'' n) else n)
        (case search named_function s of Some n \<Rightarrow> Some n | None \<Rightarrow> search assigned_function s))"

definition number_end :: "str \<Rightarrow> str option" where
  "number_end s = (let d = takeWhile is_digit s in
     if d \<noteq> [] \<and> starts_with ''>'' (dropWhile is_digit s) then Some d else None)"

fun lua_tail :: "str \<Rightarrow> str \<Rightarrow> (str \<times> str) option" where
  "lua_tail acc [] = None"
| "lua_tail acc (c # s) =
     (case (if c = CHR 0x0A then None else lua_tail (acc @ [c]) s) of
        Some x \<Rightarrow> Some x
      | None \<Rightarrow> if acc \<noteq> [] \<and> starts_with ''.lua:'' (c # s)
                then map_option (\<lambda>d. (acc @ ''.lua'', d)) (number_end (drop 5 (c # s))) else None)"

definition lua_function :: "str \<Rightarrow> (str \<times> str) option" where
  "lua_function s = (if starts_with ''function <'' s then lua_tail [] (drop 10 s) else None)"

definition typed_function :: "str \<Rightarrow> (str \<times> str \<times> str) option" where
  "typed_function s =
     (let t = takeWhile is_word s; r = dropWhile is_word s;
          n = takeWhile (\<lambda>c. is_word c \<or> c = CHR ''?'') (drop 2 r);
          r2 = dropWhile (\<lambda>c. is_word c \<or> c = CHR ''?'') (drop 2 r) in
      if t \<noteq> [] \<and> starts_with '' <'' r \<and> n \<noteq> [] \<and> starts_with '':'' r2
      then map_option (\<lambda>d. (t, n, d)) (number_end (drop 1 r2)) else None)"

text \<open>The file a short name stands for, and the line of it: \<open>lines[no - 1]\<close>, the last one for 0.\<close>

definition find_lua :: "penv \<Rightarrow> str \<Rightarrow> (str \<times> str) option" where
  "find_lua e file = List.find (\<lambda>(k, v). ends_with (drop 3 file) v) (lua_files e)"

definition lua_line :: "penv \<Rightarrow> str \<Rightarrow> nat \<Rightarrow> str res" where
  "lua_line e full no =
     (let ls = lua_lines e full in
      if no = 0 then (if ls = [] then Inl IndexError else Inr (last ls)) else nth_res ls (no - 1))"

definition quoted :: "str \<Rightarrow> str \<Rightarrow> str" where
  "quoted t n = t @ '' '' @ [CHR 0x27] @ n @ [CHR 0x27]"

definition resolved_info :: "penv \<Rightarrow> str \<Rightarrow> str \<Rightarrow> str \<Rightarrow> str \<Rightarrow> str \<Rightarrow> str \<Rightarrow> func_info res" where
  "resolved_info e full file digits t right other =
     rbind (lua_line e full (digits_val digits)) (\<lambda>l.
       Inr (case parse_lua_function_def l of Some n \<Rightarrow> quoted t n | None \<Rightarrow> other, file, LInt (int (digits_val digits))))"

text \<open>The two patterns in turn; a match whose file is not known is followed by the next pattern.\<close>

definition second_pattern :: "penv \<Rightarrow> str \<Rightarrow> str \<Rightarrow> str \<Rightarrow> func_info res" where
  "second_pattern e right file no =
     (case search typed_function right of
        None \<Rightarrow> Inr (right, file, LStr no)
      | Some (t, n, d) \<Rightarrow>
          (case find_lua e file of
             Some (full, v) \<Rightarrow> resolved_info e full v d t right (quoted t n)
           | None \<Rightarrow> Inr (right, file, LStr d)))"

definition lua_line2func :: "penv \<Rightarrow> str \<Rightarrow> func_info res" where
  "lua_line2func e f =
     (if \<not> contains ''=>'' f then Inr (f, ''?'', LStr ''?'')
      else rbind (pair_of (split_on ''=>'' f)) (\<lambda>(left, right).
           rbind (pair_of (split_on '':'' left)) (\<lambda>(file0, no).
             let file = (if starts_with (''[string '' @ [CHR 0x22]) file0 then take (length file0 - 9 - 2) (drop 9 file0) else file0)
             in case search lua_function right of
                  Some (file1, d) \<Rightarrow>
                    (case find_lua e file1 of
                       Some (full, v) \<Rightarrow> resolved_info e full v d ''function'' right right
                     | None \<Rightarrow> second_pattern e right file1 d)
                | None \<Rightarrow> second_pattern e right file no)))"

subsection \<open>Positions in the tree\<close>

fun node_at :: "node \<Rightarrow> nat list \<Rightarrow> node" where
  "node_at n [] = n"
| "node_at n (i # p) = node_at (kids n ! i) p"

fun alter :: "(node \<Rightarrow> node) \<Rightarrow> nat list \<Rightarrow> node \<Rightarrow> node" where
  "alter g [] n = g n"
| "alter g (i # p) n = set_kids ((kids n)[i := alter g p (kids n ! i)]) n"

fun position :: "node \<Rightarrow> nat list \<Rightarrow> bool" where
  "position n [] \<longleftrightarrow> True"
| "position n (i # p) \<longleftrightarrow> i < length (kids n) \<and> position (kids n ! i) p"

lemma alter_mass: "position n p \<Longrightarrow> mass (alter g p n) = mass n + mass (g (node_at n p)) - mass (node_at n p)"
proof (induction p arbitrary: n)
  case (Cons i p)
  then show ?case by (simp add: masses_update mass_unfold [of n])
qed simp

lemma alter_root [simp]: "p \<noteq> [] \<Longrightarrow> deep (alter g p n) = deep n" "p \<noteq> [] \<Longrightarrow> key (alter g p n) = key n"
  by (cases p; simp)+

lemma alter_uniq:
  assumes "position n p" "uniq n" "\<And>x. uniq x \<Longrightarrow> uniq (g x)" "\<And>x. key (g x) = key x"
  shows "uniq (alter g p n)"
  using assms(1,2)
proof (induction p arbitrary: n)
  case (Cons i p)
  have u: "uniq (kids n ! i)" using uniq_kids [OF Cons.prems(2)] Cons.prems(1) by simp
  have k: "key (alter g p c) = key c" for c using assms(4) by (cases p) auto
  have "map key ((kids n)[i := alter g p (kids n ! i)]) = map key (kids n)" by (rule map_update_same) (simp add: k)
  moreover have "uniq (alter g p (kids n ! i))" using Cons u by simp
  ultimately show ?case using uniq_kids [OF Cons.prems(2)]
      set_update_subset_insert [of "kids n" i "alter g p (kids n ! i)"] by auto
qed (simp add: assms(3))

lemma position_alter: "position n p \<Longrightarrow> position (alter g p n) (p @ q) = position (g (node_at n p)) q"
  by (induction p arbitrary: n) auto

lemma node_at_alter: "position n p \<Longrightarrow> node_at (alter g p n) (p @ q) = node_at (g (node_at n p)) q"
  by (induction p arbitrary: n) auto

lemma position_append: "position n (p @ q) \<longleftrightarrow> position n p \<and> position (node_at n p) q"
  by (induction p arbitrary: n) auto

lemma node_at_append: "node_at n (p @ q) = node_at (node_at n p) q"
  by (induction p arbitrary: n) auto

lemma position_butlast: "position n p \<Longrightarrow> position n (butlast p)"
  by (cases p rule: rev_cases) (auto simp: position_append)

lemma add_child_position: "add_child t f s n = (n', q) \<Longrightarrow> position n' q"
  by (auto simp: add_child_def dest!: index_of_Some split: if_splits option.splits)

lemma add_child_fields: "add_child t f s n = (n', q) \<Longrightarrow> deep n' = deep n \<and> key n' = key n"
  by (auto simp: add_child_def split: if_splits option.splits)

subsection \<open>The call tree\<close>

type_synonym row = "str \<times> int \<times> func_info \<times> int"

definition four_of :: "str list \<Rightarrow> (str \<times> str \<times> str \<times> str) res" where
  "four_of xs = (case xs of [a, b, c, d] \<Rightarrow> Inr (a, b, c, d) | _ \<Rightarrow> Inl ValueError)"

definition parse_row :: "penv \<Rightarrow> so_info list \<Rightarrow> str \<Rightarrow> row res" where
  "parse_row e infos line =
     rbind (four_of (split_on '','' (strip line))) (\<lambda>(t, d, s, f).
     rbind (int_of d) (\<lambda>dn. rbind (int_of s) (\<lambda>sn.
     rbind (if t = ''lua'' then lua_line2func e f else rbind (int16_of f) (addr2line e infos)) (\<lambda>fi.
       Inr (t, dn, fi, sn)))))"

text \<open>\<open>while node.deep >= deep: node = node.father\<close>; the father of the root is \<open>None\<close>.\<close>

function climb :: "node \<Rightarrow> int \<Rightarrow> nat list \<Rightarrow> nat list res" where
  "climb n d p =
     (if d \<le> deep (node_at n p) then (if p = [] then Inl AttributeError else climb n d (butlast p)) else Inr p)"
  by pat_completeness auto
termination climb by (relation "measure (\<lambda>(_, _, p). length p)") auto

declare climb.simps [simp del]

definition add_row :: "node \<times> nat list \<Rightarrow> row \<Rightarrow> (node \<times> nat list) res" where
  "add_row st r =
     (case (st, r) of ((n, p), (t, d, f, s)) \<Rightarrow>
        rbind (climb n d p) (\<lambda>p'. let q = snd (add_child t f s (node_at n p'))
          in Inr (alter (\<lambda>x. fst (add_child t f s x)) p' n, p' @ q)))"

definition fake_root :: node where
  "fake_root = fst (add_child ''lua'' (''lua_hide'', ''lua_hide'', LInt 0) 0
     (new_node (-1) ''c'' (''fake_root'', ''fake_root'', LInt 0) 0))"

definition sample_lines :: "str \<Rightarrow> str list res" where
  "sample_lines data =
     rbind (of_option ValueError (find_sub SAMPLE_BEGIN data)) (\<lambda>i.
       Inr (filter (\<lambda>l. strip l \<noteq> [] \<and> \<not> starts_with ''=='' (strip l)) (split_on NL (drop i data))))"

definition parse_call_tree :: "penv \<Rightarrow> str \<Rightarrow> node res" where
  "parse_call_tree e data =
     rbind (get_so_info data) (\<lambda>infos. rbind (sample_lines data) (\<lambda>ls.
     rbind (foldR (\<lambda>st l. rbind (parse_row e infos l) (add_row st)) (fake_root, []) ls) (\<lambda>(n, p).
       let r = refresh_total_sample (hide_lua_vm_func n) in Inr (hide_min_sample_node (total r) r))))"

definition row_samples :: "row \<Rightarrow> int" where "row_samples r = snd (snd (snd r))"
definition row_deep :: "row \<Rightarrow> int" where "row_deep r = fst (snd r)"
definition row_tag :: "row \<Rightarrow> str" where "row_tag r = fst r"

text \<open>The rows of a profile, when every one can be read.\<close>

definition profile_rows :: "penv \<Rightarrow> str \<Rightarrow> row list res" where
  "profile_rows e data = rbind (get_so_info data) (\<lambda>infos. rbind (sample_lines data) (mapR (parse_row e infos)))"

lemma climb_position: "climb n d p = Inr p' \<Longrightarrow> position n p \<Longrightarrow> position n p'"
  by (induction n d p rule: climb.induct) (auto simp: climb.simps position_butlast split: if_splits)

lemma climb_above: "climb n d p = Inr p' \<Longrightarrow> deep (node_at n p') < d"
  by (induction n d p rule: climb.induct) (auto simp: climb.simps split: if_splits)

lemma climb_returns: "deep n < d \<Longrightarrow> \<exists>p'. climb n d p = Inr p'"
proof (induction n d p rule: climb.induct)
  case (1 n d p)
  show ?case
  proof (cases "d \<le> deep (node_at n p) \<and> p \<noteq> []")
    case True
    then show ?thesis using 1 by (simp add: climb.simps [of n d p])
  next
    case False
    then show ?thesis using "1.prems" by (cases p) (auto simp: climb.simps [of n d])
  qed
qed

lemma add_row_step:
  assumes "add_row (n, p) r = Inr (n', p')" "position n p"
  shows "mass n' = mass n + row_samples r \<and> position n' p' \<and> deep n' = deep n \<and>
    (uniq n \<longrightarrow> lower (row_tag r) = row_tag r \<longrightarrow> uniq n')"
proof -
  obtain t d f s where r: "r = (t, d, f, s)" by (cases r) auto
  obtain p1 where c: "climb n d p = Inr p1"
    and n': "n' = alter (\<lambda>x. fst (add_child t f s x)) p1 n" and p': "p' = p1 @ snd (add_child t f s (node_at n p1))"
    using assms(1) by (auto simp: add_row_def r res_simps Let_def)
  have v: "position n p1" by (rule climb_position [OF c assms(2)])
  have a: "add_child t f s x = (fst (add_child t f s x), snd (add_child t f s x))" for x by simp
  have "mass n' = mass n + s" unfolding n' by (simp add: alter_mass [OF v] add_child_mass [OF a])
  moreover have "position n' p'" unfolding n' p' by (simp add: position_alter [OF v] add_child_position [OF a])
  moreover have "deep n' = deep n" unfolding n' by (cases p1) (simp_all add: add_child_fields [OF a])
  moreover have "uniq n'" if "uniq n" "lower t = t" unfolding n'
    by (rule alter_uniq [OF v that(1)]) (use add_child_uniq [OF a] add_child_fields [OF a] that(2) in auto)
  ultimately show ?thesis by (simp add: r row_samples_def row_tag_def)
qed

lemma foldR_mapR: "foldR (\<lambda>st l. rbind (g l) (h st)) st ls = Inr st' \<Longrightarrow> \<exists>rs. mapR g ls = Inr rs \<and> foldR h st rs = Inr st'"
proof (induction ls arbitrary: st)
  case (Cons l ls)
  then show ?case by (fastforce simp: res_simps)
qed simp

lemma foldR_mapR': "mapR g ls = Inr rs \<Longrightarrow> foldR (\<lambda>st l. rbind (g l) (h st)) st ls = foldR h st rs"
proof (induction ls arbitrary: st rs)
  case (Cons l ls)
  then show ?case by (auto simp: res_simps rbind_def split: sum.splits)
qed simp

lemma add_rows:
  assumes "foldR add_row (n, p) rs = Inr (n', p')" "position n p"
  shows "mass n' = mass n + sum_list (map row_samples rs) \<and>
    (uniq n \<longrightarrow> (\<forall>r \<in> set rs. lower (row_tag r) = row_tag r) \<longrightarrow> uniq n')"
  using assms
proof (induction rs arbitrary: n p)
  case (Cons r rs)
  then obtain n1 p1 where s: "add_row (n, p) r = Inr (n1, p1)" "foldR add_row (n1, p1) rs = Inr (n', p')"
    by (auto simp: res_simps)
  show ?case using add_row_step [OF s(1) Cons.prems(2)] Cons.IH [OF s(2)] by auto
qed simp

lemma add_rows_return:
  assumes "position n p" "\<forall>r \<in> set rs. deep n < row_deep r"
  shows "\<exists>n' p'. foldR add_row (n, p) rs = Inr (n', p')"
  using assms
proof (induction rs arbitrary: n p)
  case (Cons r rs)
  obtain t d f s where r: "r = (t, d, f, s)" by (cases r) auto
  obtain p1 where "climb n d p = Inr p1" using climb_returns [of n d p] Cons.prems(2) by (auto simp: r row_deep_def)
  then obtain n1 p2 where s: "add_row (n, p) r = Inr (n1, p2)" by (simp add: add_row_def r Let_def)
  have "position n1 p2 \<and> deep n1 = deep n" using add_row_step [OF s Cons.prems(1)] by simp
  with Cons.IH [of n1 p2] Cons.prems(2) s show ?case by auto
qed simp

lemma fake_root: "mass fake_root = 0" "uniq fake_root" "deep fake_root = -1" "tag fake_root = ''c''"
  by (simp_all add: fake_root_def add_child_def new_node_def same_func_def key_def lower_def) code_simp+

lemma parse_rows:
  assumes "parse_call_tree e data = Inr t"
  obtains rows n p where "profile_rows e data = Inr rows" "foldR add_row (fake_root, []) rows = Inr (n, p)"
    "t = (let r = refresh_total_sample (hide_lua_vm_func n) in hide_min_sample_node (total r) r)"
proof -
  obtain infos ls n p where r: "get_so_info data = Inr infos" "sample_lines data = Inr ls"
    "foldR (\<lambda>st l. rbind (parse_row e infos l) (add_row st)) (fake_root, []) ls = Inr (n, p)"
    "t = (let r = refresh_total_sample (hide_lua_vm_func n) in hide_min_sample_node (total r) r)"
    using assms by (auto simp: parse_call_tree_def res_simps Let_def)
  from foldR_mapR [OF r(3)] r(1,2,4) that show ?thesis by (auto simp: profile_rows_def)
qed

lemma parse_returns:
  assumes "profile_rows e data = Inr rows" "\<forall>r \<in> set rows. 0 \<le> row_deep r"
  shows "\<exists>t. parse_call_tree e data = Inr t"
proof -
  obtain infos ls where r: "get_so_info data = Inr infos" "sample_lines data = Inr ls" "mapR (parse_row e infos) ls = Inr rows"
    using assms(1) by (auto simp: profile_rows_def res_simps)
  have "\<forall>r \<in> set rows. deep fake_root < row_deep r" using assms(2) by (auto simp: fake_root)
  then obtain n p where "foldR add_row (fake_root, []) rows = Inr (n, p)" using add_rows_return [of fake_root "[]" rows] by auto
  then show ?thesis by (simp add: parse_call_tree_def r foldR_mapR' [OF r(3)] Let_def)
qed

lemma parse_kept_big: "parse_call_tree e data = Inr t \<Longrightarrow> kept_big (min_sample (total t)) t"
  by (elim parse_rows) (simp add: Let_def hide_min_big)

text \<open>
  C15. The tree of a profile accounts for every sample: the total of the root, and the samples of all
  its nodes, are the sum over the rows of the file, although virtual machine functions are merged away and
  small nodes folded into their callers. No virtual machine function is left, only nodes above 3
  percent of the samples have children, and siblings are different functions.
\<close>

theorem profile_conserved:
  assumes "parse_call_tree e data = Inr t"
  shows "\<exists>rows. profile_rows e data = Inr rows \<and> total t = sum_list (map row_samples rows) \<and> mass t = total t \<and>
    shown t \<and> kept_big (min_sample (total t)) t \<and> ((\<forall>r \<in> set rows. lower (row_tag r) = row_tag r) \<longrightarrow> uniq t)"
proof -
  obtain rows n p where r: "profile_rows e data = Inr rows" "foldR add_row (fake_root, []) rows = Inr (n, p)"
    and t: "t = (let r = refresh_total_sample (hide_lua_vm_func n) in hide_min_sample_node (total r) r)"
    by (rule parse_rows [OF assms])
  have n: "mass n = sum_list (map row_samples rows)"
    "(\<forall>r \<in> set rows. lower (row_tag r) = row_tag r) \<longrightarrow> uniq n"
    using add_rows [OF r(2)] by (simp_all add: fake_root)
  have tot: "total t = mass n" by (simp add: t Let_def vm.counted)
  then have t': "t = hide_min_sample_node (mass n) (refresh_total_sample (hide_lua_vm_func n))"
    by (simp add: t Let_def vm.counted)
  show ?thesis unfolding tot n(1) [symmetric] using r(1) n
    by (auto simp: t' vm.reported vm.reported_shown vm.reported_uniq hide_min_big)
qed

text \<open>
  C16. Every profile whose rows can be read and whose depths are not negative is turned into a
  tree: the walk back to a caller always ends at a node and never leaves the root.
\<close>

theorem profile_returns:
  assumes "profile_rows e data = Inr rows" "\<forall>r \<in> set rows. 0 \<le> row_deep r"
  shows "\<exists>t. parse_call_tree e data = Inr t"
  using assms by (rule parse_returns)

subsection \<open>The hypotheses can hold\<close>

definition sample_penv :: penv where
  "sample_penv = \<lparr>resolve = (\<lambda>exe a. ''main at /src/ldo.c:12''), lua_files = [(''/g/a.lua'', ''a.lua'')],
     lua_lines = (\<lambda>f. [''function M.run(x)''])\<rparr>"

definition sample_profile :: str where
  "sample_profile = ''7f00-7f80 r-x 0 0 0 /lib/x.so'' @ NL @ SAMPLE_BEGIN @ NL @ ''c,0,1,0'' @ NL @ ''c,1,4,7f10'' @ NL
     @ ''lua,2,5,@./a.lua:1=>function <@./a.lua:1>''"

lemma sample_rows:
  "profile_rows sample_penv sample_profile =
     Inr [(''c'', 0, (''root'', ''root'', LStr ''0''), 1), (''c'', 1, (''main'', ''ldo.c(x.so)'', LStr ''12''), 4),
          (''lua'', 2, (quoted ''function'' ''run'', ''a.lua'', LInt 1), 5)]"
  by code_simp

lemma profile_returns_witness: "\<exists>t. parse_call_tree sample_penv sample_profile = Inr t"
  by (rule profile_returns [OF sample_rows]) (simp add: row_deep_def)

lemma profile_conserved_witness:
  "\<exists>t. parse_call_tree sample_penv sample_profile = Inr t \<and> total t = 10"
proof -
  obtain t where t: "parse_call_tree sample_penv sample_profile = Inr t"
    using parse_returns [OF sample_rows] by (auto simp: row_deep_def)
  from profile_conserved [OF t] t show ?thesis by (simp add: sample_rows row_samples_def)
qed

end
