(* ===== verification/Prof_Report.thy ===== *)
theory Prof_Report
  imports Prof_Parse
begin

text \<open>
  What \<^verbatim>\<open>show_profile.py\<close> reports of a tree: the saved form of \<open>--json\<close>, which \<open>--read_json\<close>
  reads back, and the table of functions of \<open>--text\<close>.
\<close>

subsection \<open>Saving and reading back\<close>

text \<open>\<open>--read_json\<close>: the saved tree, with its totals counted again.\<close>

definition read_json :: "saved \<Rightarrow> node" where
  "read_json d = refresh_total_sample (from_dict d None)"

text \<open>The same tree with the depths of the positions.\<close>

fun at_depth :: "int \<Rightarrow> node \<Rightarrow> node" where
  "at_depth d (Node _ t f s m cs) = Node d t f s m (map (at_depth (d + 1)) cs)"

fun tags_lower :: "node \<Rightarrow> bool" where
  "tags_lower (Node d t f s m cs) \<longleftrightarrow> lower t = t \<and> (\<forall>c \<in> set cs. tags_lower c)"

lemma lower_idem [simp]: "lower (lower t) = lower t"
proof -
  have "is_upper (lower_char c) = False" for c
  proof (cases "is_upper c")
    case True
    then have b: "(of_char c :: nat) + 32 < 256" "65 \<le> (of_char c :: nat)" "(of_char c :: nat) \<le> 90"
      by (simp_all add: is_upper_def)
    then have "of_char (char_of ((of_char c :: nat) + 32)) = (of_char c :: nat) + 32"
      by (simp add: of_char_of)
    then show ?thesis using True b by (simp add: lower_char_def is_upper_def)
  qed (simp add: lower_char_def)
  then show ?thesis by (simp add: lower_def lower_char_def)
qed

lemma from_to_dict:
  assumes "totals_ok n" "tags_lower n"
  shows "refresh_total_sample (from_dict (to_dict n) father) = at_depth (case father of None \<Rightarrow> 0 | Some d \<Rightarrow> 1 + d) n"
  using assms
proof (induction n arbitrary: father)
  case (Node d t f s m cs)
  let ?d = "case father of None \<Rightarrow> 0 | Some d \<Rightarrow> 1 + d"
  have ih: "c \<in> set cs \<Longrightarrow> refresh_total_sample (from_dict (to_dict c) (Some ?d)) = at_depth (1 + ?d) c" for c
    using Node.IH [of c "Some ?d"] Node.prems by simp
  have tot: "total (at_depth k c) = total c" for k c by (cases c) simp
  have "total (refresh_total_sample (from_dict (to_dict c) (Some ?d))) = mass c" if "c \<in> set cs" for c
    using Node.prems(1) that totals_ok_unfold [of c] by (simp add: ih tot)
  then have "sum_list (map (\<lambda>c. total (refresh_total_sample (from_dict (to_dict c) (Some ?d)))) cs) = masses cs"
    by (intro sum_map_cong) blast
  then have m: "s + sum_list (map (\<lambda>c. total (refresh_total_sample (from_dict (to_dict c) (Some ?d)))) cs) = m"
    using Node.prems(1) by simp
  show ?case using ih m Node.prems(2)
    by (simp add: new_node_def Let_def o_def add.commute cong: map_cong)
qed

lemma merge_tags:
  "tags_lower n \<Longrightarrow> tags_lower x \<Longrightarrow> tags_lower (merge n x)"
  "\<forall>c \<in> set cs. tags_lower c \<Longrightarrow> tags_lower x \<Longrightarrow> \<forall>c \<in> set (put_child d cs x). tags_lower c"
  "\<forall>c \<in> set cs. tags_lower c \<Longrightarrow> \<forall>c \<in> set xs. tags_lower c \<Longrightarrow> \<forall>c \<in> set (merge_kids d cs xs). tags_lower c"
proof (induction n x and d cs x and d cs xs rule: merge_put_child_merge_kids.induct)
  case (2 d x)
  then show ?case by (cases x) simp
qed auto

lemma fold_merge_tags: "tags_lower n \<Longrightarrow> \<forall>c \<in> set cs. tags_lower c \<Longrightarrow> tags_lower (fold (\<lambda>c n. merge n c) cs n)"
  by (rule fold_merge_inv) (auto intro: merge_tags)

lemma hide_lua_tags: "tags_lower n \<Longrightarrow> tags_lower (hide_lua_vm_func n)"
proof (induction n)
  case (Node d t f s m cs)
  then show ?case unfolding hide_lua_vm_func.simps Let_def by (intro fold_merge_tags) auto
qed

lemma refresh_tags: "tags_lower (refresh_total_sample n) = tags_lower n"
  by (induction n) (simp add: Let_def)

lemma hide_min_tags: "tags_lower n \<Longrightarrow> tags_lower (hide_min_sample_node m n)"
  by (induction n) auto

lemma tags_set_kids [simp]: "tags_lower (set_kids cs n) \<longleftrightarrow> lower (tag n) = tag n \<and> (\<forall>c \<in> set cs. tags_lower c)"
  by (cases n) simp

lemma tags_bump [simp]: "tags_lower (bump s n) = tags_lower n"
  by (cases n) simp

lemma tags_kids: "tags_lower n \<Longrightarrow> lower (tag n) = tag n \<and> (\<forall>c \<in> set (kids n). tags_lower c)"
  by (cases n) simp

lemma in_set_update: "x \<in> set (xs[i := y]) \<Longrightarrow> x = y \<or> x \<in> set xs"
  using set_update_subset_insert [of xs i y] by auto

lemma add_child_tags: "add_child t f s n = (n', q) \<Longrightarrow> tags_lower n \<Longrightarrow> tags_lower n'"
  by (frule tags_kids) (auto simp: add_child_def new_node_def dest!: index_of_Some in_set_update
      split: if_splits option.splits)

lemma alter_tags: "position n p \<Longrightarrow> tags_lower n \<Longrightarrow> (\<And>x. tags_lower x \<Longrightarrow> tags_lower (g x)) \<Longrightarrow> tags_lower (alter g p n)"
proof (induction p arbitrary: n)
  case (Cons i p)
  have "tags_lower (alter g p (kids n ! i))" using Cons.IH Cons.prems tags_kids [OF Cons.prems(2)] by simp
  then show ?case using tags_kids [OF Cons.prems(2)] by (auto dest!: in_set_update)
qed simp

lemma add_rows_tags:
  "foldR add_row (n, p) rs = Inr (n', p') \<Longrightarrow> position n p \<Longrightarrow> tags_lower n \<Longrightarrow> tags_lower n'"
proof (induction rs arbitrary: n p)
  case (Cons r rs)
  then obtain n1 p1 where s: "add_row (n, p) r = Inr (n1, p1)" "foldR add_row (n1, p1) rs = Inr (n', p')"
    by (auto simp: res_simps)
  obtain t d f k where r: "r = (t, d, f, k)" by (cases r) auto
  obtain p2 where c: "climb n d p = Inr p2" and n1: "n1 = alter (\<lambda>x. fst (add_child t f k x)) p2 n"
    using s(1) by (auto simp: add_row_def r res_simps Let_def)
  have "tags_lower (fst (add_child t f k x))" if "tags_lower x" for x
    using add_child_tags [of t f k x "fst (add_child t f k x)" "snd (add_child t f k x)"] that by simp
  then have "tags_lower n1" unfolding n1 by (intro alter_tags climb_position [OF c] Cons.prems)
  then show ?case using Cons.IH [OF s(2)] add_row_step [OF s(1) Cons.prems(2)] by simp
qed simp

lemma parse_well_formed:
  assumes "parse_call_tree e data = Inr t"
  shows "totals_ok t \<and> tags_lower t"
proof -
  obtain rows n p where r: "foldR add_row (fake_root, []) rows = Inr (n, p)"
    and t: "t = (let r = refresh_total_sample (hide_lua_vm_func n) in hide_min_sample_node (total r) r)"
    by (rule parse_rows [OF assms])
  have "tags_lower fake_root"
    by (simp add: fake_root_def add_child_def new_node_def same_func_def key_def)
  then have "tags_lower n" using add_rows_tags [OF r] by simp
  then show ?thesis by (simp add: t Let_def hide_min_mass refresh_totals_ok hide_min_tags refresh_tags hide_lua_tags)
qed

text \<open>
  C17. The tree of a profile, saved and read back, is the same tree, with the same samples and totals,
  except that depths are counted from its root again.
\<close>

theorem saved_roundtrip:
  assumes "parse_call_tree e data = Inr t"
  shows "read_json (to_dict t) = at_depth 0 t"
  using from_to_dict [of t None] parse_well_formed [OF assms] by (simp add: read_json_def)

lemma saved_roundtrip_witness:
  "\<exists>t. parse_call_tree sample_penv sample_profile = Inr t \<and> read_json (to_dict t) = at_depth 0 t"
proof -
  obtain t where t: "parse_call_tree sample_penv sample_profile = Inr t"
    using parse_returns [OF sample_rows] by (auto simp: row_deep_def)
  from saved_roundtrip [OF t] t show ?thesis by blast
qed

subsection \<open>The table of functions\<close>

text \<open>All nodes of a tree, in the order they are counted, each with its callers.\<close>

fun walk :: "node \<Rightarrow> (str \<times> func_info) list \<Rightarrow> (node \<times> (str \<times> func_info) list) list" where
  "walk (Node d t f s m cs) fathers =
     (Node d t f s m cs, fathers) # concat (map (\<lambda>c. walk c (fathers @ [(t, f)])) cs)"

lemma to_func_dict_walk:
  "to_func_dict n fathers out = fold (\<lambda>(x, fs) o1. count_node x fs o1) (walk n fathers) out"
proof (induction n arbitrary: fathers out)
  case (Node d t f s m cs)
  have "fold (\<lambda>c o1. to_func_dict c (fathers @ [(t, f)]) o1) ds o2 =
      fold (\<lambda>(x, fs) o1. count_node x fs o1) (concat (map (\<lambda>c. walk c (fathers @ [(t, f)])) ds)) o2"
    if "set ds \<subseteq> set cs" for ds o2
    using that by (induction ds arbitrary: o2) (auto simp: Node.IH)
  then show ?case by simp
qed

definition own :: "func_dict \<Rightarrow> str \<times> func_info \<Rightarrow> int" where
  "own out k = (case map_of out k of None \<Rightarrow> 0 | Some (a, b) \<Rightarrow> a)"

definition all_total :: "func_dict \<Rightarrow> str \<times> func_info \<Rightarrow> int" where
  "all_total out k = (case map_of out k of None \<Rightarrow> 0 | Some (a, b) \<Rightarrow> b)"

definition dkey :: "node \<Rightarrow> str \<times> func_info" where
  "dkey n = (tag n, finfo n)"

lemma own_count: "0 \<le> sample x \<Longrightarrow> own (count_node x fs out) k = own out k + (if k = dkey x then sample x else 0)"
  by (auto simp: own_def count_node_def dkey_def Let_def split: option.splits)

lemma own_fold:
  "\<forall>(x, fs) \<in> set ws. 0 \<le> sample x \<Longrightarrow>
   own (fold (\<lambda>(x, fs) o1. count_node x fs o1) ws out) k =
     own out k + sum_list (map (\<lambda>(x, fs). if k = dkey x then sample x else 0) ws)"
  by (induction ws arbitrary: out) (auto simp: own_count)

lemma walk_samples: "samples_ok n \<Longrightarrow> (x, fs') \<in> set (walk n fs) \<Longrightarrow> 0 \<le> sample x"
proof (induction n arbitrary: fs)
  case (Node d t f s m cs)
  then show ?case by auto
qed

lemma sum_list_concat: "sum_list (map g (concat xss)) = sum_list (map (\<lambda>xs. sum_list (map g xs)) xss)"
  by (induction xss) auto

lemma walk_mass: "sum_list (map (sample \<circ> fst) (walk n fs)) = mass n"
proof (induction n arbitrary: fs)
  case (Node d t f s m cs)
  have "sum_list (map (\<lambda>c. sum_list (map (sample \<circ> fst) (walk c (fs @ [(t, f)])))) cs) = masses cs"
    by (rule sum_map_cong) (blast intro: Node.IH)
  then show ?case by (simp add: sum_list_concat o_def)
qed

definition func_nodes :: "node \<Rightarrow> str \<times> func_info \<Rightarrow> node list" where
  "func_nodes n k = filter (\<lambda>x. dkey x = k) (map fst (walk n []))"

lemma sum_update: "sum_list (map (fst \<circ> snd) (AList.update k v d)) = sum_list (map (fst \<circ> snd) d) + fst v -
    (case map_of d k of None \<Rightarrow> 0 | Some w \<Rightarrow> fst w)" for d :: func_dict
  by (induction d) auto

lemma sum_count: "0 \<le> sample x \<Longrightarrow> sum_list (map (fst \<circ> snd) (count_node x fs out)) = sum_list (map (fst \<circ> snd) out) + sample x"
  by (auto simp: count_node_def Let_def sum_update split: option.splits)

lemma sum_fold:
  "\<forall>(x, fs) \<in> set ws. 0 \<le> sample x \<Longrightarrow>
   sum_list (map (fst \<circ> snd) (fold (\<lambda>(x, fs) o1. count_node x fs o1) ws out)) =
     sum_list (map (fst \<circ> snd) out) + sum_list (map (sample \<circ> fst) ws)"
  by (induction ws arbitrary: out) (auto simp: sum_count)

text \<open>
  The table of functions gives every function the samples of all its nodes, and its column of own
  samples adds up to the samples of the tree.
\<close>

theorem func_dict_own:
  assumes "samples_ok n"
  shows "own (to_func_dict n [] []) k = sum_list (map sample (func_nodes n k)) \<and>
    sum_list (map (fst \<circ> snd) (to_func_dict n [] [])) = mass n"
proof -
  have "sum_list (map (\<lambda>(x, fs). if k = dkey x then sample x else 0) ws) =
      sum_list (map sample (filter (\<lambda>x. dkey x = k) (map fst ws)))" for ws :: "(node \<times> (str \<times> func_info) list) list"
    by (induction ws) auto
  moreover have "\<forall>(x, fs) \<in> set (walk n []). 0 \<le> sample x" using walk_samples [OF assms] by auto
  ultimately show ?thesis using own_fold [of "walk n []" "[]" k] sum_fold [of "walk n []" "[]"] walk_mass [of n "[]"]
    by (simp add: to_func_dict_walk func_nodes_def own_def)
qed

text \<open>The column of totals misses the samples of an outer call that has no samples of its own.\<close>

definition recursive_tree :: node where
  "recursive_tree = Node 0 ''c'' (''a'', ''f'', LInt 1) 0 8 [Node 1 ''c'' (''b'', ''f'', LInt 2) 3 8
     [Node 2 ''c'' (''a'', ''f'', LInt 1) 5 5 []]]"

lemma func_dict_total_short:
  "totals_ok recursive_tree \<and> total recursive_tree = 8 \<and> all_total (to_func_dict recursive_tree [] []) (dkey recursive_tree) = 5"
  by code_simp

lemma func_dict_own_witness:
  "own (to_func_dict recursive_tree [] []) (dkey recursive_tree) = 5 \<and>
   sum_list (map (fst \<circ> snd) (to_func_dict recursive_tree [] [])) = 8"
proof -
  have "samples_ok recursive_tree" by (simp add: recursive_tree_def)
  from func_dict_own [OF this, of "dkey recursive_tree"]
  show ?thesis by (simp add: recursive_tree_def func_nodes_def dkey_def)
qed

end
