(* ===== verification/Prof_Zoom.thy ===== *)
theory Prof_Zoom
  imports Prof_Parse
begin

text \<open>
  The zoom view of \<^verbatim>\<open>show_profile.py\<close> (\<open>zoom_tree\<close>): the tree is turned into a graph of functions,
  with callers and callees, and one function at a time is shown between them. A \<open>ZoomCls\<close> object
  is the entry of its key; a reference to it is the key. Following only children may never end, so it
  is a \<open>partial_function\<close> into \<open>option\<close>: \<open>None\<close> is a loop that does not return.
\<close>

subsection \<open>The graph of functions\<close>

record zoom =
  z_tag :: str
  z_func :: func_info
  z_sample :: int
  z_total :: int
  z_callers :: "(fkey \<times> int) list"
  z_children :: "(fkey \<times> int) list"

type_synonym zooms = "(fkey \<times> zoom) list"

definition new_zoom :: "node \<Rightarrow> zoom" where
  "new_zoom c = \<lparr>z_tag = tag c, z_func = finfo c, z_sample = 0, z_total = 0, z_callers = [], z_children = []\<rparr>"

definition add_link :: "fkey \<Rightarrow> int \<Rightarrow> (fkey \<times> int) list \<Rightarrow> (fkey \<times> int) list" where
  "add_link k s links = AList.update k ((case map_of links k of None \<Rightarrow> 0 | Some a \<Rightarrow> a) + s) links"

definition change_zoom :: "fkey \<Rightarrow> (zoom \<Rightarrow> zoom) \<Rightarrow> zooms \<Rightarrow> zooms res" where
  "change_zoom k g zd = rbind (dict_get zd k) (\<lambda>z. Inr (AList.update k (g z) zd))"

text \<open>The path of calls to a node, without repeating a function that calls itself; fathers nearest first.\<close>

fun call_path :: "node list \<Rightarrow> node list \<Rightarrow> node list" where
  "call_path [] path = path"
| "call_path (f # fs) path = call_path fs (if key f \<noteq> key (hd path) then f # path else path)"

fun add_totals :: "int \<Rightarrow> fkey list \<Rightarrow> node list \<Rightarrow> zooms \<Rightarrow> zooms" where
  "add_totals s seen [] zd = zd"
| "add_totals s seen (c # cs) zd =
     (if key c \<in> set seen then add_totals s seen cs zd
      else let z = (case map_of zd (key c) of None \<Rightarrow> new_zoom c | Some z \<Rightarrow> z)
           in add_totals s (key c # seen) cs (AList.update (key c) (z\<lparr>z_total := z_total z + s\<rparr>) zd))"

definition pairs_dict :: "(fkey \<times> fkey) list \<Rightarrow> (fkey \<times> fkey) list" where
  "pairs_dict ps = fold (\<lambda>(x, y). AList.update x y) ps []"

definition add_sample :: "node \<Rightarrow> node list \<Rightarrow> zooms \<Rightarrow> zooms res" where
  "add_sample n fathers zd =
     (let path = map key (call_path fathers [n]); s = sample n in
      rbind (change_zoom (key n) (\<lambda>z. z\<lparr>z_sample := z_sample z + s\<rparr>) (add_totals s [] (call_path fathers [n]) zd)) (\<lambda>zd1.
      rbind (foldR (\<lambda>d (x, y). rbind (dict_get d y) (\<lambda>_. change_zoom x (\<lambda>z. z\<lparr>z_children := add_link y s (z_children z)\<rparr>) d))
               zd1 (pairs_dict (zip path (tl path)))) (\<lambda>zd2.
      foldR (\<lambda>d (x, y). rbind (dict_get d y) (\<lambda>_. change_zoom x (\<lambda>z. z\<lparr>z_callers := add_link y s (z_callers z)\<rparr>) d))
        zd2 (pairs_dict (zip (tl path) path)))))"

fun to_zoom :: "node \<Rightarrow> node list \<Rightarrow> zooms \<Rightarrow> (zooms \<times> fkey option) res" where
  "to_zoom (Node d t f s m cs) fathers zd =
     (let n = Node d t f s m cs in
      if m = 0 then Inr (zd, None)
      else rbind (if 0 < s then add_sample n fathers zd else Inr zd) (\<lambda>zd1.
           rbind (foldR (\<lambda>d1 c. rbind (to_zoom c (n # fathers) d1) (\<lambda>(d2, _). Inr d2)) zd1 cs) (\<lambda>zd2.
           rbind (dict_get zd2 (key n)) (\<lambda>_. Inr (zd2, Some (key n))))))"

definition sort_links :: "zoom \<Rightarrow> zoom" where
  "sort_links z = z\<lparr>z_callers := sort_key (\<lambda>x. - snd x) (z_callers z), z_children := sort_key (\<lambda>x. - snd x) (z_children z)\<rparr>"

definition zoom_graph :: "node \<Rightarrow> (zooms \<times> fkey option) res" where
  "zoom_graph n = rbind (to_zoom (refresh_total_sample n) [] []) (\<lambda>(zd, k). Inr (map (\<lambda>(x, z). (x, sort_links z)) zd, k))"

subsection \<open>The screen\<close>

datatype mark = Single | First | Middle | Last

type_synonym zrow = "str \<times> mark \<times> fkey"

definition links_of :: "(zoom \<Rightarrow> (fkey \<times> int) list) \<Rightarrow> zooms \<Rightarrow> fkey \<Rightarrow> (fkey \<times> int) list" where
  "links_of sel zd k = (case map_of zd k of None \<Rightarrow> [] | Some z \<Rightarrow> sel z)"

definition only_link :: "(zoom \<Rightarrow> (fkey \<times> int) list) \<Rightarrow> zooms \<Rightarrow> fkey \<Rightarrow> fkey option" where
  "only_link sel zd k = (case links_of sel zd k of [(x, a)] \<Rightarrow> Some x | _ \<Rightarrow> None)"

text \<open>The only callers in front of a caller, up to one that is already in the list.\<close>

function caller_chain :: "zooms \<Rightarrow> fkey \<Rightarrow> fkey list \<Rightarrow> fkey list" where
  "caller_chain zd x calls =
     (case only_link z_callers zd x of
        None \<Rightarrow> calls
      | Some y \<Rightarrow> if y \<in> set calls then calls else caller_chain zd y (y # calls))"
  by pat_completeness auto

definition all_callers :: "zooms \<Rightarrow> fkey set" where
  "all_callers zd = (\<Union>z \<in> snd ` set zd. fst ` set (z_callers z))"

lemma only_link_mem: "only_link sel zd x = Some y \<Longrightarrow> \<exists>z \<in> snd ` set zd. y \<in> fst ` set (sel z)"
  by (auto simp: only_link_def links_of_def split: option.splits list.splits prod.splits dest!: map_of_SomeD)
    (metis fst_conv image_eqI list.set_intros(1) snd_conv)

termination caller_chain
proof (relation "measure (\<lambda>(zd, x, calls). card (all_callers zd - set calls))")
  fix zd x calls y
  assume a: "only_link z_callers zd x = Some y" "y \<notin> set calls"
  obtain z where "z \<in> snd ` set zd" "y \<in> fst ` set (z_callers z)" using only_link_mem [OF a(1)] by blast
  then have "y \<in> all_callers zd - set calls" using a(2) unfolding all_callers_def by blast
  moreover have "finite (all_callers zd - set calls)" by (simp add: all_callers_def)
  moreover have "all_callers zd - set (y # calls) \<subset> all_callers zd - set calls" using calculation(1) by auto
  ultimately have "card (all_callers zd - set (y # calls)) < card (all_callers zd - set calls)"
    by (intro psubset_card_mono)
  then show "((zd, y, y # calls), zd, x, calls) \<in> measure (\<lambda>(zd, x, calls). card (all_callers zd - set calls))"
    by (simp only: in_measure prod.case)
qed simp

declare caller_chain.simps [simp del]

text \<open>The only children behind a child, up to the child itself.\<close>

partial_function (option) child_chain :: "zooms \<Rightarrow> fkey \<Rightarrow> fkey \<Rightarrow> fkey list \<Rightarrow> fkey list option" where
  "child_chain zd c x calls =
     (case only_link z_children zd x of
        None \<Rightarrow> Some calls
      | Some y \<Rightarrow> if y = c then Some calls else child_chain zd c y (calls @ [y]))"

declare child_chain.simps [code]

subsection \<open>What the graph counts\<close>

definition zt :: "zooms \<Rightarrow> fkey \<Rightarrow> int" where
  "zt zd k = (case map_of zd k of None \<Rightarrow> 0 | Some z \<Rightarrow> z_total z)"

definition zs :: "zooms \<Rightarrow> fkey \<Rightarrow> int" where
  "zs zd k = (case map_of zd k of None \<Rightarrow> 0 | Some z \<Rightarrow> z_sample z)"

abbreviation zkeys :: "zooms \<Rightarrow> fkey set" where
  "zkeys zd \<equiv> dom (map_of zd)"

text \<open>Own samples of a function, and samples below its outermost calls.\<close>

fun own_mass :: "fkey \<Rightarrow> node \<Rightarrow> int" where
  "own_mass k (Node d t f s m cs) = (if key (Node d t f s m cs) = k then s else 0) + sum_list (map (own_mass k) cs)"

fun top_mass :: "fkey \<Rightarrow> node \<Rightarrow> int" where
  "top_mass k (Node d t f s m cs) =
     (if key (Node d t f s m cs) = k then mass (Node d t f s m cs) else sum_list (map (top_mass k) cs))"

lemma call_path_keys: "path \<noteq> [] \<Longrightarrow> key ` set (call_path fs path) = key ` set fs \<union> key ` set path"
proof (induction fs arbitrary: path)
  case (Cons f fs)
  have "key (hd path) \<in> key ` set path" using Cons.prems by simp
  then show ?case using Cons by auto
qed simp

lemma add_totals_all:
  "(\<forall>k. zt (add_totals s seen cs zd) k = zt zd k + (if k \<in> key ` set cs \<and> k \<notin> set seen then s else 0) \<and>
     zs (add_totals s seen cs zd) k = zs zd k) \<and>
   zkeys (add_totals s seen cs zd) = zkeys zd \<union> (key ` set cs - set seen)"
proof (induction s seen cs zd rule: add_totals.induct)
  case (2 s seen c cs zd)
  show ?case
  proof (cases "key c \<in> set seen")
    case True
    then show ?thesis using "2.IH"(1) by auto
  next
    case False
    define z where "z = (case map_of zd (key c) of None \<Rightarrow> new_zoom c | Some z \<Rightarrow> z)"
    define zd1 where "zd1 = AList.update (key c) (z\<lparr>z_total := z_total z + s\<rparr>) zd"
    have e: "add_totals s seen (c # cs) zd = add_totals s (key c # seen) cs zd1"
      using False by (simp add: z_def zd1_def Let_def)
    have k1: "zkeys zd1 = insert (key c) (zkeys zd)" by (auto simp: zd1_def split: if_splits)
    have t1: "zt zd1 k = zt zd k + (if k = key c then s else 0)" "zs zd1 k = zs zd k" for k
      by (auto simp: zt_def zs_def zd1_def z_def new_zoom_def split: option.splits)
    have ih: "\<forall>k. zt (add_totals s (key c # seen) cs zd1) k = zt zd1 k + (if k \<in> key ` set cs \<and> k \<notin> set (key c # seen) then s else 0) \<and>
      zs (add_totals s (key c # seen) cs zd1) k = zs zd1 k"
      "zkeys (add_totals s (key c # seen) cs zd1) = zkeys zd1 \<union> (key ` set cs - set (key c # seen))"
      using "2.IH"(2) [OF False z_def, folded zd1_def] by blast+
    show ?thesis unfolding e using ih k1 t1 False by auto
  qed
qed simp

lemma add_totals_counts:
  "zt (add_totals s seen cs zd) k = zt zd k + (if k \<in> key ` set cs \<and> k \<notin> set seen then s else 0)"
  "zs (add_totals s seen cs zd) k = zs zd k"
  "zkeys (add_totals s seen cs zd) = zkeys zd \<union> (key ` set cs - set seen)"
  using add_totals_all [of s seen cs zd] by blast+

lemma change_zoom_counts:
  assumes "k \<in> zkeys zd" "\<And>z. z_total (g z) = z_total z"
  shows "\<exists>zd'. change_zoom k g zd = Inr zd' \<and> zkeys zd' = zkeys zd \<and> (\<forall>x. zt zd' x = zt zd x) \<and>
    ((\<forall>z. z_sample (g z) = z_sample z + a) \<longrightarrow> (\<forall>x. zs zd' x = zs zd x + (if x = k then a else 0)))"
proof -
  obtain z where z: "map_of zd k = Some z" using assms(1) by auto
  then have "change_zoom k g zd = Inr (AList.update k (g z) zd)" by (simp add: change_zoom_def dict_get_def)
  moreover have "zkeys (AList.update k (g z) zd) = zkeys zd" using z by auto
  ultimately show ?thesis using z assms(2) by (auto simp: zt_def zs_def)
qed

lemma links_keep:
  assumes "\<forall>(x, y) \<in> set ps. x \<in> zkeys zd \<and> y \<in> zkeys zd"
    and g: "\<And>y z. z_total (g y z) = z_total z" "\<And>y z. z_sample (g y z) = z_sample z"
  shows "\<exists>zd'. foldR (\<lambda>d (x, y). rbind (dict_get d y) (\<lambda>_. change_zoom x (g y) d)) zd ps = Inr zd' \<and>
    zkeys zd' = zkeys zd \<and> (\<forall>x. zt zd' x = zt zd x \<and> zs zd' x = zs zd x)"
  using assms(1)
proof (induction ps arbitrary: zd)
  case (Cons p ps)
  obtain x y where p: "p = (x, y)" by (cases p)
  obtain v where v: "map_of zd y = Some v" using Cons.prems p by auto
  obtain zd1 where z: "change_zoom x (g y) zd = Inr zd1" "zkeys zd1 = zkeys zd" "\<forall>k. zt zd1 k = zt zd k" "\<forall>k. zs zd1 k = zs zd k"
    using change_zoom_counts [of x zd "g y" 0] Cons.prems p g by auto
  obtain zd2 where "foldR (\<lambda>d (x, y). rbind (dict_get d y) (\<lambda>_. change_zoom x (g y) d)) zd1 ps = Inr zd2"
    "zkeys zd2 = zkeys zd1" "\<forall>k. zt zd2 k = zt zd1 k \<and> zs zd2 k = zs zd1 k"
    using Cons.IH [of zd1] Cons.prems z(2) by auto
  then show ?case using z p v by (simp add: dict_get_def)
qed simp

lemma pairs_dict_subset: "set (pairs_dict ps) \<subseteq> set ps"
proof -
  have "set (fold (\<lambda>(x, y). AList.update x y) ps d) \<subseteq> set ps \<union> set d" for d
  proof (induction ps arbitrary: d)
    case (Cons p ps)
    then show ?case using set_update_subset [of "fst p" "snd p" d] by (force split: prod.splits)
  qed simp
  from this [of "[]"] show ?thesis by (simp add: pairs_dict_def)
qed

lemma zip_tl_mem: "(x, y) \<in> set (zip xs (tl xs)) \<Longrightarrow> x \<in> set xs \<and> y \<in> set xs"
  "(x, y) \<in> set (zip (tl xs) xs) \<Longrightarrow> x \<in> set xs \<and> y \<in> set xs"
  by (cases xs; auto dest: set_zip_leftD set_zip_rightD)+

lemma add_sample_counts:
  "\<exists>zd'. add_sample n fathers zd = Inr zd' \<and> zkeys zd' = zkeys zd \<union> insert (key n) (key ` set fathers) \<and>
    (\<forall>k. zt zd' k = zt zd k + (if k = key n \<or> k \<in> key ` set fathers then sample n else 0) \<and>
         zs zd' k = zs zd k + (if k = key n then sample n else 0))"
proof -
  let ?path = "call_path fathers [n]" and ?s = "sample n"
  let ?ks = "map key ?path"
  let ?zd0 = "add_totals ?s [] ?path zd"
  have ks: "set ?ks = insert (key n) (key ` set fathers)" using call_path_keys [of "[n]" fathers] by auto
  have k0: "zkeys ?zd0 = zkeys zd \<union> set ?ks" by (simp add: add_totals_counts)
  obtain zd1 where z1: "change_zoom (key n) (\<lambda>z. z\<lparr>z_sample := z_sample z + ?s\<rparr>) ?zd0 = Inr zd1" "zkeys zd1 = zkeys ?zd0"
    "\<forall>k. zt zd1 k = zt ?zd0 k" "\<forall>k. zs zd1 k = zs ?zd0 k + (if k = key n then ?s else 0)"
    using change_zoom_counts [of "key n" ?zd0 "\<lambda>z. z\<lparr>z_sample := z_sample z + ?s\<rparr>" ?s] k0 ks by auto
  have p1: "\<forall>(x, y) \<in> set (pairs_dict (zip ?ks (tl ?ks))). x \<in> zkeys zd1 \<and> y \<in> zkeys zd1"
    using pairs_dict_subset zip_tl_mem(1) z1(2) k0 by fastforce
  obtain zd2 where z2: "foldR (\<lambda>d (x, y). rbind (dict_get d y) (\<lambda>_. change_zoom x (\<lambda>z. z\<lparr>z_children := add_link y ?s (z_children z)\<rparr>) d))
      zd1 (pairs_dict (zip ?ks (tl ?ks))) = Inr zd2" "zkeys zd2 = zkeys zd1" "\<forall>k. zt zd2 k = zt zd1 k \<and> zs zd2 k = zs zd1 k"
    using links_keep [OF p1, of "\<lambda>y z. z\<lparr>z_children := add_link y ?s (z_children z)\<rparr>"] by auto
  have p2: "\<forall>(x, y) \<in> set (pairs_dict (zip (tl ?ks) ?ks)). x \<in> zkeys zd2 \<and> y \<in> zkeys zd2"
    using pairs_dict_subset zip_tl_mem(2) z1(2) z2(2) k0 by fastforce
  obtain zd3 where z3: "foldR (\<lambda>d (x, y). rbind (dict_get d y) (\<lambda>_. change_zoom x (\<lambda>z. z\<lparr>z_callers := add_link y ?s (z_callers z)\<rparr>) d))
      zd2 (pairs_dict (zip (tl ?ks) ?ks)) = Inr zd3" "zkeys zd3 = zkeys zd2" "\<forall>k. zt zd3 k = zt zd2 k \<and> zs zd3 k = zs zd2 k"
    using links_keep [OF p2, of "\<lambda>y z. z\<lparr>z_callers := add_link y ?s (z_callers z)\<rparr>"] by auto
  have "add_sample n fathers zd = Inr zd3"
    by (simp add: add_sample_def Let_def z1(1) z2(1) z3(1))
  moreover have "k \<in> key ` set ?path \<longleftrightarrow> k = key n \<or> k \<in> key ` set fathers" for k using ks by auto
  ultimately show ?thesis using z1(2-) z2(2-) z3(2-) k0 ks by (simp add: add_totals_counts)
qed

lemma masses_bounds:
  assumes "samples_ok n"
  shows "0 \<le> own_mass k n \<and> own_mass k n \<le> mass n \<and> 0 \<le> top_mass k n \<and> top_mass k n \<le> mass n \<and> 0 \<le> mass n"
  using assms
proof (induction n)
  case (Node d t f s m cs)
  have s: "0 \<le> s" using Node.prems by simp
  have "0 \<le> sum_list (map (own_mass k) cs) \<and> sum_list (map (own_mass k) cs) \<le> masses cs \<and>
    0 \<le> sum_list (map (top_mass k) cs) \<and> sum_list (map (top_mass k) cs) \<le> masses cs"
    using Node.IH Node.prems by (induction cs) force+
  then show ?case using s by auto
qed

lemma sum_list_pos: "\<forall>x \<in> set xs. 0 \<le> g x \<Longrightarrow> sum_list (map g xs) \<noteq> 0 \<Longrightarrow> \<exists>x \<in> set xs. g x \<noteq> (0 :: int)"
  by (induction xs) auto

text \<open>What visiting a subtree adds to the graph.\<close>

definition adds :: "zooms \<Rightarrow> zooms \<Rightarrow> (fkey \<Rightarrow> int) \<Rightarrow> (fkey \<Rightarrow> int) \<Rightarrow> bool" where
  "adds zd zd' own tot \<longleftrightarrow> (\<forall>k. zs zd' k = zs zd k + own k \<and> zt zd' k = zt zd k + tot k) \<and> zkeys zd \<subseteq> zkeys zd'"

lemma adds_keys: "adds zd zd' own tot \<Longrightarrow> zkeys zd \<subseteq> zkeys zd'"
  by (simp add: adds_def)

lemma adds_trans:
  assumes "adds a b o1 t1" "adds b c o2 t2"
  shows "adds a c (\<lambda>k. o1 k + o2 k) (\<lambda>k. t1 k + t2 k)"
proof -
  have "zkeys a \<subseteq> zkeys c" using adds_keys [OF assms(1)] adds_keys [OF assms(2)] by (rule subset_trans)
  moreover have "\<forall>k. zs c k = zs a k + (o1 k + o2 k) \<and> zt c k = zt a k + (t1 k + t2 k)"
    using assms by (simp add: adds_def)
  ultimately show ?thesis by (simp add: adds_def)
qed

definition path_mass :: "fkey set \<Rightarrow> fkey \<Rightarrow> node \<Rightarrow> int" where
  "path_mass F k n = (if k \<in> F then mass n else top_mass k n)"

lemma to_zoom_counts:
  assumes "totals_ok n" "samples_ok n"
  shows "\<exists>zd'. to_zoom n fathers zd = Inr (zd', if mass n = 0 then None else Some (key n)) \<and>
    adds zd zd' (\<lambda>k. own_mass k n) (\<lambda>k. path_mass (key ` set fathers) k n) \<and>
    (mass n \<noteq> 0 \<longrightarrow> insert (key n) (key ` set fathers) \<subseteq> zkeys zd')"
  using assms
proof (induction n arbitrary: fathers zd)
  case (Node d t f s m cs)
  let ?n = "Node d t f s m cs"
  let ?F = "insert (key ?n) (key ` set fathers)"
  have m: "m = mass ?n" using Node.prems(1) by simp
  show ?case
  proof (cases "m = 0")
    case True
    then have "own_mass k ?n = 0" "top_mass k ?n = 0" for k
      using masses_bounds [OF Node.prems(2), of k] m by auto
    then show ?thesis using True m by (auto simp: adds_def path_mass_def)
  next
    case False
    have kids: "\<exists>zd2. foldR (\<lambda>d1 c. rbind (to_zoom c (?n # fathers) d1) (\<lambda>(d2, _). Inr d2)) z ds = Inr zd2 \<and>
        adds z zd2 (\<lambda>k. sum_list (map (own_mass k) ds)) (\<lambda>k. sum_list (map (path_mass ?F k) ds)) \<and>
        ((\<exists>c \<in> set ds. mass c \<noteq> 0) \<longrightarrow> ?F \<subseteq> zkeys zd2)" if "set ds \<subseteq> set cs" for ds z
      using that
    proof (induction ds arbitrary: z)
      case (Cons c ds)
      have c: "c \<in> set cs" "totals_ok c" "samples_ok c" using Cons.prems Node.prems by auto
      obtain z1 where z1: "to_zoom c (?n # fathers) z = Inr (z1, if mass c = 0 then None else Some (key c))"
        "adds z z1 (\<lambda>k. own_mass k c) (\<lambda>k. path_mass ?F k c)" "mass c \<noteq> 0 \<Longrightarrow> ?F \<subseteq> zkeys z1"
        using Node.IH [OF c, of "?n # fathers" z] by auto
      obtain z2 where z2: "foldR (\<lambda>d1 c. rbind (to_zoom c (?n # fathers) d1) (\<lambda>(d2, _). Inr d2)) z1 ds = Inr z2"
        "adds z1 z2 (\<lambda>k. sum_list (map (own_mass k) ds)) (\<lambda>k. sum_list (map (path_mass ?F k) ds))"
        "(\<exists>c \<in> set ds. mass c \<noteq> 0) \<Longrightarrow> ?F \<subseteq> zkeys z2" using Cons.IH [of z1] Cons.prems by auto
      have "?F \<subseteq> zkeys z2" if "\<exists>x \<in> set (c # ds). mass x \<noteq> 0"
      proof (cases "mass c = 0")
        case True
        then show ?thesis using that z2(3) by auto
      next
        case False
        show ?thesis using z1(3) [OF False] adds_keys [OF z2(2)] by (rule subset_trans)
      qed
      with z1(1) z2(1) adds_trans [OF z1(2) z2(2)] show ?case by simp
    qed (simp add: adds_def)
    have pm: "path_mass (key ` set fathers) k ?n =
        (if k \<in> ?F then s else 0) + sum_list (map (path_mass ?F k) cs)" for k
    proof (cases "k \<in> ?F")
      case True
      then have "path_mass ?F k = mass" by (simp add: path_mass_def fun_eq_iff)
      then show ?thesis using True by (auto simp: path_mass_def)
    next
      case False
      then have "path_mass ?F k = top_mass k" by (auto simp: path_mass_def fun_eq_iff)
      then show ?thesis using False by (auto simp: path_mass_def)
    qed
    have om: "own_mass k ?n = (if k = key ?n then s else 0) + sum_list (map (own_mass k) cs)" for k by auto
    obtain zd1 where z1: "(if 0 < s then add_sample ?n fathers zd else Inr zd) = Inr zd1"
      "adds zd zd1 (\<lambda>k. if k = key ?n then s else 0) (\<lambda>k. if k \<in> ?F then s else 0)" "0 < s \<Longrightarrow> ?F \<subseteq> zkeys zd1"
    proof (cases "0 < s")
      case True
      obtain zd' where a: "add_sample ?n fathers zd = Inr zd'" "zkeys zd' = zkeys zd \<union> ?F"
        "\<forall>k. zt zd' k = zt zd k + (if k = key ?n \<or> k \<in> key ` set fathers then s else 0) \<and>
          zs zd' k = zs zd k + (if k = key ?n then s else 0)"
        using add_sample_counts [of ?n fathers zd] by auto
      show ?thesis by (rule that [of zd']) (use True a in \<open>auto simp: adds_def\<close>)
    next
      case False
      then have "s = 0" using Node.prems(2) by simp
      then show ?thesis using that [of zd] by (simp add: adds_def)
    qed
    obtain zd2 where z2: "foldR (\<lambda>d1 c. rbind (to_zoom c (?n # fathers) d1) (\<lambda>(d2, _). Inr d2)) zd1 cs = Inr zd2"
      "adds zd1 zd2 (\<lambda>k. sum_list (map (own_mass k) cs)) (\<lambda>k. sum_list (map (path_mass ?F k) cs))"
      "(\<exists>c \<in> set cs. mass c \<noteq> 0) \<Longrightarrow> ?F \<subseteq> zkeys zd2" using kids [of cs zd1] by auto
    have F: "?F \<subseteq> zkeys zd2"
    proof (cases "0 < s")
      case True
      show ?thesis using z1(3) [OF True] adds_keys [OF z2(2)] by (rule subset_trans)
    next
      case s0: False
      then have "masses cs \<noteq> 0" using False m Node.prems(2) by auto
      moreover have "\<forall>c \<in> set cs. 0 \<le> mass c" using Node.prems(2) masses_bounds by auto
      ultimately show ?thesis using z2(3) sum_list_pos [of cs mass] by blast
    qed
    then obtain z where z: "map_of zd2 (key ?n) = Some z" by blast
    have "to_zoom ?n fathers zd = Inr (zd2, Some (key ?n))"
      using z1(1) z2(1) False z by (simp add: dict_get_def del: foldR.simps)
    moreover have "adds zd zd2 (\<lambda>k. own_mass k ?n) (\<lambda>k. path_mass (key ` set fathers) k ?n)"
      using adds_trans [OF z1(2) z2(2)] unfolding om pm .
    ultimately show ?thesis using F m False by auto
  qed
qed

lemma refresh_parts: "own_mass k (refresh_total_sample n) = own_mass k n \<and> top_mass k (refresh_total_sample n) = top_mass k n
    \<and> (samples_ok (refresh_total_sample n) \<longleftrightarrow> samples_ok n)"
proof (induction n)
  case (Node d t f s m cs)
  then have "sum_list (map (\<lambda>c. own_mass k (refresh_total_sample c)) cs) = sum_list (map (own_mass k) cs)"
    "sum_list (map (\<lambda>c. top_mass k (refresh_total_sample c)) cs) = sum_list (map (top_mass k) cs)"
    "sum_list (map (\<lambda>c. mass (refresh_total_sample c)) cs) = masses cs"
    by (auto intro!: sum_map_cong simp: refresh_mass)
  then show ?case using Node by (simp add: Let_def o_def key_def)
qed

lemma sorted_fields: "z_sample (sort_links z) = z_sample z" "z_total (sort_links z) = z_total z"
  by (simp_all add: sort_links_def)

lemma map_sorted: "map_of (map (\<lambda>(x, z). (x, sort_links z)) zd) k = map_option sort_links (map_of zd k)"
  by (induction zd) auto

text \<open>
  C18. The graph of functions is built without an exception, and counts right: the own samples of a
  function are those of all its nodes, and its total counts every sample below its outermost calls
  once, however often the function occurs on the way.
\<close>

theorem zoom_counts:
  assumes "samples_ok n"
  shows "\<exists>zd. zoom_graph n = Inr (zd, if mass n = 0 then None else Some (key n)) \<and>
    (\<forall>k. zs zd k = own_mass k n \<and> zt zd k = top_mass k n)"
proof -
  let ?r = "refresh_total_sample n"
  obtain zd where z: "to_zoom ?r [] [] = Inr (zd, if mass ?r = 0 then None else Some (key ?r))"
    "adds [] zd (\<lambda>k. own_mass k ?r) (\<lambda>k. path_mass {} k ?r)"
    using to_zoom_counts [OF refresh_totals_ok, of n "[]" "[]"] assms refresh_parts by auto
  let ?zd = "map (\<lambda>(x, z). (x, sort_links z)) zd"
  have "zs ?zd k = zs zd k" "zt ?zd k = zt zd k" for k
    by (simp_all add: zs_def zt_def map_sorted sorted_fields split: option.splits)
  moreover have "zs zd k = own_mass k n \<and> zt zd k = top_mass k n" for k
  proof -
    have "zs zd k = zs [] k + own_mass k ?r \<and> zt zd k = zt [] k + path_mass {} k ?r"
      using z(2) unfolding adds_def by blast
    moreover have "zs [] k = 0" "zt [] k = 0" "path_mass {} k ?r = top_mass k ?r" by (simp_all add: zs_def zt_def path_mass_def)
    ultimately show ?thesis using refresh_parts [of k n] by linarith
  qed
  ultimately show ?thesis using z(1) by (simp add: zoom_graph_def refresh_mass)
qed

subsection \<open>The chains of single callees\<close>

text \<open>The functions met from \<open>c\<close>, each the only callee of the one before.\<close>

fun follow :: "zooms \<Rightarrow> nat \<Rightarrow> fkey \<Rightarrow> fkey option" where
  "follow zd 0 x = Some x"
| "follow zd (Suc n) x = (case only_link z_children zd x of None \<Rightarrow> None | Some y \<Rightarrow> follow zd n y)"

lemmas child_chain_ind = child_chain.raw_induct [where xa = "(((zd, c), x), calls)" for zd c x calls, unfolded prod.case]

lemma child_chain_reaches:
  assumes "child_chain zd c x calls = Some r"
  shows "\<exists>n > 0. follow zd n x = None \<or> follow zd n x = Some c"
proof (rule child_chain_ind [where P = "\<lambda>zd c x calls r. \<exists>n > 0. follow zd n x = None \<or> follow zd n x = Some c", OF _ assms])
  fix rec :: "zooms \<Rightarrow> fkey \<Rightarrow> fkey \<Rightarrow> fkey list \<Rightarrow> fkey list option" and zd c x calls r
  assume ih: "\<And>zd c x calls r. rec zd c x calls = Some r \<Longrightarrow> \<exists>n > 0. follow zd n x = None \<or> follow zd n x = Some c"
    and eq: "(case only_link z_children zd x of None \<Rightarrow> Some calls
        | Some y \<Rightarrow> if y = c then Some calls else rec zd c y (calls @ [y])) = Some r"
  show "\<exists>n > 0. follow zd n x = None \<or> follow zd n x = Some c"
  proof (cases "only_link z_children zd x")
    case None
    then have "follow zd (Suc 0) x = None" by simp
    then show ?thesis by blast
  next
    case (Some y)
    show ?thesis
    proof (cases "y = c")
      case True
      then have "follow zd (Suc 0) x = Some c" using Some by simp
      then show ?thesis by blast
    next
      case False
      then have "rec zd c y (calls @ [y]) = Some r" using eq Some by simp
      then obtain n where "follow zd n y = None \<or> follow zd n y = Some c" using ih by blast
      then have "follow zd (Suc n) x = None \<or> follow zd (Suc n) x = Some c" using Some by simp
      then show ?thesis by blast
    qed
  qed
qed

lemma reaches_child_chain:
  "follow zd (Suc n) x = None \<or> follow zd (Suc n) x = Some c \<Longrightarrow> \<exists>r. child_chain zd c x calls = Some r"
proof (induction n arbitrary: x calls)
  case 0
  then show ?case by (subst child_chain.simps) (auto split: option.splits)
next
  case (Suc n)
  show ?case
  proof (cases "only_link z_children zd x")
    case (Some y)
    then have "follow zd (Suc n) y = None \<or> follow zd (Suc n) y = Some c" using Suc.prems by simp
    with Suc.IH [of y "calls @ [y]"] Some show ?thesis by (subst child_chain.simps) auto
  qed (subst child_chain.simps, simp)
qed

text \<open>
  C19. The loop that follows single callees from a function returns exactly when the way ends or comes
  back to that function. A way into a cycle that the function is not on is followed for ever.
\<close>

theorem child_chain_returns_iff:
  "(\<exists>r. child_chain zd c c [c] = Some r) \<longleftrightarrow> (\<exists>n > 0. follow zd n c = None \<or> follow zd n c = Some c)"
  using child_chain_reaches reaches_child_chain by (metis gr0_implies_Suc)

subsection \<open>The screen and its keys\<close>

definition links_text :: "int \<Rightarrow> zoom \<Rightarrow> str res" where
  "links_text a z = rbind (quotient a (z_total z)) (\<lambda>q. Inr (fixed3 q))"

fun call_rows :: "str \<Rightarrow> fkey list \<Rightarrow> zrow list" where
  "call_rows left ks =
     (if length ks = 1 then [(left, Single, ks ! 0)]
      else map (\<lambda>i. (left, if i = 0 then First else if i = length ks - 1 then Last else Middle, ks ! i)) [0..<length ks])"

text \<open>One part of the screen: a chain for every link; \<open>None\<close> when a chain is never finished.\<close>

fun link_rows :: "(fkey \<Rightarrow> fkey list option) \<Rightarrow> zoom \<Rightarrow> (fkey \<times> int) list \<Rightarrow> zrow list res option" where
  "link_rows chain z [] = Some (Inr [])"
| "link_rows chain z ((c, a) # links) =
     (case links_text a z of
        Inl x \<Rightarrow> Some (Inl x)
      | Inr left \<Rightarrow>
          (case chain c of
             None \<Rightarrow> None
           | Some ks \<Rightarrow> map_option (\<lambda>r. rbind r (\<lambda>rows. Inr (call_rows left ks @ rows))) (link_rows chain z links)))"

definition zoom_rows :: "zooms \<Rightarrow> fkey \<Rightarrow> (zrow list \<times> nat) res option" where
  "zoom_rows zd k =
     (case map_of zd k of
        None \<Rightarrow> Some (Inl AttributeError)
      | Some z \<Rightarrow>
          (case link_rows (\<lambda>c. Some (caller_chain zd c [c])) z (z_callers z) of
             Some (Inr up) \<Rightarrow>
               map_option (\<lambda>r. rbind r (\<lambda>down. Inr (up @ [(''     '', Single, k)] @ down, length up)))
                 (link_rows (\<lambda>c. child_chain zd c c [c]) z (z_children z))
           | Some (Inl x) \<Rightarrow> Some (Inl x)
           | None \<Rightarrow> None))"

record zview =
  shown_zoom :: fkey
  chosen :: nat
  rows :: "zrow list"

text \<open>Showing a function selects its own row.\<close>

definition show_zoom :: "zooms \<Rightarrow> fkey \<Rightarrow> zview res option" where
  "show_zoom zd k = map_option (\<lambda>r. rbind r (\<lambda>(rs, i). Inr \<lparr>shown_zoom = k, chosen = i, rows = rs\<rparr>)) (zoom_rows zd k)"

definition zoom_key :: "zooms \<Rightarrow> char \<Rightarrow> zview \<Rightarrow> zview res option" where
  "zoom_key zd c v =
     (if c = CHR ''s'' then Some (Inr (if chosen v < length (rows v) - 1 then v\<lparr>chosen := chosen v + 1\<rparr> else v))
      else if c = CHR ''w'' then Some (Inr (if 0 < chosen v then v\<lparr>chosen := chosen v - 1\<rparr> else v))
      else if c = CHR '' '' then
        (case nth_res (rows v) (chosen v) of
           Inl x \<Rightarrow> Some (Inl x)
         | Inr (_, _, k) \<Rightarrow> if k \<noteq> shown_zoom v then show_zoom zd k else Some (Inr v))
      else Some (Inr v))"

fun zoom_keys :: "zooms \<Rightarrow> str \<Rightarrow> zview \<Rightarrow> zview res option" where
  "zoom_keys zd [] v = Some (Inr v)"
| "zoom_keys zd (c # cs) v =
     (if c = CHR ''q'' then Some (Inr v)
      else case zoom_key zd c v of Some (Inr v') \<Rightarrow> zoom_keys zd cs v' | r \<Rightarrow> r)"

definition zoom_tree :: "node \<Rightarrow> str \<Rightarrow> zview res option" where
  "zoom_tree n keys =
     (case zoom_graph n of
        Inl x \<Rightarrow> Some (Inl x)
      | Inr (zd, None) \<Rightarrow> Some (Inl AttributeError)
      | Inr (zd, Some k) \<Rightarrow> (case show_zoom zd k of Some (Inr v) \<Rightarrow> zoom_keys zd keys v | r \<Rightarrow> r))"

definition row_keys :: "zview \<Rightarrow> fkey list" where
  "row_keys v = map (\<lambda>r. snd (snd r)) (rows v)"

definition zview_ok :: "zview \<Rightarrow> bool" where
  "zview_ok v \<longleftrightarrow> chosen v < length (rows v) \<and> shown_zoom v \<in> set (row_keys v)"

lemma row_keys_chosen [simp]: "row_keys (v\<lparr>chosen := i\<rparr>) = row_keys v"
  by (simp add: row_keys_def)

lemma show_zoom_ok: "show_zoom zd k = Some (Inr v) \<Longrightarrow> zview_ok v \<and> shown_zoom v = k"
  by (auto simp: show_zoom_def zoom_rows_def zview_ok_def row_keys_def res_simps
      split: option.splits sum.splits prod.splits)

lemma zoom_key_ok: "zoom_key zd c v = Some (Inr v') \<Longrightarrow> zview_ok v \<Longrightarrow> zview_ok v'"
  by (auto simp: zoom_key_def zview_ok_def split: if_splits sum.splits dest!: show_zoom_ok)

lemma zoom_keys_ok: "zoom_keys zd cs v = Some (Inr v') \<Longrightarrow> zview_ok v \<Longrightarrow> zview_ok v'"
  by (induction zd cs v rule: zoom_keys.induct) (auto dest: zoom_key_ok split: if_splits option.splits sum.splits)

text \<open>
  Whatever keys are pressed in the zoom view, the selection stays on a row of the screen and the
  function shown is one of the rows.
\<close>

theorem zoom_selection:
  assumes "zoom_tree n keys = Some (Inr v)"
  shows "chosen v < length (rows v) \<and> shown_zoom v \<in> set (row_keys v)"
  using assms by (auto simp: zoom_tree_def zview_ok_def dest!: zoom_keys_ok show_zoom_ok
      split: sum.splits option.splits)

text \<open>Two functions that call each other below a third: the screen is never shown.\<close>

definition mutual_tree :: node where
  "mutual_tree =
     (let f = (\<lambda>d n s cs. Node d ''c'' (n, ''x.c'', LInt 1) s 0 cs)
      in f 0 ''main'' 0 [f 1 ''run'' 0 [f 2 ''even'' 0 [f 3 ''odd'' 0 [f 4 ''even'' 0 [f 5 ''odd'' 7 []]]]]])"

definition mkey :: "str \<Rightarrow> fkey" where "mkey n = (''c'', n, ''x.c'')"

definition mutual_graph :: zooms where
  "mutual_graph = (case zoom_graph mutual_tree of Inr (zd, _) \<Rightarrow> zd | _ \<Rightarrow> [])"

lemma mutual_links:
  "zoom_graph mutual_tree = Inr (mutual_graph, Some (mkey ''main''))"
  "only_link z_children mutual_graph (mkey ''run'') = Some (mkey ''even'')"
  "only_link z_children mutual_graph (mkey ''even'') = Some (mkey ''odd'')"
  "only_link z_children mutual_graph (mkey ''odd'') = Some (mkey ''even'')"
  by code_simp+

lemma mutual_rows:
  "map_of mutual_graph (mkey ''main'') = Some z \<Longrightarrow> z_callers z = [] \<and> z_children z = [(mkey ''run'', 7)] \<and> z_total z = 7"
proof -
  have "map_option (\<lambda>z. (z_callers z, z_children z, z_total z)) (map_of mutual_graph (mkey ''main'')) =
      Some ([], [(mkey ''run'', 7)], 7)" by code_simp
  then show "map_of mutual_graph (mkey ''main'') = Some z \<Longrightarrow> z_callers z = [] \<and> z_children z = [(mkey ''run'', 7)] \<and> z_total z = 7"
    by simp
qed

lemma child_chain_hangs:
  assumes "only_link z_children zd c = Some y" "only_link z_children zd y = Some z" "only_link z_children zd z = Some y"
    and "y \<noteq> c" "z \<noteq> c"
  shows "child_chain zd c c calls = None"
proof (rule ccontr)
  assume "child_chain zd c c calls \<noteq> None"
  then obtain r where "child_chain zd c c calls = Some r" by auto
  then obtain n where n: "0 < n" "follow zd n c = None \<or> follow zd n c = Some c" using child_chain_reaches by blast
  have "follow zd m y \<in> {Some y, Some z} \<and> follow zd m z \<in> {Some y, Some z}" for m
    by (induction m) (use assms(2,3) in auto)
  moreover obtain m where "n = Suc m" using n(1) gr0_implies_Suc by blast
  ultimately have "follow zd n c \<in> {Some y, Some z}" using assms(1) by simp
  then show False using n(2) assms(4,5) by auto
qed

text \<open>
  The zoom view of a profile with two functions that call each other below a third one hangs:
  already the first screen is never shown, whatever is pressed.
\<close>

theorem zoom_hangs: "zoom_tree mutual_tree keys = None"
proof -
  have ne: "mkey ''even'' \<noteq> mkey ''run''" "mkey ''odd'' \<noteq> mkey ''run''" by (simp_all add: mkey_def)
  have c: "child_chain mutual_graph (mkey ''run'') (mkey ''run'') [mkey ''run''] = None"
    by (rule child_chain_hangs [OF mutual_links(2-4) ne])
  have "map_of mutual_graph (mkey ''main'') \<noteq> None" by code_simp
  then obtain z where z: "map_of mutual_graph (mkey ''main'') = Some z" by auto
  have t: "\<exists>left. links_text 7 z = Inr left" using mutual_rows [OF z] by (simp add: links_text_def quotient_def)
  have "zoom_rows mutual_graph (mkey ''main'') = None"
    using t c mutual_rows [OF z] by (auto simp: zoom_rows_def z)
  then show ?thesis by (simp add: zoom_tree_def mutual_links(1) show_zoom_def)
qed

subsection \<open>The hypotheses can hold\<close>

definition single_tree :: node where
  "single_tree = Node 0 ''c'' (''main'', ''x.c'', LInt 1) 4 0 []"

definition recur_tree :: node where
  "recur_tree = Node 0 ''c'' (''a'', ''x.c'', LInt 1) 0 0 [Node 1 ''c'' (''b'', ''x.c'', LInt 1) 3 0
     [Node 2 ''c'' (''a'', ''x.c'', LInt 1) 5 0 []]]"

lemma zoom_counts_witness:
  "\<exists>zd. zoom_graph recur_tree = Inr (zd, Some (mkey ''a'')) \<and> zs zd (mkey ''a'') = 5 \<and> zt zd (mkey ''a'') = 8"
proof -
  have "samples_ok recur_tree" by (simp add: recur_tree_def)
  from zoom_counts [OF this] obtain zd where "zoom_graph recur_tree = Inr (zd, if mass recur_tree = 0 then None else Some (key recur_tree))"
    "zs zd (mkey ''a'') = own_mass (mkey ''a'') recur_tree" "zt zd (mkey ''a'') = top_mass (mkey ''a'') recur_tree" by blast
  then show ?thesis by (simp add: recur_tree_def mkey_def key_def)
qed

lemma zoom_selection_witness:
  "\<exists>v. zoom_tree single_tree ''sw q'' = Some (Inr v) \<and> chosen v < length (rows v)"
proof -
  have "case zoom_tree single_tree ''sw q'' of Some (Inr v) \<Rightarrow> True | _ \<Rightarrow> False" by code_simp
  then obtain v where v: "zoom_tree single_tree ''sw q'' = Some (Inr v)" by (auto split: option.splits sum.splits)
  from zoom_selection [OF v] v show ?thesis by blast
qed

end
