(* ===== verification/Prof_View.thy ===== *)
theory Prof_View
  imports Prof_Report Prof_Zoom
begin

text \<open>
  The tree view of \<^verbatim>\<open>show_profile.py\<close> (\<open>view_tree\<close>) and its \<open>main\<close>. A node of the tree on the
  screen is its path of child indices; the \<open>fold\<close> flags of the nodes are a function of the path.
  The bars and corners in front of a line are glyphs; the colour codes are left out.
\<close>

subsection \<open>State, lines and keys\<close>

record view =
  selected :: "nat list"
  folded :: "nat list \<Rightarrow> bool"
  auto_ignore :: bool
  show_file :: bool

fun sort_tree :: "node \<Rightarrow> node" where
  "sort_tree (Node d t f s m cs) = Node d t f s m (map sort_tree (sort_key (\<lambda>c. - total c) cs))"

definition fold_node :: "nat list \<Rightarrow> (nat list \<Rightarrow> bool) \<Rightarrow> nat list \<Rightarrow> bool" where
  "fold_node p g = (\<lambda>q. take (length p) q = p \<or> g q)"

definition unfold_node :: "nat list \<Rightarrow> (nat list \<Rightarrow> bool) \<Rightarrow> nat list \<Rightarrow> bool" where
  "unfold_node p g = (\<lambda>q. take (length p) q \<noteq> p \<and> g q)"

text \<open>The nodes on the screen, from the top.\<close>

function get_print_node :: "view \<Rightarrow> node \<Rightarrow> nat list \<Rightarrow> nat list list" where
  "get_print_node v (Node d t f s m cs) p =
     (if auto_ignore v \<and> p \<noteq> selected v \<and> length cs = 1 \<and> \<not> folded v p then [] else [p])
     @ (if folded v p then [] else concat (map (\<lambda>(i, c). get_print_node v c (p @ [i])) (zip [0..<length cs] cs)))"
  by pat_completeness auto
termination get_print_node
proof (relation "measure (\<lambda>(v, n, p). size n)")
  fix d t f s m cs p ic i and c :: node
  assume "(ic :: nat \<times> node) \<in> set (zip [0..<length cs] cs)" "(i, c) = ic"
  then have "c \<in> set cs" by (auto dest: set_zip_rightD)
  then have "size c < size (Node d t f s m cs)" by (induction cs) auto
  then show "((v, c, p @ [i]), v, Node d t f s m cs, p) \<in> measure (\<lambda>(v, n, p). size n)" for v by simp
qed simp

datatype glyph = Blank | Dot | Bar | Tee | Corner | Dash

definition last_child :: "node \<Rightarrow> nat list \<Rightarrow> bool" where
  "last_child n p \<longleftrightarrow> last p + 1 = length (kids (node_at n (butlast p)))"

definition dotted :: "glyph list \<Rightarrow> bool" where
  "dotted left \<longleftrightarrow> take 2 left = [Dot, Dot]"

text \<open>One ancestor: its bar, corner or gap in front of what is there, and whether dots may still be used.\<close>

definition up_step :: "node \<Rightarrow> nat list list \<Rightarrow> nat list \<Rightarrow> glyph list \<times> bool \<Rightarrow> glyph list \<times> bool" where
  "up_step n shown_nodes up st =
     (case st of (left, use_dot) \<Rightarrow>
        if last_child n up then
          (if up \<in> set shown_nodes \<or> \<not> use_dot
           then (if dotted left then [Blank, Blank, Corner, Dot] @ drop 2 left else [Blank, Blank] @ left, False)
           else ([Dot, Dot] @ left, use_dot))
        else (if dotted left then [Bar, Dot] @ left else [Bar, Blank] @ left, False))"

definition left_of :: "node \<Rightarrow> nat list list \<Rightarrow> nat list \<Rightarrow> glyph list" where
  "left_of n shown_nodes p =
     (if p = [] then []
      else fst (fold (up_step n shown_nodes) (map (\<lambda>k. take k p) (rev [1..<length p]))
        (if last_child n p then (if butlast p \<notin> set shown_nodes then [Dot, Dot] else [Corner, Dash]) else [Tee, Dash], True)))"

definition right_of :: "view \<Rightarrow> node \<Rightarrow> nat list \<Rightarrow> str res" where
  "right_of v n p =
     (let x = node_at n p in
      rbind (quotient (sample x) (total n)) (\<lambda>a. rbind (quotient (total x) (total n)) (\<lambda>b.
        Inr (fixed3 a @ ''/'' @ fixed3 b @ '' '' @ rjust 3 CHR '' '' (tag x) @ '' '' @
          (if show_file v then func_text (finfo x) else fst (finfo x))))))"

text \<open>\<open>p()\<close>: the lines around the selected node.\<close>

definition print_tree :: "node \<Rightarrow> view \<Rightarrow> (nat list \<times> glyph list \<times> str) list res" where
  "print_tree n v =
     (let ps = get_print_node v n [] in
      rbind (of_option ValueError (index_of (\<lambda>p. p = selected v) ps)) (\<lambda>i.
        mapR (\<lambda>p. rbind (right_of v n p) (\<lambda>r. Inr (p, left_of n ps p, r))) (drop (i - 25) (take (i + 25) ps))))"

definition shown_view :: "node \<Rightarrow> view \<Rightarrow> view res" where
  "shown_view n v = rbind (print_tree n v) (\<lambda>_. Inr v)"

fun go_right :: "node \<Rightarrow> nat list \<Rightarrow> (nat list \<Rightarrow> bool) \<Rightarrow> nat list \<times> (nat list \<Rightarrow> bool)" where
  "go_right (Node d t f s m []) p g = (p, g(p := False))"
| "go_right (Node d t f s m [c]) p g = go_right c (p @ [0]) (g(p := False))"
| "go_right (Node d t f s m (c # c' # cs)) p g = (p @ [0], g(p := False))"

function go_up :: "node \<Rightarrow> nat list \<Rightarrow> (nat list \<Rightarrow> bool) \<Rightarrow> nat list \<times> (nat list \<Rightarrow> bool)" where
  "go_up n p g =
     (if p = [] \<or> 1 < length (kids (node_at n (butlast p))) then (p, g)
      else go_up n (butlast p) (g(butlast p := True)))"
  by pat_completeness auto
termination go_up by (relation "measure (\<lambda>(_, p, _). length p)") auto

declare go_up.simps [simp del]

definition go_left :: "node \<Rightarrow> nat list \<Rightarrow> (nat list \<Rightarrow> bool) \<Rightarrow> nat list \<times> (nat list \<Rightarrow> bool)" where
  "go_left n p g =
     (let g1 = g(p := True) in if p = [] then (p, g1) else go_up n (butlast p) (g1(butlast p := True)))"

definition move_to :: "node \<Rightarrow> view \<Rightarrow> (nat \<Rightarrow> nat list list \<Rightarrow> nat option) \<Rightarrow> view res" where
  "move_to n v target =
     (let ps = get_print_node v n [] in
      rbind (of_option ValueError (index_of (\<lambda>p. p = selected v) ps)) (\<lambda>i.
        case target i ps of None \<Rightarrow> Inr v | Some j \<Rightarrow> shown_view n (v\<lparr>selected := ps ! j\<rparr>)))"

definition view_key :: "node \<Rightarrow> char \<Rightarrow> view \<Rightarrow> view res" where
  "view_key n c v =
     (if c = CHR ''d'' then
        (case go_right (node_at n (selected v)) (selected v) (folded v) of (p, g) \<Rightarrow> shown_view n (v\<lparr>selected := p, folded := g\<rparr>))
      else if c = CHR ''a'' then
        (case go_left n (selected v) (folded v) of (p, g) \<Rightarrow> shown_view n (v\<lparr>selected := p, folded := g\<rparr>))
      else if c = CHR ''s'' then move_to n v (\<lambda>i ps. if i < length ps - 1 then Some (i + 1) else None)
      else if c = CHR ''S'' then move_to n v (\<lambda>i ps. Some (if i + 10 < length ps then i + 10 else length ps - 1))
      else if c = CHR ''w'' then move_to n v (\<lambda>i ps. if 0 < i then Some (i - 1) else None)
      else if c = CHR ''W'' then move_to n v (\<lambda>i ps. Some (if 10 \<le> i then i - 10 else 0))
      else if c = CHR ''i'' then shown_view n (v\<lparr>auto_ignore := \<not> auto_ignore v\<rparr>)
      else if c = CHR ''f'' then shown_view n (v\<lparr>show_file := \<not> show_file v\<rparr>)
      else if c = CHR '' '' then
        shown_view n (v\<lparr>folded := (if folded v (selected v) then unfold_node else fold_node) (selected v) (folded v)\<rparr>)
      else Inr v)"

fun view_keys :: "node \<Rightarrow> str \<Rightarrow> view \<Rightarrow> view res" where
  "view_keys n [] v = Inr v"
| "view_keys n (c # cs) v = (if c = CHR ''q'' then Inr v else rbind (view_key n c v) (view_keys n cs))"

definition view_start :: view where
  "view_start = \<lparr>selected = [0], folded = (\<lambda>p. p \<noteq> []), auto_ignore = False, show_file = True\<rparr>"

definition view_tree :: "node \<Rightarrow> str \<Rightarrow> view res" where
  "view_tree n keys =
     (let n1 = sort_tree n in
      if kids n1 = [] then Inl IndexError else rbind (shown_view n1 view_start) (view_keys n1 keys))"

subsection \<open>The selected node is on the screen\<close>

text \<open>Every caller of the selected node is unfolded.\<close>

definition open_to :: "node \<Rightarrow> nat list \<Rightarrow> (nat list \<Rightarrow> bool) \<Rightarrow> bool" where
  "open_to n p g \<longleftrightarrow> position n p \<and> (\<forall>k < length p. \<not> g (take k p))"

definition view_ok :: "node \<Rightarrow> view \<Rightarrow> bool" where
  "view_ok n v \<longleftrightarrow> open_to n (selected v) (folded v)"

lemma printed_selected:
  "position n q \<Longrightarrow> \<forall>k < length q. \<not> folded v (p @ take k q) \<Longrightarrow> selected v = p @ q \<Longrightarrow>
   p @ q \<in> set (get_print_node v n p)"
proof (induction q arbitrary: n p)
  case Nil
  then show ?case by (cases n) simp
next
  case (Cons i q)
  obtain d t f s m cs where n: "n = Node d t f s m cs" by (cases n)
  have i: "i < length cs" "position (cs ! i) q" using Cons.prems(1) n by auto
  have "\<forall>k < length q. \<not> folded v ((p @ [i]) @ take k q)"
  proof (intro allI impI)
    fix k assume "k < length q"
    then show "\<not> folded v ((p @ [i]) @ take k q)" using Cons.prems(2) [rule_format, of "Suc k"] by simp
  qed
  then have "(p @ [i]) @ q \<in> set (get_print_node v (cs ! i) (p @ [i]))"
    by (rule Cons.IH [OF i(2)]) (simp add: Cons.prems(3))
  moreover have "(i, cs ! i) \<in> set (zip [0..<length cs] cs)" using i(1) by (force simp: set_zip)
  moreover have "\<not> folded v p" using Cons.prems(2) [rule_format, of 0] by simp
  ultimately show ?case unfolding n by (auto intro!: bexI [of _ "(i, cs ! i)"])
qed

lemma printed_open:
  "x \<in> set (get_print_node v n p) \<Longrightarrow> \<exists>q. x = p @ q \<and> position n q \<and> (\<forall>k < length q. \<not> folded v (p @ take k q))"
proof (induction v n p rule: get_print_node.induct)
  case (1 v d t f s m cs p)
  show ?case
  proof (cases "x = p")
    case False
    then have "x \<in> set (if folded v p then [] else concat (map (\<lambda>(i, c). get_print_node v c (p @ [i])) (zip [0..<length cs] cs)))"
      using "1.prems" by (simp split: if_splits)
    then obtain i c where ic: "(i, c) \<in> set (zip [0..<length cs] cs)" "x \<in> set (get_print_node v c (p @ [i]))"
      and u: "\<not> folded v p" by (auto split: if_splits)
    obtain q where q: "x = (p @ [i]) @ q" "position c q" "\<forall>k < length q. \<not> folded v ((p @ [i]) @ take k q)"
      using "1.IH" [OF u ic(1) refl ic(2)] by blast
    have c: "i < length cs" "c = cs ! i" using ic(1) by (auto simp: set_zip)
    have "\<not> folded v (p @ take k (i # q))" if "k < length (i # q)" for k
      using that u q(3) by (cases k) auto
    then show ?thesis using q(1,2) c by (intro exI [of _ "i # q"]) simp
  qed (intro exI [of _ "[]"], simp)
qed

lemma printed_ok: "x \<in> set (get_print_node v n []) \<Longrightarrow> open_to n x (folded v)"
  using printed_open [of x v n "[]"] by (auto simp: open_to_def)

lemma selected_printed: "view_ok n v \<Longrightarrow> selected v \<in> set (get_print_node v n [])"
  using printed_selected [of n "selected v" v "[]"] by (simp add: view_ok_def open_to_def)

lemma go_right_open: "open_to n p g \<Longrightarrow> go_right (node_at n p) p g = (p', g') \<Longrightarrow> open_to n p' g'"
proof (induction "node_at n p" p g rule: go_right.induct)
  case (1 d t f s m p g)
  from 1(1) [symmetric] 1(2,3) show ?case by (auto simp: open_to_def)
next
  case (2 d t f s m c p g)
  note e = 2(2) [symmetric]
  have c: "node_at n (p @ [0]) = c" "position n (p @ [0])"
    using e 2(3) by (simp_all add: node_at_append position_append open_to_def)
  have "open_to n (p @ [0]) (g(p := False))" using 2(3) c(2) by (auto simp: open_to_def less_Suc_eq)
  moreover have "go_right (node_at n (p @ [0])) (p @ [0]) (g(p := False)) = (p', g')"
    using 2(4) unfolding e c(1) by (simp only: go_right.simps)
  ultimately show ?case by (rule 2(1) [OF c(1) [symmetric]])
next
  case (3 d t f s m c c' cs p g)
  from 3(1) [symmetric] 3(2,3) show ?case by (auto simp: open_to_def position_append less_Suc_eq)
qed

lemma go_up_open: "open_to n p g \<Longrightarrow> go_up n p g = (p', g') \<Longrightarrow> open_to n p' g'"
proof (induction n p g rule: go_up.induct)
  case (1 n p g)
  show ?case
  proof (cases "p = [] \<or> 1 < length (kids (node_at n (butlast p)))")
    case False
    have "open_to n (butlast p) (g(butlast p := True))"
      using "1.prems"(1) False by (auto simp: open_to_def position_butlast take_butlast dest: arg_cong [where f = length])
    moreover have "go_up n (butlast p) (g(butlast p := True)) = (p', g')"
      using "1.prems"(2) False by (simp only: go_up.simps [of n p g] if_False)
    ultimately show ?thesis by (rule "1.IH" [OF False])
  qed (use "1.prems" in \<open>simp add: go_up.simps [of n p g]\<close>)
qed

lemma go_left_open: "open_to n p g \<Longrightarrow> go_left n p g = (p', g') \<Longrightarrow> open_to n p' g'"
proof -
  assume o: "open_to n p g" and e: "go_left n p g = (p', g')"
  show "open_to n p' g'"
  proof (cases "p = []")
    case False
    have "open_to n (butlast p) (g(p := True, butlast p := True))"
      using o False by (auto simp: open_to_def position_butlast take_butlast dest: arg_cong [where f = length])
    then show ?thesis using e False go_up_open by (simp add: go_left_def Let_def)
  qed (use o e in \<open>auto simp: go_left_def open_to_def\<close>)
qed

lemma index_of_mem: "x \<in> set xs \<Longrightarrow> \<exists>i < length xs. index_of (\<lambda>y. y = x) xs = Some i \<and> xs ! i = x"
  using index_of_None [of "\<lambda>y. y = x" xs] index_of_Some [of "\<lambda>y. y = x" xs] by (cases "index_of (\<lambda>y. y = x) xs") auto

lemma right_of_ok: "total n \<noteq> 0 \<Longrightarrow> \<exists>r. right_of v n p = Inr r"
  by (simp add: right_of_def quotient_def Let_def)

lemma mapR_ok: "\<forall>x \<in> set xs. \<exists>y. g x = Inr y \<Longrightarrow> \<exists>ys. mapR g xs = Inr ys"
  by (induction xs) fastforce+

lemma mapR_fst: "mapR (\<lambda>p. rbind (h p) (\<lambda>r. Inr (p, l p, r))) ps = Inr ls \<Longrightarrow> map fst ls = ps"
  by (induction ps arbitrary: ls) (auto simp: res_simps)

lemma print_tree_ok:
  assumes "total n \<noteq> 0" "view_ok n v"
  shows "\<exists>ls. print_tree n v = Inr ls \<and> selected v \<in> fst ` set ls \<and> length ls \<le> 50"
proof -
  let ?ps = "get_print_node v n []"
  obtain i where i: "i < length ?ps" "index_of (\<lambda>p. p = selected v) ?ps = Some i" "?ps ! i = selected v"
    using index_of_mem [OF selected_printed [OF assms(2)]] by auto
  let ?w = "drop (i - 25) (take (i + 25) ?ps)"
  have "\<exists>ls. mapR (\<lambda>p. rbind (right_of v n p) (\<lambda>r. Inr (p, left_of n ?ps p, r))) ?w = Inr ls"
  proof (rule mapR_ok, rule ballI)
    fix x
    obtain r where "right_of v n x = Inr r" using right_of_ok [OF assms(1)] by blast
    then show "\<exists>y. rbind (right_of v n x) (\<lambda>r. Inr (x, left_of n ?ps x, r)) = Inr y" by simp
  qed
  then obtain ls where ls: "mapR (\<lambda>p. rbind (right_of v n p) (\<lambda>r. Inr (p, left_of n ?ps p, r))) ?w = Inr ls" by blast
  have ls': "map fst ls = ?w" by (rule mapR_fst [OF ls])
  have a: "i - 25 + (i - (i - 25)) = i" "i - 25 \<le> length (take (i + 25) ?ps)" using i(1) by auto
  have "?w ! (i - (i - 25)) = take (i + 25) ?ps ! (i - 25 + (i - (i - 25)))" using a(2) by (rule nth_drop)
  also have "\<dots> = ?ps ! i" unfolding a(1) by (rule nth_take) simp
  finally have "?w ! (i - (i - 25)) = selected v" using i(3) by (rule trans)
  moreover have "i - (i - 25) < length ?w" using i(1) by auto
  ultimately have "selected v \<in> set ?w" by (metis nth_mem)
  then have "selected v \<in> fst ` set ls" using ls' by (metis set_map)
  moreover have "length ls \<le> 50" using arg_cong [OF ls', of length] by simp
  moreover have "print_tree n v = Inr ls" using ls i(2) by (simp add: print_tree_def Let_def)
  ultimately show ?thesis by blast
qed

lemma shown_view_ok: "total n \<noteq> 0 \<Longrightarrow> view_ok n v \<Longrightarrow> shown_view n v = Inr v"
  using print_tree_ok [of n v] by (auto simp: shown_view_def)

lemma move_to_ok:
  assumes "total n \<noteq> 0" "view_ok n v"
    and t: "\<And>i ps j. i < length ps \<Longrightarrow> target i ps = Some j \<Longrightarrow> j < length ps"
  shows "\<exists>v'. move_to n v target = Inr v' \<and> view_ok n v'"
proof -
  let ?ps = "get_print_node v n []"
  obtain i where i: "i < length ?ps" "index_of (\<lambda>p. p = selected v) ?ps = Some i"
    using index_of_mem [OF selected_printed [OF assms(2)]] by auto
  show ?thesis
  proof (cases "target i ?ps")
    case None
    then show ?thesis using i assms(2) by (simp add: move_to_def Let_def)
  next
    case (Some j)
    then have "view_ok n (v\<lparr>selected := ?ps ! j\<rparr>)"
      using printed_ok [of "?ps ! j" v n] t [OF i(1)] by (simp add: view_ok_def)
    then show ?thesis using i Some shown_view_ok [OF assms(1)] by (simp add: move_to_def Let_def)
  qed
qed

lemma fold_open: "open_to n p g \<Longrightarrow> open_to n p (fold_node p g)" "open_to n p g \<Longrightarrow> open_to n p (unfold_node p g)"
  by (auto simp: open_to_def fold_node_def unfold_node_def dest: arg_cong [where f = length])

lemma view_key_ok:
  assumes "total n \<noteq> 0" "view_ok n v"
  shows "\<exists>v'. view_key n c v = Inr v' \<and> view_ok n v'"
proof -
  have o: "open_to n (selected v) (folded v)" using assms(2) by (simp add: view_ok_def)
  obtain p1 g1 where r: "go_right (node_at n (selected v)) (selected v) (folded v) = (p1, g1)" by fastforce
  obtain p2 g2 where l: "go_left n (selected v) (folded v) = (p2, g2)" by fastforce
  have "view_ok n (v\<lparr>selected := p1, folded := g1\<rparr>)" "view_ok n (v\<lparr>selected := p2, folded := g2\<rparr>)"
    using go_right_open [OF o r] go_left_open [OF o l] by (simp_all add: view_ok_def)
  moreover have "view_ok n (v\<lparr>auto_ignore := a\<rparr>)" "view_ok n (v\<lparr>show_file := a\<rparr>)"
    "view_ok n (v\<lparr>folded := (if folded v (selected v) then unfold_node else fold_node) (selected v) (folded v)\<rparr>)" for a
    using o fold_open [OF o] by (simp_all add: view_ok_def)
  ultimately have s: "\<And>w. w \<in> {v\<lparr>selected := p1, folded := g1\<rparr>, v\<lparr>selected := p2, folded := g2\<rparr>,
      v\<lparr>auto_ignore := \<not> auto_ignore v\<rparr>, v\<lparr>show_file := \<not> show_file v\<rparr>,
      v\<lparr>folded := (if folded v (selected v) then unfold_node else fold_node) (selected v) (folded v)\<rparr>} \<Longrightarrow>
      shown_view n w = Inr w \<and> view_ok n w" using shown_view_ok [OF assms(1)] by auto
  have m: "\<exists>v'. move_to n v t = Inr v' \<and> view_ok n v'"
    if "\<And>i ps j. i < length ps \<Longrightarrow> t i ps = Some j \<Longrightarrow> j < length ps" for t :: "nat \<Rightarrow> nat list list \<Rightarrow> nat option"
    using move_to_ok [OF assms that] .
  consider "c = CHR ''d''" | "c = CHR ''a''" | "c = CHR ''s''" | "c = CHR ''S''" | "c = CHR ''w''" | "c = CHR ''W''"
    | "c = CHR ''i''" | "c = CHR ''f''" | "c = CHR '' ''"
    | "c \<notin> {CHR ''d'', CHR ''a'', CHR ''s'', CHR ''S'', CHR ''w'', CHR ''W'', CHR ''i'', CHR ''f'', CHR '' ''}" by blast
  then show ?thesis
  proof cases
    case 3 show ?thesis unfolding view_key_def 3 by (simp, rule m) (auto split: if_splits)
  next
    case 4 show ?thesis unfolding view_key_def 4 by (simp, rule m) (auto split: if_splits)
  next
    case 5 show ?thesis unfolding view_key_def 5 by (simp, rule m) (auto split: if_splits)
  next
    case 6 show ?thesis unfolding view_key_def 6 by (simp, rule m) (auto split: if_splits)
  next
    case 10 then show ?thesis using assms(2) by (simp add: view_key_def)
  qed (use s in \<open>simp_all add: view_key_def r l\<close>)
qed

lemma view_keys_ok:
  "total n \<noteq> 0 \<Longrightarrow> view_ok n v \<Longrightarrow> \<exists>v'. view_keys n keys v = Inr v' \<and> view_ok n v'"
proof (induction keys arbitrary: v)
  case (Cons c keys)
  obtain v1 where "view_key n c v = Inr v1" "view_ok n v1" using view_key_ok [OF Cons.prems] by blast
  then show ?case using Cons by auto
qed simp

lemma sort_tree_total [simp]: "total (sort_tree n) = total n"
  by (cases n) simp

lemma sort_tree_kids [simp]: "kids (sort_tree n) = [] \<longleftrightarrow> kids n = []"
proof -
  have "length (kids (sort_tree n)) = length (kids n)" by (cases n) (simp only: sort_tree.simps node.sel length_map length_sort)
  then show ?thesis by (metis length_0_conv)
qed

lemma up_step_width: "2 \<le> length left \<Longrightarrow> length (fst (up_step n ps p (left, b))) = length left + 2"
  by (auto simp: up_step_def dotted_def)

lemma up_steps_width: "2 \<le> length (fst st) \<Longrightarrow> length (fst (fold (up_step n ps) qs st)) = length (fst st) + 2 * length qs"
proof (induction qs arbitrary: st)
  case (Cons q qs)
  have "length (fst (up_step n ps q st)) = length (fst st) + 2"
    using up_step_width [of "fst st" n ps q "snd st"] Cons.prems by simp
  then show ?case using Cons.IH [of "up_step n ps q st"] Cons.prems by simp
qed simp

lemma left_width: "length (left_of n ps p) = 2 * length p"
proof (cases "p = []")
  case False
  let ?st = "(if last_child n p then if butlast p \<notin> set ps then [Dot, Dot] else [Corner, Dash] else [Tee, Dash], True)"
  have "length (fst ?st) = 2" by simp
  then have "length (left_of n ps p) = 2 + 2 * (length p - 1)"
    using False up_steps_width [of ?st n ps "map (\<lambda>k. take k p) (rev [1..<length p])"] by (simp only: left_of_def if_False) simp
  then show ?thesis using False by (cases p) simp_all
qed (simp add: left_of_def)

lemma print_widths:
  assumes "print_tree n v = Inr ls" "(p, left, r) \<in> set ls"
  shows "length left = 2 * length p"
proof -
  obtain ps where "mapR (\<lambda>p. rbind (right_of v n p) (\<lambda>r. Inr (p, left_of n (get_print_node v n []) p, r))) ps = Inr ls"
    using assms(1) by (auto simp: print_tree_def Let_def res_simps)
  from mapR_mem [OF this assms(2)] have "left = left_of n (get_print_node v n []) p" by (auto simp: res_simps)
  then show ?thesis by (simp only: left_width)
qed

text \<open>
  C20. The tree view of a profile with samples never fails, whatever keys are pressed: the selected
  node is always one of the at most 50 lines on the screen, and each line is indented by two
  glyphs for every level.
\<close>

theorem view_never_fails:
  assumes "total n \<noteq> 0" "kids n \<noteq> []"
  shows "\<exists>v ls. view_tree n keys = Inr v \<and> print_tree (sort_tree n) v = Inr ls \<and> selected v \<in> fst ` set ls \<and>
    length ls \<le> 50 \<and> (\<forall>(p, left, r) \<in> set ls. length left = 2 * length p)"
proof -
  let ?n = "sort_tree n"
  have t: "total ?n \<noteq> 0" using assms(1) by simp
  have "view_ok ?n view_start" using assms(2) by (simp add: view_ok_def open_to_def view_start_def)
  moreover from this obtain v where v: "view_keys ?n keys view_start = Inr v" "view_ok ?n v" using view_keys_ok [OF t] by blast
  ultimately have r: "view_tree n keys = Inr v" using assms(2) shown_view_ok [OF t] by (simp add: view_tree_def Let_def)
  obtain ls where ls: "print_tree ?n v = Inr ls" "selected v \<in> fst ` set ls" "length ls \<le> 50"
    using print_tree_ok [OF t v(2)] by blast
  have "\<forall>(p, left, r) \<in> set ls. length left = 2 * length p" using print_widths [OF ls(1)] by blast
  with r ls show ?thesis by blast
qed

text \<open>
  A profile without samples makes the tree view fail with \<open>IndexError\<close>: its root loses all children
  and the view selects the first one.
\<close>

theorem view_empty_profile:
  assumes "parse_call_tree e data = Inr t" "total t = 0"
  shows "view_tree t keys = Inl IndexError"
proof -
  have "min_sample 0 = 0" by (simp add: min_sample_def to_double_def trunc_def)
  then have "kids t = []" using parse_kept_big [OF assms(1)] assms(2) by (cases t) auto
  then show ?thesis by (simp add: view_tree_def Let_def)
qed

subsection \<open>The command line\<close>

datatype report =
    Usage
  | Json saved
  | Table "((int \<times> int) \<times> (str \<times> func_info)) list" int
  | ZoomView node
  | TreeView node

definition main :: "penv \<Rightarrow> (str \<Rightarrow> saved res) \<Rightarrow> (str \<Rightarrow> str res) \<Rightarrow> str list \<Rightarrow> report res" where
  "main e load_json read_file argv =
     (if length argv < 2 then Inr Usage
      else rbind (nth_res (filter (\<lambda>a. \<not> starts_with ''--'' a) argv) 1) (\<lambda>path.
           rbind (if ''--read_json'' \<in> set argv then rbind (load_json path) (\<lambda>d. Inr (read_json d))
                  else rbind (read_file path) (parse_call_tree e)) (\<lambda>n.
             Inr (if ''--json'' \<in> set argv then Json (to_dict n)
                  else if ''--text'' \<in> set argv
                  then Table (sort_key (\<lambda>(v, k). fst v) (map (\<lambda>(k, v). (v, k)) (to_func_dict n [] []))) (total n)
                  else if ''--zoom'' \<in> set argv then ZoomView n else TreeView n))))"

subsection \<open>The hypotheses can hold\<close>

lemma view_never_fails_witness:
  "\<exists>v ls. view_tree recursive_tree ''d a'' = Inr v \<and> print_tree (sort_tree recursive_tree) v = Inr ls \<and> selected v \<in> fst ` set ls"
proof -
  have "total recursive_tree \<noteq> 0" "kids recursive_tree \<noteq> []" by (simp_all add: recursive_tree_def)
  from view_never_fails [OF this, of "''d a''"] show ?thesis by blast
qed

definition empty_profile :: str where
  "empty_profile = SAMPLE_BEGIN @ NL @ ''c,0,0,0''"

lemma empty_rows: "profile_rows sample_penv empty_profile = Inr [(''c'', 0, (''root'', ''root'', LStr ''0''), 0)]"
  by code_simp

lemma view_empty_profile_witness: "\<exists>t. parse_call_tree sample_penv empty_profile = Inr t \<and> view_tree t [] = Inl IndexError"
proof -
  obtain t where t: "parse_call_tree sample_penv empty_profile = Inr t"
    using parse_returns [OF empty_rows] by (auto simp: row_deep_def)
  obtain rows n p where r: "profile_rows sample_penv empty_profile = Inr rows" "foldR add_row (fake_root, []) rows = Inr (n, p)"
    "t = (let r = refresh_total_sample (hide_lua_vm_func n) in hide_min_sample_node (total r) r)" by (rule parse_rows [OF t])
  have "mass n = 0" using add_rows [OF r(2)] r(1) by (auto simp: empty_rows fake_root row_samples_def)
  then have "total t = 0" by (simp add: r(3) Let_def vm.counted)
  from view_empty_profile [OF t this] t show ?thesis by blast
qed

end
