(* ===== verification/Trans_Scan.thy ===== *)
theory Trans_Scan
  imports Py_String
begin

text \<open>
  The scanner of \<^verbatim>\<open>tranlation.py\<close> (\<open>ScanChineseStringInLua\<close>), which finds the Chinese strings of a
  Lua file outside comments, and \<open>ReplaceLuaString\<close>, which marks them. A regular expression is a
  matcher: the length of its match at the start of a text. The scanner caches the next match of
  every token; it is proved equal to a plain lexer that looks at one position after the other.
\<close>

subsection \<open>Tokens\<close>

datatype token =
    Comment1 | Comment2 | Comment3 | Comment0 | Str1 | Str2 | Str3 | Str4 | Str5

definition tokens :: "token list" where
  "tokens = [Comment1, Comment2, Comment3, Comment0, Str1, Str2, Str3, Str4, Str5]"

text \<open>\<open>.*?\<close> up to the first closing bracket.\<close>

definition bracketed :: "str \<Rightarrow> str \<Rightarrow> str \<Rightarrow> nat option" where
  "bracketed op cl s =
     (if starts_with op s
      then map_option (\<lambda>k. length op + k + length cl) (find_sub cl (drop (length op) s)) else None)"

fun quote_body :: "char \<Rightarrow> str \<Rightarrow> nat option" where
  "quote_body q [] = None"
| "quote_body q [c] = (if c = q then Some 1 else None)"
| "quote_body q (c # d # s) =
     (if c = q then Some 1
      else if c = CHR 0x5C then map_option (\<lambda>n. n + 2) (quote_body q s)
      else map_option Suc (quote_body q (d # s)))"

definition quoted_by :: "char \<Rightarrow> str \<Rightarrow> nat option" where
  "quoted_by q s = (if starts_with [q] s then map_option Suc (quote_body q (drop 1 s)) else None)"

definition line_comment :: "str \<Rightarrow> nat option" where
  "line_comment s =
     (if starts_with ''--'' s
      then Some (2 + length (takeWhile (\<lambda>c. c \<noteq> CHR 0x0D \<and> c \<noteq> CHR 0x0A) (drop 2 s))) else None)"

fun match_token :: "token \<Rightarrow> str \<Rightarrow> nat option" where
  "match_token Comment1 = bracketed ''--[['' '']]''"
| "match_token Comment2 = bracketed ''--[=['' '']=]''"
| "match_token Comment3 = bracketed ''--[==['' '']==]''"
| "match_token Comment0 = line_comment"
| "match_token Str1 = quoted_by CHR 0x22"
| "match_token Str2 = quoted_by CHR 0x27"
| "match_token Str3 = bracketed ''[['' '']]''"
| "match_token Str4 = bracketed ''[=['' '']=]''"
| "match_token Str5 = bracketed ''[==['' '']==]''"

text \<open>The width of the quotes of a string token; 0 for a comment.\<close>

fun quote_width :: "token \<Rightarrow> nat" where
  "quote_width Str1 = 1"
| "quote_width Str2 = 1"
| "quote_width Str3 = 2"
| "quote_width Str4 = 3"
| "quote_width Str5 = 4"
| "quote_width _ = 0"

text \<open>\<open>r.search(content, i)\<close>: start and end of the first match from \<open>i\<close>.\<close>

fun find_match :: "token \<Rightarrow> str \<Rightarrow> nat \<Rightarrow> (nat \<times> nat) option" where
  "find_match t [] pos = None"
| "find_match t (c # s) pos =
     (case match_token t (c # s) of Some n \<Rightarrow> Some (pos, pos + n) | None \<Rightarrow> find_match t s (pos + 1))"

definition search_token :: "token \<Rightarrow> str \<Rightarrow> nat \<Rightarrow> (nat \<times> nat) option" where
  "search_token t content i = find_match t (drop i content) i"

subsection \<open>Chinese characters\<close>

definition byte :: "char \<Rightarrow> int" where "byte c = of_char c"

definition cont_byte :: "char \<Rightarrow> bool" where
  "cont_byte c \<longleftrightarrow> 0x80 \<le> byte c \<and> byte c < 0xC0"

text \<open>\<open>s.decode('utf8')\<close>, as code points; an invalid sequence raises \<open>UnicodeDecodeError\<close>.\<close>

fun utf8_decode :: "str \<Rightarrow> int list res" where
  "utf8_decode [] = Inr []"
| "utf8_decode (a # s) =
     (if byte a < 0x80 then rbind (utf8_decode s) (\<lambda>r. Inr (byte a # r))
      else case s of
        [] \<Rightarrow> Inl ValueError
      | b # s1 \<Rightarrow>
        if \<not> cont_byte b then Inl ValueError
        else if 0xC2 \<le> byte a \<and> byte a < 0xE0
        then rbind (utf8_decode s1) (\<lambda>r. Inr (((byte a - 0xC0) * 64 + (byte b - 0x80)) # r))
        else case s1 of
          [] \<Rightarrow> Inl ValueError
        | c # s2 \<Rightarrow>
          if \<not> cont_byte c then Inl ValueError
          else if 0xE0 \<le> byte a \<and> byte a < 0xF0 \<and> (byte a = 0xE0 \<longrightarrow> 0xA0 \<le> byte b)
          then rbind (utf8_decode s2) (\<lambda>r. Inr (((byte a - 0xE0) * 4096 + (byte b - 0x80) * 64 + (byte c - 0x80)) # r))
          else case s2 of
            [] \<Rightarrow> Inl ValueError
          | d # s3 \<Rightarrow>
            if cont_byte d \<and> 0xF0 \<le> byte a \<and> byte a \<le> 0xF4 \<and> (byte a = 0xF0 \<longrightarrow> 0x90 \<le> byte b)
              \<and> (byte a = 0xF4 \<longrightarrow> byte b < 0x90)
            then rbind (utf8_decode s3) (\<lambda>r. Inr (((byte a - 0xF0) * 262144 + (byte b - 0x80) * 4096
                + (byte c - 0x80) * 64 + (byte d - 0x80)) # r))
            else Inl ValueError)"

definition HasChinese :: "str \<Rightarrow> bool res" where
  "HasChinese s = rbind (utf8_decode s) (\<lambda>cs. Inr (\<exists>c \<in> set cs. 0x4E00 \<le> c \<and> c \<le> 0x9FA5))"

subsection \<open>The scanner\<close>

record found =
  f_token :: token
  f_text :: str
  f_pure :: str
  f_start :: nat

text \<open>The token with the least start, the first one of those with the same start.\<close>

fun pick :: "nat \<Rightarrow> (token \<times> nat \<times> nat) option \<Rightarrow> (token \<times> (nat \<times> nat) option) list \<Rightarrow> (token \<times> nat \<times> nat) option" where
  "pick mi best [] = best"
| "pick mi best ((t, None) # xs) = pick mi best xs"
| "pick mi best ((t, Some (st, en)) # xs) =
     (if st < mi then pick st (Some (t, st, en)) xs else pick mi best xs)"

definition refresh :: "str \<Rightarrow> nat \<Rightarrow> (token \<times> (nat \<times> nat) option) list \<Rightarrow> (token \<times> (nat \<times> nat) option) list" where
  "refresh content i ms = map (\<lambda>(t, m).
     case m of None \<Rightarrow> (t, None)
     | Some (st, en) \<Rightarrow> (t, if st < i then search_token t content i else m)) ms"

text \<open>A string that contains Chinese is a result.\<close>

definition add_found :: "str \<Rightarrow> token \<times> nat \<times> nat \<Rightarrow> found list \<Rightarrow> found list res" where
  "add_found content ev result =
     (case ev of (t, st, en) \<Rightarrow>
        let s = take (en - st) (drop st content); w = quote_width t in
        if w = 0 then Inr result
        else rbind (HasChinese s) (\<lambda>b. Inr (if b then result @ [\<lparr>f_token = t, f_text = s,
               f_pure = take (length s - 2 * w) (drop w s), f_start = st\<rparr>] else result)))"

text \<open>The loop; every round moves on, so one round per character is enough fuel.\<close>

fun scan_loop :: "nat \<Rightarrow> str \<Rightarrow> (token \<times> (nat \<times> nat) option) list \<Rightarrow> nat \<Rightarrow> found list \<Rightarrow> found list res option" where
  "scan_loop 0 content ms i result = None"
| "scan_loop (Suc n) content ms i result =
     (let ms' = refresh content i ms in
      case pick (length content) None ms' of
        None \<Rightarrow> Some (Inr result)
      | Some (t, st, en) \<Rightarrow>
          (case add_found content (t, st, en) result of
             Inl x \<Rightarrow> Some (Inl x)
           | Inr r \<Rightarrow> scan_loop n content ms' en r))"

definition ScanChineseStringInLua :: "str \<Rightarrow> found list res option" where
  "ScanChineseStringInLua content =
     scan_loop (Suc (length content)) content (map (\<lambda>t. (t, search_token t content 0)) tokens) 0 []"

subsection \<open>The plain lexer\<close>

fun first_token :: "token list \<Rightarrow> str \<Rightarrow> (token \<times> nat) option" where
  "first_token [] s = None"
| "first_token (t # ts) s = (case match_token t s of Some n \<Rightarrow> Some (t, n) | None \<Rightarrow> first_token ts s)"

lemma quote_body_pos: "quote_body q s = Some n \<Longrightarrow> 0 < n"
  by (induction q s arbitrary: n rule: quote_body.induct) (auto split: if_splits)

lemma match_pos: "match_token t s = Some n \<Longrightarrow> 0 < n \<and> s \<noteq> []"
  by (cases t) (auto simp: bracketed_def quoted_by_def line_comment_def starts_with_def split: if_splits)

lemma first_token_Some: "first_token ts s = Some (t, n) \<Longrightarrow> match_token t s = Some n"
  by (induction ts) (auto split: option.splits)

function lex :: "str \<Rightarrow> nat \<Rightarrow> (token \<times> nat \<times> nat) list" where
  "lex s pos =
     (case first_token tokens s of
        Some (t, n) \<Rightarrow> (t, pos, pos + n) # lex (drop n s) (pos + n)
      | None \<Rightarrow> if s = [] then [] else lex (tl s) (pos + 1))"
  by pat_completeness auto
termination lex
proof (relation "measure (\<lambda>(s, pos). length s)")
  fix s pos tn t n assume "first_token tokens s = Some tn" "(t, n) = tn"
  then have "0 < n \<and> s \<noteq> []" using first_token_Some match_pos by blast
  then show "((drop n s, pos + n), s, pos) \<in> measure (\<lambda>(s, pos). length s)" by simp
qed simp_all

declare lex.simps [simp del]

text \<open>The Chinese strings of the plain lexer.\<close>

definition chinese_strings :: "str \<Rightarrow> found list res" where
  "chinese_strings content = foldR (\<lambda>r ev. add_found content ev r) [] (lex content 0)"

subsection \<open>The cached scanner is the plain lexer\<close>

lemma search_step:
  "search_token t content i =
     (if i < length content
      then (case match_token t (drop i content) of Some n \<Rightarrow> Some (i, i + n) | None \<Rightarrow> search_token t content (i + 1))
      else None)"
proof (cases "i < length content")
  case True
  then have "drop i content = content ! i # drop (Suc i) content" by (rule Cons_nth_drop_Suc [symmetric])
  then show ?thesis using True by (simp add: search_token_def split: option.splits)
qed (simp add: search_token_def)

lemma search_bounds: "search_token t content i = Some (st, en) \<Longrightarrow> i \<le> st \<and> st < en \<and> st < length content"
proof (induction "length content - i" arbitrary: i)
  case (Suc k)
  show ?case
  proof (cases "match_token t (drop i content)")
    case None
    then have "search_token t content (i + 1) = Some (st, en)" using Suc.prems search_step [of t content i] by (simp split: if_splits)
    then have "i + 1 \<le> st \<and> st < en \<and> st < length content"
      by (intro Suc.hyps(1)) (use Suc.hyps(2) in simp_all)
    then show ?thesis by simp
  qed (use Suc.prems search_step [of t content i] match_pos in \<open>auto split: if_splits\<close>)
qed (use search_step [of t content] in auto)

lemma search_later:
  assumes "i \<le> j"
  shows "(search_token t content i = None \<longrightarrow> search_token t content j = None) \<and>
    (\<forall>st en. search_token t content i = Some (st, en) \<longrightarrow> j \<le> st \<longrightarrow> search_token t content j = Some (st, en))"
  using assms
proof (induction "j - i" arbitrary: i)
  case (Suc k)
  have ih: "(search_token t content (i + 1) = None \<longrightarrow> search_token t content j = None) \<and>
    (\<forall>st en. search_token t content (i + 1) = Some (st, en) \<longrightarrow> j \<le> st \<longrightarrow> search_token t content j = Some (st, en))"
    using Suc.hyps(1) [of "i + 1"] Suc.hyps(2) Suc.prems by simp
  have j: "i < j" using Suc.hyps(2) by simp
  show ?case
  proof (cases "i < length content \<and> match_token t (drop i content) \<noteq> None")
    case True
    then show ?thesis using search_step [of t content i] j by auto
  next
    case False
    then have "search_token t content i = search_token t content (i + 1)"
      using search_step [of t content i] search_step [of t content "i + 1"] by (cases "i < length content") auto
    then show ?thesis using ih by simp
  qed
qed simp

text \<open>A cache is right at \<open>i\<close> when every entry that will not be searched again is.\<close>

definition cache_ok :: "str \<Rightarrow> nat \<Rightarrow> (token \<times> (nat \<times> nat) option) list \<Rightarrow> bool" where
  "cache_ok content i ms \<longleftrightarrow> map fst ms = tokens \<and> (\<forall>(t, m) \<in> set ms.
     (m = None \<longrightarrow> search_token t content i = None) \<and>
     (\<forall>st en. m = Some (st, en) \<longrightarrow> i \<le> st \<longrightarrow> search_token t content i = m))"

abbreviation exact :: "str \<Rightarrow> nat \<Rightarrow> (token \<times> (nat \<times> nat) option) list" where
  "exact content i \<equiv> map (\<lambda>t. (t, search_token t content i)) tokens"

lemma refresh_exact: "cache_ok content i ms \<Longrightarrow> refresh content i ms = exact content i"
proof -
  assume ok: "cache_ok content i ms"
  have "refresh content i ms = map (\<lambda>p. (fst p, search_token (fst p) content i)) ms"
    unfolding refresh_def using ok
    by (intro map_cong refl) (fastforce simp: cache_ok_def split: option.splits)
  also have "\<dots> = map (\<lambda>t. (t, search_token t content i)) (map fst ms)" by simp
  finally show ?thesis using ok unfolding cache_ok_def by metis
qed

lemma exact_cache_ok: "i \<le> j \<Longrightarrow> cache_ok content j (exact content i)"
  using search_later [of i j] by (auto simp: cache_ok_def o_def)

lemma pick_hit:
  assumes "\<forall>(t, m) \<in> set xs. \<forall>st en. m = Some (st, en) \<longrightarrow> i < st"
    and "\<forall>(t, m) \<in> set ys. \<forall>st en. m = Some (st, en) \<longrightarrow> i \<le> st" and "i < mi"
  shows "pick mi best (xs @ (t, Some (i, en)) # ys) = Some (t, i, en)"
  using assms
proof (induction mi best xs rule: pick.induct)
  case (1 mi best)
  have "pick i (Some (t, i, en)) ys = Some (t, i, en)"
    using "1.prems"(2) by (induction i "Some (t, i, en)" ys rule: pick.induct) auto
  then show ?case using "1.prems"(3) by simp
qed auto

lemma first_token_split:
  "first_token ts s = Some (t, n) \<Longrightarrow> \<exists>xs ys. ts = xs @ t # ys \<and> match_token t s = Some n \<and> (\<forall>x \<in> set xs. match_token x s = None)"
proof (induction ts)
  case (Cons x ts)
  show ?case
  proof (cases "match_token x s")
    case None
    then obtain xs ys where "ts = xs @ t # ys" "match_token t s = Some n" "\<forall>x \<in> set xs. match_token x s = None"
      using Cons by auto
    then show ?thesis using None by (intro exI [of _ "x # xs"] exI [of _ ys]) auto
  next
    case (Some k)
    then have "x = t" "k = n" using Cons.prems by auto
    then show ?thesis using Some by (intro exI [of _ "[]"] exI [of _ ts]) simp
  qed
qed simp

lemma first_token_None: "first_token ts s = None \<longleftrightarrow> (\<forall>t \<in> set ts. match_token t s = None)"
  by (induction ts) (auto split: option.splits)

lemma pick_none: "\<forall>(t, m) \<in> set xs. m = None \<Longrightarrow> pick mi best xs = best"
  by (induction mi best xs rule: pick.induct) auto

lemma lex_next:
  "lex (drop i content) i =
     (case pick (length content) None (exact content i) of
        None \<Rightarrow> [] | Some (t, st, en) \<Rightarrow> (t, st, en) # lex (drop en content) en)"
proof (induction "length content - i" arbitrary: i)
  case 0
  then have "search_token t content i = None" for t using search_step [of t content i] by simp
  then have "pick (length content) None (exact content i) = None" by (intro pick_none) auto
  moreover have "match_token t [] = None" for t using match_pos [of t "[]"] by (cases "match_token t []") auto
  then have "first_token tokens [] = None" by (simp add: first_token_None)
  ultimately show ?case using 0 by (simp add: lex.simps [of "[]"])
next
  case (Suc k)
  then have i: "i < length content" by simp
  show ?case
  proof (cases "first_token tokens (drop i content)")
    case (Some tn)
    then obtain t n where tn: "first_token tokens (drop i content) = Some (t, n)" by (cases tn) auto
    obtain xs ys where s: "tokens = xs @ t # ys" "match_token t (drop i content) = Some n"
      "\<forall>x \<in> set xs. match_token x (drop i content) = None" using first_token_split [OF tn] by blast
    have "search_token t content i = Some (i, i + n)" using search_step [of t content i] s(2) i by simp
    moreover have "\<forall>(t, m) \<in> set (map (\<lambda>t. (t, search_token t content i)) xs). \<forall>st en. m = Some (st, en) \<longrightarrow> i < st"
    proof (clarsimp)
      fix x st en assume "x \<in> set xs" "search_token x content i = Some (st, en)"
      then have "search_token x content (i + 1) = Some (st, en)" using search_step [of x content i] s(3) i by simp
      then show "i < st" using search_bounds by fastforce
    qed
    moreover have "\<forall>(t, m) \<in> set (map (\<lambda>t. (t, search_token t content i)) ys). \<forall>st en. m = Some (st, en) \<longrightarrow> i \<le> st"
      using search_bounds by auto
    ultimately have "pick (length content) None (exact content i) = Some (t, i, i + n)"
      using pick_hit [of "map (\<lambda>t. (t, search_token t content i)) xs" i _ "length content" None t "i + n"] i
      by (simp add: s(1))
    then show ?thesis using tn by (simp add: lex.simps [of "drop i content"] add.commute)
  next
    case None
    then have "search_token t content i = search_token t content (i + 1)" if "t \<in> set tokens" for t
      using search_step [of t content i] i that by (simp add: first_token_None)
    then have e: "exact content i = exact content (i + 1)" by simp
    have "lex (drop i content) i = lex (drop (i + 1) content) (i + 1)"
      using None i by (simp add: lex.simps [of "drop i content"] tl_drop drop_Suc)
    then show ?thesis using Suc.hyps(1) [of "i + 1"] Suc.hyps(2) unfolding e by simp
  qed
qed

lemma pick_mem: "pick mi best xs = Some (t, st, en) \<Longrightarrow> best = Some (t, st, en) \<or> (t, Some (st, en)) \<in> set xs"
  by (induction mi best xs rule: pick.induct) (auto split: if_splits)

lemma scan_loop_lex:
  "cache_ok content i ms \<Longrightarrow> length content - i < n \<Longrightarrow>
   scan_loop n content ms i result = Some (foldR (\<lambda>r ev. add_found content ev r) result (lex (drop i content) i))"
proof (induction n arbitrary: ms i result)
  case (Suc n)
  show ?case
  proof (cases "pick (length content) None (exact content i)")
    case None
    then show ?thesis using Suc.prems(1) lex_next [of i content] by (simp add: refresh_exact)
  next
    case (Some ev)
    then obtain t st en where ev: "pick (length content) None (exact content i) = Some (t, st, en)" by (cases ev) auto
    then have "search_token t content i = Some (st, en)" using pick_mem by fastforce
    then have b: "i \<le> st" "st < en" "st < length content" using search_bounds by blast+
    have l: "lex (drop i content) i = (t, st, en) # lex (drop en content) en" using lex_next [of i content] ev by simp
    show ?thesis
    proof (cases "add_found content (t, st, en) result")
      case (Inr r)
      have "cache_ok content en (exact content i)" using b by (intro exact_cache_ok) simp
      then have "scan_loop n content (exact content i) en r =
          Some (foldR (\<lambda>r ev. add_found content ev r) r (lex (drop en content) en))"
        using Suc.IH [of en "exact content i" r] Suc.prems(2) b by simp
      then show ?thesis using Inr ev l Suc.prems(1) by (simp add: refresh_exact)
    qed (use ev l Suc.prems(1) in \<open>simp add: refresh_exact\<close>)
  qed
qed simp

lemma scan_exact: "ScanChineseStringInLua content = Some (chinese_strings content)"
  using scan_loop_lex [OF exact_cache_ok [of 0 0 content], of "Suc (length content)" "[]"]
  by (simp add: ScanChineseStringInLua_def chinese_strings_def)

text \<open>
  C21. The scanner, with its cached matches, always ends and finds exactly the Chinese strings that a
  plain left-to-right lexer finds, in the same order, and fails only where that lexer meets a string
  that is not UTF-8.
\<close>

theorem scan_is_lexer: "ScanChineseStringInLua content = Some (chinese_strings content)"
  by (rule scan_exact)

subsection \<open>Marking the strings of a file\<close>

definition LANGLUA :: str where "LANGLUA = ''langlua[''"

text \<open>\<open>content[start - 8:start]\<close>: a negative start counts from the end.\<close>

definition before :: "str \<Rightarrow> nat \<Rightarrow> str" where
  "before content st =
     (let lo = (if 8 \<le> st then st - 8 else length content + st - 8) in drop lo (take st content))"

definition marked :: "str \<Rightarrow> found \<Rightarrow> bool" where
  "marked content r \<longleftrightarrow> before content (f_start r) = LANGLUA"

fun replace_from :: "str \<Rightarrow> nat \<Rightarrow> found list \<Rightarrow> str" where
  "replace_from content last_end [] = drop last_end content"
| "replace_from content last_end (r # rs) =
     (if marked content r then replace_from content last_end rs
      else drop last_end (take (f_start r) content) @ LANGLUA @ f_text r @ '']''
        @ replace_from content (f_start r + length (f_text r)) rs)"

definition ReplaceLuaString :: "str \<Rightarrow> str res option" where
  "ReplaceLuaString content =
     map_option (\<lambda>r. rbind r (\<lambda>rs. Inr (replace_from content 0 rs))) (ScanChineseStringInLua content)"

text \<open>The marked strings of the Lua files that exist; \<open>lines\<close> goes on from file to file.\<close>

record lua_path =
  csv_path :: str
  lua_file :: str
  path_mark :: str

definition lua_path_dict :: "lua_path list" where
  "lua_path_dict =
    [\<lparr>csv_path = ''lua_string_client.csv'', lua_file = ''../../../../client/LuaScript/UI/UIConst.lua'', path_mark = utf8 [0xe5, 0xae, 0xa2, 0xe6, 0x88, 0xb7, 0xe7, 0xab, 0xaf, 0x6c, 0x75, 0x61]\<rparr>,
     \<lparr>csv_path = ''lua_string_server.csv'', lua_file = ''../../../../server/lualib/tips.lua'', path_mark = utf8 [0xe6, 0x9c, 0x8d, 0xe5, 0x8a, 0xa1, 0xe7, 0xab, 0xaf, 0x6c, 0x75, 0x61]\<rparr>]"

type_synonym csvs = "str \<Rightarrow> str list list option"

definition marked_lines :: "str \<Rightarrow> found list \<Rightarrow> str list list" where
  "marked_lines content rs = map (\<lambda>r. [f_pure r]) (filter (marked content) rs)"

fun collect_files :: "(str \<Rightarrow> str option) \<Rightarrow> lua_path list \<Rightarrow> str list list \<Rightarrow> csvs \<Rightarrow> csvs res option" where
  "collect_files read_lua [] lines csv = Some (Inr csv)"
| "collect_files read_lua (p # ps) lines csv =
     (case read_lua (lua_file p) of
        None \<Rightarrow> collect_files read_lua ps lines csv
      | Some content \<Rightarrow>
          (case ScanChineseStringInLua content of
             None \<Rightarrow> None
           | Some (Inl x) \<Rightarrow> Some (Inl x)
           | Some (Inr rs) \<Rightarrow>
               let lines' = lines @ marked_lines content rs
               in collect_files read_lua ps lines' (csv(csv_path p \<mapsto> lines'))))"

definition CollectLuaTranslation :: "(str \<Rightarrow> str option) \<Rightarrow> csvs \<Rightarrow> csvs res option" where
  "CollectLuaTranslation read_lua csv = collect_files read_lua lua_path_dict [] csv"

text \<open>Results lie one after the other in the file, and each is the text at its place.\<close>

fun in_order :: "str \<Rightarrow> nat \<Rightarrow> found list \<Rightarrow> bool" where
  "in_order content lo [] \<longleftrightarrow> True"
| "in_order content lo (r # rs) \<longleftrightarrow>
     lo \<le> f_start r \<and> f_text r = take (length (f_text r)) (drop (f_start r) content) \<and>
     in_order content (f_start r + length (f_text r)) rs"

fun events_in_order :: "nat \<Rightarrow> (token \<times> nat \<times> nat) list \<Rightarrow> bool" where
  "events_in_order lo [] \<longleftrightarrow> True"
| "events_in_order lo ((t, st, en) # evs) \<longleftrightarrow> lo \<le> st \<and> st < en \<and> events_in_order en evs"

lemma events_in_order_mono: "events_in_order lo evs \<Longrightarrow> lo' \<le> lo \<Longrightarrow> events_in_order lo' evs"
  by (cases "(lo, evs)" rule: events_in_order.cases) auto

lemma lex_in_order: "events_in_order pos (lex s pos)"
proof (induction s pos rule: lex.induct)
  case (1 s pos)
  show ?case
  proof (cases "first_token tokens s")
    case None
    show ?thesis
    proof (cases "s = []")
      case False
      then have "lex s pos = lex (tl s) (pos + 1)" using None by (simp add: lex.simps [of s pos])
      moreover have "events_in_order (pos + 1) (lex (tl s) (pos + 1))" by (rule "1.IH"(1) [OF None False])
      ultimately show ?thesis using events_in_order_mono [of "pos + 1" _ pos] by simp
    qed (use None in \<open>simp add: lex.simps [of "[]" pos]\<close>)
  next
    case (Some tn)
    obtain t n where tn: "tn = (t, n)" by (cases tn)
    have "0 < n" using Some tn first_token_Some match_pos by blast
    then show ?thesis using Some tn "1.IH"(2) [OF Some tn [symmetric]] by (simp add: lex.simps [of s pos])
  qed
qed

lemma in_order_mono: "in_order content lo rs \<Longrightarrow> lo' \<le> lo \<Longrightarrow> in_order content lo' rs"
  by (cases rs) auto

lemma add_found_cases:
  "add_found content (t, st, en) r = Inr r' \<Longrightarrow>
   r' = r \<or> (\<exists>x. r' = r @ [x] \<and> f_start x = st \<and> f_text x = take (en - st) (drop st content))"
  by (auto simp: add_found_def Let_def res_simps split: if_splits)

lemma found_in_order:
  "foldR (\<lambda>r ev. add_found content ev r) r evs = Inr rs \<Longrightarrow> events_in_order lo evs \<Longrightarrow>
   \<exists>new. rs = r @ new \<and> in_order content lo new"
proof (induction lo evs arbitrary: r rule: events_in_order.induct)
  case (2 lo t st en evs)
  obtain r1 where r1: "add_found content (t, st, en) r = Inr r1" "foldR (\<lambda>r ev. add_found content ev r) r1 evs = Inr rs"
    using "2.prems"(1) by (auto simp: res_simps)
  obtain new where new: "rs = r1 @ new" "in_order content en new" using "2.IH" [OF r1(2)] "2.prems"(2) by auto
  from add_found_cases [OF r1(1)] show ?case
  proof
    assume "r1 = r"
    then show ?thesis using new in_order_mono [OF new(2), of lo] "2.prems"(2) by auto
  next
    assume "\<exists>x. r1 = r @ [x] \<and> f_start x = st \<and> f_text x = take (en - st) (drop st content)"
    then obtain x where x: "r1 = r @ [x]" "f_start x = st" "f_text x = take (en - st) (drop st content)" by blast
    have "in_order content (st + length (f_text x)) new"
      using in_order_mono [OF new(2)] x(3) "2.prems"(2) by auto
    moreover have "take (length (take k ys)) ys = take k ys" for k and ys :: str by (cases "k \<le> length ys") simp_all
    ultimately have "in_order content lo (x # new)" using x(2,3) "2.prems"(2) by (simp del: length_take)
    then show ?thesis using new(1) x(1) by (intro exI [of _ "x # new"]) simp
  qed
qed simp

lemma replace_pieces:
  "in_order content lo rs \<Longrightarrow>
   \<exists>xs z. drop lo content = concat (map (\<lambda>(a, s). a @ s) xs) @ z \<and>
     replace_from content lo rs = concat (map (\<lambda>(a, s). a @ LANGLUA @ s @ '']'') xs) @ z \<and>
     map snd xs = map f_text (filter (\<lambda>r. \<not> marked content r) rs)"
proof (induction rs arbitrary: lo)
  case Nil
  show ?case by (intro exI [of _ "[]"] exI [of _ "drop lo content"]) simp
next
  case (Cons r rs)
  let ?st = "f_start r" and ?s = "f_text r"
  let ?en = "?st + length ?s"
  have o: "lo \<le> ?st" "?s = take (length ?s) (drop ?st content)" "in_order content ?en rs" using Cons.prems by auto
  show ?case
  proof (cases "marked content r")
    case True
    have "in_order content lo rs" using in_order_mono [OF o(3), of lo] o(1) by simp
    then show ?thesis using Cons.IH [of lo] True by simp
  next
    case False
    obtain xs z where xs: "drop ?en content = concat (map (\<lambda>(a, s). a @ s) xs) @ z"
      "replace_from content ?en rs = concat (map (\<lambda>(a, s). a @ LANGLUA @ s @ '']'') xs) @ z"
      "map snd xs = map f_text (filter (\<lambda>r. \<not> marked content r) rs)" using Cons.IH [OF o(3)] by blast
    let ?a = "drop lo (take ?st content)"
    have "drop lo content = ?a @ drop ?st content"
      using o(1) by (metis append_take_drop_id drop_append drop_take le_add_diff_inverse2 length_drop take_add take_drop drop_drop)
    also have "drop ?st content = ?s @ drop ?en content"
      using o(2) by (metis append_take_drop_id drop_drop add.commute)
    finally have "drop lo content = ?a @ ?s @ concat (map (\<lambda>(a, s). a @ s) xs) @ z" by (simp add: xs(1))
    then show ?thesis using False xs(2,3) by (intro exI [of _ "(?a, ?s) # xs"] exI [of _ z]) simp
  qed
qed

text \<open>
  C22. Marking a Lua file inserts \<open>langlua[\<close> and a closing bracket around exactly the Chinese strings
  that are not marked yet, in order, and changes nothing else.
\<close>

theorem replace_marks:
  assumes "ReplaceLuaString content = Some (Inr new)"
  shows "\<exists>rs xs z. chinese_strings content = Inr rs \<and> content = concat (map (\<lambda>(a, s). a @ s) xs) @ z \<and>
    new = concat (map (\<lambda>(a, s). a @ LANGLUA @ s @ '']'') xs) @ z \<and>
    map snd xs = map f_text (filter (\<lambda>r. \<not> marked content r) rs)"
proof -
  obtain rs where rs: "chinese_strings content = Inr rs" "new = replace_from content 0 rs"
    using assms by (auto simp: ReplaceLuaString_def scan_exact res_simps)
  have "in_order content 0 rs" using found_in_order [of content "[]" "lex content 0" rs 0] lex_in_order [of 0 content] rs(1)
    by (simp add: chinese_strings_def)
  from replace_pieces [OF this] rs show ?thesis by auto
qed

subsection \<open>Examples\<close>

definition ZHONG :: str where "ZHONG = utf8 [0xe4, 0xb8, 0xad]"

definition in_quotes :: "str \<Rightarrow> str" where "in_quotes s = [CHR 0x22] @ s @ [CHR 0x22]"

definition lua_sample :: str where
  "lua_sample = ''x = '' @ in_quotes ZHONG @ '' -- '' @ in_quotes ZHONG @ [CHR 0x0A] @ ''langlua['' @ in_quotes ZHONG @ '']''"

lemma lua_sample_marked:
  "ReplaceLuaString lua_sample = Some (Inr (''x = langlua['' @ in_quotes ZHONG @ ''] -- '' @ in_quotes ZHONG @ [CHR 0x0A]
     @ ''langlua['' @ in_quotes ZHONG @ '']''))"
  by code_simp

lemma replace_marks_witness:
  "\<exists>rs. chinese_strings lua_sample = Inr rs \<and> map f_text (filter (\<lambda>r. \<not> marked lua_sample r) rs) \<noteq> []"
proof -
  obtain rs xs z where r: "chinese_strings lua_sample = Inr rs" "lua_sample = concat (map (\<lambda>(a, s). a @ s) xs) @ z"
    "''x = langlua['' @ in_quotes ZHONG @ ''] -- '' @ in_quotes ZHONG @ [CHR 0x0A] @ ''langlua['' @ in_quotes ZHONG @ '']'' =
      concat (map (\<lambda>(a, s). a @ LANGLUA @ s @ '']'') xs) @ z"
    "map snd xs = map f_text (filter (\<lambda>r. \<not> marked lua_sample r) rs)"
    using replace_marks [OF lua_sample_marked] by blast
  have "xs \<noteq> []"
  proof
    assume "xs = []"
    then show False using r(2,3) by (auto simp: lua_sample_def in_quotes_def)
  qed
  with r(1,4) show ?thesis by (metis Nil_is_map_conv)
qed

text \<open>
  A string in long brackets is not only marked but changed: the bracket of the mark and those of the
  string read as one opening bracket and one more character.
\<close>

lemma replace_long_bracket:
  "ReplaceLuaString (''[['' @ ZHONG @ '']]'') = Some (Inr (''langlua[[['' @ ZHONG @ '']]]'')) \<and>
   map_option (map_sum id (map f_pure)) (ScanChineseStringInLua (''langlua[[['' @ ZHONG @ '']]]'')) = Some (Inr [''['' @ ZHONG])"
  by code_simp

end
