(* ===== verification/Trans_Table.thy ===== *)
theory Trans_Table
  imports Trans_Scan Py_Float
begin

text \<open>
  The translation tables of \<^verbatim>\<open>tranlation.py\<close>: \<open>CollectLua\<close>, \<open>CollectUI\<close> and \<open>CollectExcel\<close> rebuild
  the table of their texts from what is found now and what the table held. The lines of the new
  list are shared with its dict: a dict entry is the index of the line, so that counting up
  through the dict changes the list. A CSV file is the list of its rows and a sheet the grid of its cell values.
\<close>

subsection \<open>Cells, files and sheets\<close>

datatype tcell = Empty | Num rat | Text str

type_synonym line = "tcell list"

fun cell_true :: "tcell \<Rightarrow> bool" where
  "cell_true Empty \<longleftrightarrow> False"
| "cell_true (Num q) \<longleftrightarrow> q \<noteq> 0"
| "cell_true (Text s) \<longleftrightarrow> s \<noteq> []"

definition pad_line :: "nat \<Rightarrow> line \<Rightarrow> line" where
  "pad_line w l = l @ replicate (w - length l) Empty"

definition max_column :: "line list \<Rightarrow> nat" where
  "max_column ls = foldr (\<lambda>l m. max (length l) m) ls 0"

definition ReadExcel :: "line list option \<Rightarrow> nat \<Rightarrow> line list" where
  "ReadExcel sheet begin_row =
     (case sheet of None \<Rightarrow> []
      | Some ls \<Rightarrow> filter (\<lambda>l. \<exists>c \<in> set l. cell_true c) (map (pad_line (max_column ls)) (drop (begin_row - 1) ls)))"

definition ClearSheet :: "line list \<Rightarrow> nat \<Rightarrow> line list" where
  "ClearSheet ls begin_row =
     take (begin_row - 1) ls @ map (\<lambda>l. replicate (max_column ls) Empty) (drop (begin_row - 1) ls)"

text \<open>A line is written over the cells of its row; missing rows are created.\<close>

definition put_line :: "line \<Rightarrow> line \<Rightarrow> line" where
  "put_line new old = new @ drop (length new) old"

fun put_lines :: "line list \<Rightarrow> line list \<Rightarrow> line list" where
  "put_lines [] olds = olds"
| "put_lines (n # ns) [] = n # put_lines ns []"
| "put_lines (n # ns) (old # olds) = put_line n old # put_lines ns olds"

definition WriteExcel :: "line list option \<Rightarrow> nat \<Rightarrow> line list \<Rightarrow> line list option" where
  "WriteExcel sheet begin_row lines =
     map_option (\<lambda>ls. let c = ClearSheet ls begin_row; k = begin_row - 1;
         top = take k c @ replicate (k - length c) []
       in top @ put_lines lines (drop k c)) sheet"

definition ReadCSV :: "csvs \<Rightarrow> str \<Rightarrow> str list list" where
  "ReadCSV csv path = (case csv path of None \<Rightarrow> [] | Some rows \<Rightarrow> filter (\<lambda>r. r \<noteq> [] \<and> hd r \<noteq> []) rows)"

definition CRLF :: str where "CRLF = [CHR 0x0D, CHR 0x0A]"
definition LINE_FEED :: str where "LINE_FEED = [CHR 0x0A]"

definition Escape :: "str \<Rightarrow> str" where
  "Escape s = (let t = replace_sub [CHR 0x0D] LINE_FEED (replace_sub CRLF LINE_FEED s)
     in if starts_with LINE_FEED t then drop 1 t else t)"

subsection \<open>One table\<close>

record cstate =
  c_lines :: "line list"
  c_dict :: "(tcell \<times> nat) list"
  c_id :: int

definition num :: "int \<Rightarrow> tcell" where "num i = Num (of_int i)"

definition old_dict :: "line list \<Rightarrow> (tcell \<times> line) list res" where
  "old_dict old = foldR (\<lambda>d l. rbind (nth_res l 3) (\<lambda>r. Inr (AList.update r l d))) [] old"

definition add_text ::
    "(tcell \<Rightarrow> line \<Rightarrow> line res) \<Rightarrow> (tcell \<Rightarrow> int \<Rightarrow> line \<Rightarrow> line) \<Rightarrow> (tcell \<times> line) list \<Rightarrow> tcell \<Rightarrow> str \<Rightarrow> cstate \<Rightarrow> cstate res" where
  "add_text again reuse old mark s st =
     (case map_of (c_dict st) (Text s) of
        Some k \<Rightarrow> rbind (again mark (c_lines st ! k)) (\<lambda>l. Inr (st\<lparr>c_lines := (c_lines st)[k := l]\<rparr>))
      | None \<Rightarrow>
          let l = (case map_of old (Text s) of
                Some o1 \<Rightarrow> reuse mark (c_id st) o1 | None \<Rightarrow> [mark, num (c_id st), num 1, Text s])
          in Inr \<lparr>c_lines = c_lines st @ [l], c_dict = AList.update (Text s) (length (c_lines st)) (c_dict st),
                  c_id = c_id st + 1\<rparr>)"

text \<open>The lines of texts that are not found any more keep their translation, with count 0.\<close>

definition keep_unused :: "line list \<Rightarrow> cstate \<Rightarrow> line list res" where
  "keep_unused old st =
     rbind (foldR (\<lambda>(ls, i) l. rbind (nth_res l 3) (\<lambda>r.
         if map_of (c_dict st) r \<noteq> None then Inr (ls, i)
         else Inr (ls @ [l[1 := num i, 2 := num 0]], i + 1))) (c_lines st, c_id st) old)
       (\<lambda>(ls, i). Inr ls)"

definition start_table :: "int \<Rightarrow> cstate" where
  "start_table init = \<lparr>c_lines = [], c_dict = [], c_id = init\<rparr>"

text \<open>\<open>count + 1\<close>, and the names of a mark, separated by commas.\<close>

fun inc :: "tcell \<Rightarrow> tcell res" where
  "inc (Num q) = Inr (Num (q + 1))"
| "inc _ = Inl TypeError"

definition count_up :: "line \<Rightarrow> line res" where
  "count_up l = rbind (inc (l ! 2)) (\<lambda>c. Inr (l[2 := c]))"

definition add_mark :: "tcell \<Rightarrow> line \<Rightarrow> line res" where
  "add_mark name l =
     (case l ! 0 of
        Text m \<Rightarrow>
          if name \<in> Text ` set (split_on '','' m) then Inr l
          else (case name of Text s \<Rightarrow> Inr (l[0 := Text (m @ '','' @ s)]) | _ \<Rightarrow> Inl TypeError)
      | _ \<Rightarrow> Inl AttributeError)"

definition reuse_line :: "int \<Rightarrow> line \<Rightarrow> line" where
  "reuse_line i l = l[1 := num i, 2 := num 1]"

subsection \<open>The three collectors\<close>

definition LUA_INIT_ID :: int where "LUA_INIT_ID = 100001"
definition UI_INIT_ID :: int where "UI_INIT_ID = 200001"
definition EXCEL_INIT_ID :: int where "EXCEL_INIT_ID = 300001"

definition again_lua :: "tcell \<Rightarrow> line \<Rightarrow> line res" where
  "again_lua mark l = count_up l"

definition reuse_lua :: "tcell \<Rightarrow> int \<Rightarrow> line \<Rightarrow> line" where
  "reuse_lua mark i l = reuse_line i (l[0 := mark])"

definition again_marked :: "tcell \<Rightarrow> line \<Rightarrow> line res" where
  "again_marked mark l = rbind (count_up l) (add_mark mark)"

definition reuse_marked :: "tcell \<Rightarrow> int \<Rightarrow> line \<Rightarrow> line" where
  "reuse_marked mark i l = reuse_line i l"

definition lua_items :: "csvs \<Rightarrow> (tcell \<times> str) list" where
  "lua_items csv = concat (map (\<lambda>p. map (\<lambda>r. (Text (path_mark p), Escape (hd r))) (ReadCSV csv (csv_path p))) lua_path_dict)"

definition CollectLua :: "line list option \<Rightarrow> csvs \<Rightarrow> line list option res" where
  "CollectLua sheet csv =
     (let old = ReadExcel sheet 7 in
      rbind (old_dict old) (\<lambda>d.
      rbind (foldR (\<lambda>st (mark, s). add_text again_lua reuse_lua d mark s st) (start_table LUA_INIT_ID) (lua_items csv)) (\<lambda>st.
      rbind (keep_unused old st) (\<lambda>new. Inr (WriteExcel sheet 7 new)))))"

definition ui_string_path :: str where "ui_string_path = ''ui_string.csv''"

definition ui_row :: "(tcell \<times> line) list \<Rightarrow> cstate \<Rightarrow> str list \<Rightarrow> cstate res" where
  "ui_row d st row =
     rbind (nth_res row 2) (\<lambda>x. let s = Escape x in
       rbind (HasChinese s) (\<lambda>b. if b then add_text again_marked reuse_marked d (Text (hd row)) s st else Inr st))"

definition CollectUI :: "line list option \<Rightarrow> csvs \<Rightarrow> line list option res" where
  "CollectUI sheet csv =
     (let old = ReadExcel sheet 7 in
      rbind (old_dict old) (\<lambda>d.
      rbind (foldR (ui_row d) (start_table UI_INIT_ID) (ReadCSV csv ui_string_path)) (\<lambda>st.
      rbind (keep_unused old st) (\<lambda>new. Inr (WriteExcel sheet 7 new)))))"

text \<open>A sheet read by \<open>xlrd\<close>: texts and floats; its grid is a rectangle.\<close>

record xsheet =
  x_name :: str
  x_rows :: "line list"

definition x_cell :: "xsheet \<Rightarrow> nat \<Rightarrow> nat \<Rightarrow> tcell res" where
  "x_cell sh r c = rbind (nth_res (x_rows sh) r) (\<lambda>row. nth_res row c)"

definition x_cols :: "xsheet \<Rightarrow> nat" where
  "x_cols sh = max_column (x_rows sh)"

definition float_text :: "tcell \<Rightarrow> str res" where
  "float_text c =
     (case c of Text s \<Rightarrow> Inr s | Num q \<Rightarrow> Inr (if is_integral q then int_str (trunc q) else float_str q)
      | Empty \<Rightarrow> Inl AttributeError)"

definition AppendLine :: "xsheet \<Rightarrow> nat \<Rightarrow> tcell \<Rightarrow> bool \<Rightarrow> (tcell \<times> tcell \<times> str) list res" where
  "AppendLine sh c title is_list =
     rbind (x_cell sh 3 c) (\<lambda>field.
     rbind (mapR (\<lambda>row. rbind (nth_res row c) float_text) (drop 6 (x_rows sh))) (\<lambda>cells.
       Inr (concat (map (\<lambda>s. if strip s = [] then []
         else map (\<lambda>x. (title, field, x)) (if is_list then split_on ''//'' s else [s])) cells))))"

definition sheet_lines :: "xsheet \<Rightarrow> (tcell \<times> tcell \<times> str) list res" where
  "sheet_lines sh =
     (if x_rows sh = [] \<or> starts_with ''#'' (x_name sh) then Inr []
      else rbind (x_cell sh 3 0) (\<lambda>title.
        rbind (mapR (\<lambda>c. rbind (x_cell sh 4 c) (\<lambda>ty.
            if ty = Text ''lang'' \<or> ty = Text ''lang_list'' then AppendLine sh c title (ty = Text ''lang_list'') else Inr []))
          [0..<x_cols sh]) (\<lambda>xss. Inr (concat xss))))"

definition excel_lines :: "(str \<times> xsheet list) list \<Rightarrow> (tcell \<times> tcell \<times> str) list res" where
  "excel_lines files =
     (let xls = filter (\<lambda>(f, _). \<not> starts_with ''~'' f \<and> (ends_with ''xls'' f \<or> ends_with ''xlsx'' f)) files in
      rbind (mapR sheet_lines (concat (map snd xls))) (\<lambda>xss. Inr (concat xss)))"

definition CollectExcel :: "line list option \<Rightarrow> (str \<times> xsheet list) list \<Rightarrow> line list option res" where
  "CollectExcel sheet files =
     rbind (excel_lines files) (\<lambda>ls.
      let old = ReadExcel sheet 7 in
      rbind (old_dict old) (\<lambda>d.
      rbind (foldR (\<lambda>st (title, field, s). add_text again_marked reuse_marked d title (Escape s) st)
               (start_table EXCEL_INIT_ID) ls) (\<lambda>st.
      rbind (keep_unused old st) (\<lambda>new. Inr (WriteExcel sheet 7 new)))))"

text \<open>\<open>CollectUI\<close> is switched off in the main run.\<close>

record books =
  lua_sheet :: "line list option"
  excel_sheet :: "line list option"

definition CollectAllTranslation :: "books \<Rightarrow> csvs \<Rightarrow> (str \<times> xsheet list) list \<Rightarrow> books res" where
  "CollectAllTranslation b csv files =
     rbind (CollectLua (lua_sheet b) csv) (\<lambda>l. rbind (CollectExcel (excel_sheet b) files) (\<lambda>x.
       Inr \<lparr>lua_sheet = l, excel_sheet = x\<rparr>))"

definition run_translation ::
    "(str \<Rightarrow> str option) \<Rightarrow> books \<Rightarrow> csvs \<Rightarrow> (str \<times> xsheet list) list \<Rightarrow> (csvs \<times> books) res option" where
  "run_translation read_lua b csv files =
     map_option (\<lambda>r. rbind r (\<lambda>csv'. rbind (CollectAllTranslation b csv' files) (\<lambda>b'. Inr (csv', b'))))
       (CollectLuaTranslation read_lua csv)"

subsection \<open>What a table holds\<close>

text \<open>The texts in the order they are first met.\<close>

definition firsts :: "str list \<Rightarrow> str list" where
  "firsts ts = fold (\<lambda>t a. if t \<in> set a then a else a @ [t]) ts []"

definition translation :: "line list \<Rightarrow> str \<Rightarrow> line" where
  "translation old t = (case find (\<lambda>l. l ! 3 = Text t) (rev old) of None \<Rightarrow> [] | Some l \<Rightarrow> drop 4 l)"

definition unused :: "line list \<Rightarrow> str list \<Rightarrow> line list" where
  "unused old ts = filter (\<lambda>l. l ! 3 \<notin> Text ` set ts) old"

text \<open>
  The table for the texts \<open>ts\<close> and the old table: one line for every text, with the number of times it
  was met and its translation, then the unused lines with count 0; the ids count on.
\<close>

definition table_of_texts :: "int \<Rightarrow> line list \<Rightarrow> str list \<Rightarrow> line list \<Rightarrow> bool" where
  "table_of_texts init old ts new \<longleftrightarrow>
     map (\<lambda>l. l ! 3) new = map Text (firsts ts) @ map (\<lambda>l. l ! 3) (unused old ts) \<and>
     map (\<lambda>l. l ! 1) new = map (\<lambda>k. num (init + int k)) [0..<length new] \<and>
     map (\<lambda>l. l ! 2) new = map (\<lambda>t. num (int (count_list ts t))) (firsts ts) @ map (\<lambda>l. num 0) (unused old ts) \<and>
     map (drop 4) new = map (translation old) (firsts ts) @ map (drop 4) (unused old ts)"

lemma firsts_snoc: "firsts (ts @ [t]) = (if t \<in> set (firsts ts) then firsts ts else firsts ts @ [t])"
  by (simp add: firsts_def)

lemma firsts_set: "set (firsts ts) = set ts \<and> distinct (firsts ts)"
  by (induction ts rule: rev_induct) (auto simp: firsts_snoc, simp_all add: firsts_def)

lemma map_upt_add: "map f [0..<a + b] = map f [0..<a] @ map (\<lambda>k. f (a + k)) [0..<b]"
  by (induction b) auto

locale collector =
  fixes again :: "tcell \<Rightarrow> line \<Rightarrow> line res" and reuse :: "tcell \<Rightarrow> int \<Rightarrow> line \<Rightarrow> line"
  assumes again_keeps: "4 \<le> length l \<Longrightarrow> again mark l = Inr l' \<Longrightarrow>
      length l' = length l \<and> l' ! 1 = l ! 1 \<and> inc (l ! 2) = Inr (l' ! 2) \<and> l' ! 3 = l ! 3 \<and> drop 4 l' = drop 4 l"
    and reuse_keeps: "4 \<le> length l \<Longrightarrow> length (reuse mark i l) = length l \<and> reuse mark i l ! 1 = num i \<and>
      reuse mark i l ! 2 = num 1 \<and> reuse mark i l ! 3 = l ! 3 \<and> drop 4 (reuse mark i l) = drop 4 l"
begin

definition line_ok :: "int \<Rightarrow> line list \<Rightarrow> str list \<Rightarrow> str \<Rightarrow> nat \<Rightarrow> line \<Rightarrow> bool" where
  "line_ok init old ts t k l \<longleftrightarrow> 4 \<le> length l \<and> l ! 1 = num (init + int k) \<and> l ! 2 = num (int (count_list ts t)) \<and>
     l ! 3 = Text t \<and> drop 4 l = translation old t"

definition state_ok :: "int \<Rightarrow> line list \<Rightarrow> str list \<Rightarrow> cstate \<Rightarrow> bool" where
  "state_ok init old ts st \<longleftrightarrow>
     length (c_lines st) = length (firsts ts) \<and> c_id st = init + int (length (firsts ts)) \<and>
     (\<forall>k < length (firsts ts). line_ok init old ts (firsts ts ! k) k (c_lines st ! k)) \<and>
     (\<forall>c k. map_of (c_dict st) c = Some k \<longleftrightarrow> k < length (firsts ts) \<and> c = Text (firsts ts ! k))"

lemma start_ok: "state_ok init old [] (start_table init)"
  by (simp add: state_ok_def start_table_def firsts_def)

lemma inc_num: "inc (num i) = Inr c \<Longrightarrow> c = num (i + 1)"
  by (auto simp: num_def)

lemma add_text_ok:
  assumes ok: "state_ok init old ts st" and a: "add_text again reuse d mark t st = Inr st'"
    and d: "\<And>o1. map_of d (Text t) = Some o1 \<Longrightarrow> 4 \<le> length o1 \<and> o1 ! 3 = Text t \<and> drop 4 o1 = translation old t"
    and dn: "map_of d (Text t) = None \<Longrightarrow> translation old t = []"
  shows "state_ok init old (ts @ [t]) st'"
proof (cases "t \<in> set (firsts ts)")
  case True
  then obtain k where k: "k < length (firsts ts)" "firsts ts ! k = t" by (auto simp: in_set_conv_nth)
  have m: "map_of (c_dict st) (Text t) = Some k" using ok k by (simp add: state_ok_def)
  then obtain l where l: "again mark (c_lines st ! k) = Inr l" "st' = st\<lparr>c_lines := (c_lines st)[k := l]\<rparr>"
    using a by (auto simp: add_text_def res_simps)
  have old_l: "line_ok init old ts t k (c_lines st ! k)" using ok k by (auto simp: state_ok_def)
  then have len: "4 \<le> length (c_lines st ! k)" by (simp add: line_ok_def)
  have new_l: "line_ok init old (ts @ [t]) t k l"
    using again_keeps [OF len l(1)] old_l by (auto simp: line_ok_def dest!: inc_num) (simp add: add.commute)
  have "line_ok init old (ts @ [t]) (firsts ts ! j) j ((c_lines st)[k := l] ! j)" if j: "j < length (firsts ts)" for j
  proof (cases "j = k")
    case False
    then have "firsts ts ! j \<noteq> t" using firsts_set [of ts] j k by (auto simp: nth_eq_iff_index_eq)
    then show ?thesis using ok j False by (simp add: state_ok_def line_ok_def)
  qed (use new_l k ok in \<open>simp add: state_ok_def\<close>)
  then show ?thesis using ok l(2) True by (simp add: state_ok_def firsts_snoc)
next
  case False
  let ?n = "length (firsts ts)"
  have m: "map_of (c_dict st) (Text t) = None" using ok False
    by (cases "map_of (c_dict st) (Text t)") (auto simp: state_ok_def)
  obtain l where st': "st' = \<lparr>c_lines = c_lines st @ [l], c_dict = AList.update (Text t) (length (c_lines st)) (c_dict st),
      c_id = c_id st + 1\<rparr>" and l: "l = (case map_of d (Text t) of
        Some o1 \<Rightarrow> reuse mark (c_id st) o1 | None \<Rightarrow> [mark, num (c_id st), num 1, Text t])"
    using a m by (auto simp: add_text_def Let_def)
  have c0: "count_list ts t = 0" using False firsts_set [of ts] by (simp add: count_list_0_iff)
  have id: "c_id st = init + int ?n" "length (c_lines st) = ?n" using ok by (simp_all add: state_ok_def)
  have new_l: "line_ok init old (ts @ [t]) t ?n l"
  proof (cases "map_of d (Text t)")
    case None
    then show ?thesis using l dn id c0 by (simp add: line_ok_def)
  next
    case (Some o1)
    then show ?thesis using l d [OF Some] reuse_keeps [of o1 mark "c_id st"] id c0 by (simp add: line_ok_def)
  qed
  have "line_ok init old (ts @ [t]) (firsts ts ! j) j (c_lines st ! j)" if "j < ?n" for j
  proof -
    have "firsts ts ! j \<noteq> t" using False that by auto
    then show ?thesis using ok that by (simp add: state_ok_def line_ok_def)
  qed
  moreover have "map_of (c_dict st') c = Some k \<longleftrightarrow> k < Suc ?n \<and> c = Text ((firsts ts @ [t]) ! k)" for c k
    using ok m id False by (auto simp: st' state_ok_def nth_append less_Suc_eq)
  ultimately show ?thesis using new_l id False
    by (auto simp: state_ok_def st' firsts_snoc nth_append less_Suc_eq)
qed

lemma dict_keys: "state_ok init old ts st \<Longrightarrow> map_of (c_dict st) r \<noteq> None \<longleftrightarrow> r \<in> Text ` set ts"
proof -
  assume ok: "state_ok init old ts st"
  have "map_of (c_dict st) r \<noteq> None \<longleftrightarrow> (\<exists>k < length (firsts ts). r = Text (firsts ts ! k))"
    using ok by (auto simp: state_ok_def)
  also have "\<dots> \<longleftrightarrow> r \<in> Text ` set (firsts ts)" by (auto simp: set_conv_nth)
  finally show ?thesis using firsts_set by simp
qed

lemma state_lists:
  assumes "state_ok init old ts st"
  shows "map (\<lambda>l. l ! 3) (c_lines st) = map Text (firsts ts)"
    "map (\<lambda>l. l ! 1) (c_lines st) = map (\<lambda>k. num (init + int k)) [0..<length (firsts ts)]"
    "map (\<lambda>l. l ! 2) (c_lines st) = map (\<lambda>t. num (int (count_list ts t))) (firsts ts)"
    "map (drop 4) (c_lines st) = map (translation old) (firsts ts)"
  using assms by (auto simp: state_ok_def line_ok_def intro!: nth_equalityI)

lemma finish_ok:
  assumes ok: "state_ok init old ts st" and k: "keep_unused old st = Inr new" and len: "\<forall>l \<in> set old. 4 \<le> length l"
  shows "table_of_texts init old ts new"
proof -
  let ?f = "\<lambda>(ls, i) l. rbind (nth_res l 3) (\<lambda>r. if map_of (c_dict st) r \<noteq> None then Inr (ls, i)
         else Inr (ls @ [l[1 := num i, 2 := num 0]], i + 1))"
  let ?n = "length (firsts ts)"
  have loop: "foldR ?f (ls, i) os = Inr (ls', i') \<Longrightarrow> \<forall>l \<in> set os. 4 \<le> length l \<Longrightarrow>
      \<exists>us. ls' = ls @ us \<and> length us = length (unused os ts) \<and> map (\<lambda>l. l ! 3) us = map (\<lambda>l. l ! 3) (unused os ts) \<and>
        map (\<lambda>l. l ! 1) us = map (\<lambda>k. num (i + int k)) [0..<length us] \<and> map (\<lambda>l. l ! 2) us = map (\<lambda>l. num 0) (unused os ts) \<and>
        map (drop 4) us = map (drop 4) (unused os ts)" for ls i ls' i' os
  proof (induction os arbitrary: ls i)
    case (Cons l os)
    have l4: "4 \<le> length l" using Cons.prems(2) by simp
    then have r: "nth_res l 3 = Inr (l ! 3)" by (simp add: nth_res_def)
    show ?case
    proof (cases "l ! 3 \<in> Text ` set ts")
      case True
      then have "foldR ?f (ls, i) os = Inr (ls', i')" using Cons.prems(1) r dict_keys [OF ok, of "l ! 3"] by simp
      then show ?thesis using Cons.IH Cons.prems(2) True by (simp add: unused_def)
    next
      case False
      let ?l = "l[1 := num i, 2 := num 0]"
      have "foldR ?f (ls @ [?l], i + 1) os = Inr (ls', i')" using Cons.prems(1) r dict_keys [OF ok, of "l ! 3"] False by simp
      from Cons.IH [OF this] Cons.prems(2) obtain us where us: "ls' = (ls @ [?l]) @ us" "length us = length (unused os ts)"
        "map (\<lambda>l. l ! 3) us = map (\<lambda>l. l ! 3) (unused os ts)" "map (\<lambda>l. l ! 1) us = map (\<lambda>k. num (i + 1 + int k)) [0..<length us]"
        "map (\<lambda>l. l ! 2) us = map (\<lambda>l. num 0) (unused os ts)" "map (drop 4) us = map (drop 4) (unused os ts)" by auto
      have "map (\<lambda>k. num (i + int k)) [0..<Suc (length us)] = num i # map (\<lambda>k. num (i + 1 + int k)) [0..<length us]"
      proof (rule nth_equalityI)
        fix k assume "k < length (map (\<lambda>k. num (i + int k)) [0..<Suc (length us)])"
        then show "map (\<lambda>k. num (i + int k)) [0..<Suc (length us)] ! k = (num i # map (\<lambda>k. num (i + 1 + int k)) [0..<length us]) ! k"
          by (cases k) (simp_all add: add.assoc del: upt_Suc)
      qed simp
      then show ?thesis using us False l4 by (intro exI [of _ "?l # us"]) (simp add: unused_def del: upt_Suc)
    qed
  qed (simp add: unused_def)
  obtain i' where f: "foldR ?f (c_lines st, c_id st) old = Inr (new, i')" using k by (auto simp: keep_unused_def res_simps)
  from loop [OF f len] obtain us where us: "new = c_lines st @ us" "length us = length (unused old ts)"
    "map (\<lambda>l. l ! 3) us = map (\<lambda>l. l ! 3) (unused old ts)" "map (\<lambda>l. l ! 1) us = map (\<lambda>k. num (c_id st + int k)) [0..<length us]"
    "map (\<lambda>l. l ! 2) us = map (\<lambda>l. num 0) (unused old ts)" "map (drop 4) us = map (drop 4) (unused old ts)" by blast
  have id: "c_id st = init + int ?n" "length (c_lines st) = ?n" using ok by (simp_all add: state_ok_def)
  have "map (\<lambda>k. num (init + int k)) [0..<length new] =
      map (\<lambda>k. num (init + int k)) [0..<?n] @ map (\<lambda>k. num (init + int (?n + k))) [0..<length us]"
    unfolding us(1) length_append id(2) by (rule map_upt_add)
  also have "\<dots> = map (\<lambda>l. l ! 1) new"
    unfolding us(1) map_append state_lists(2) [OF ok] us(4) id(1) by (simp add: add.assoc)
  finally have "map (\<lambda>k. num (init + int k)) [0..<length new] = map (\<lambda>l. l ! 1) new" .
  then show ?thesis using state_lists [OF ok] us by (simp add: table_of_texts_def)
qed

end

lemma old_dict_lookup:
  "old_dict old = Inr d \<Longrightarrow> (\<forall>l \<in> set old. 4 \<le> length l) \<and> map_of d c = find (\<lambda>l. l ! 3 = c) (rev old)"
proof (induction old arbitrary: d rule: rev_induct)
  case Nil
  then show ?case by (simp add: old_dict_def)
next
  case (snoc l old)
  obtain d0 where d0: "old_dict old = Inr d0" "3 < length l" "d = AList.update (l ! 3) l d0"
    using snoc.prems by (auto simp: old_dict_def foldR_append res_simps nth_res_def split: if_splits)
  then show ?case using snoc.IH [OF d0(1)] by auto
qed

lemma find_SomeD: "find P xs = Some x \<Longrightarrow> x \<in> set xs \<and> P x"
  by (auto simp: find_Some_iff)

lemma old_dict_entry:
  assumes "old_dict old = Inr d"
  shows "map_of d (Text t) = Some o1 \<Longrightarrow> 4 \<le> length o1 \<and> o1 ! 3 = Text t \<and> drop 4 o1 = translation old t"
    and "map_of d (Text t) = None \<Longrightarrow> translation old t = []"
proof -
  have m: "map_of d (Text t) = find (\<lambda>l. l ! 3 = Text t) (rev old)" "\<forall>l \<in> set old. 4 \<le> length l"
    using old_dict_lookup [OF assms] by simp_all
  show "map_of d (Text t) = Some o1 \<Longrightarrow> 4 \<le> length o1 \<and> o1 ! 3 = Text t \<and> drop 4 o1 = translation old t"
    using m find_SomeD [of "\<lambda>l. l ! 3 = Text t" "rev old" o1] by (auto simp: translation_def)
  show "map_of d (Text t) = None \<Longrightarrow> translation old t = []" using m by (simp add: translation_def)
qed

context collector
begin

lemma add_texts_ok:
  assumes d: "old_dict old = Inr d"
  shows "foldR (\<lambda>st (mark, s). add_text again reuse d mark s st) st items = Inr st' \<Longrightarrow> state_ok init old ts st \<Longrightarrow>
    state_ok init old (ts @ map snd items) st'"
proof (induction items arbitrary: st ts)
  case (Cons x items)
  obtain mark t where x: "x = (mark, t)" by (cases x)
  obtain st1 where s1: "add_text again reuse d mark t st = Inr st1"
    "foldR (\<lambda>st (mark, s). add_text again reuse d mark s st) st1 items = Inr st'" using Cons.prems(1) x by (auto simp: res_simps)
  have "state_ok init old (ts @ [t]) st1"
    by (rule add_text_ok [OF Cons.prems(2) s1(1)]) (use old_dict_entry [OF d] in blast)+
  from Cons.IH [OF s1(2) this] x show ?case by simp
qed simp

lemma collected:
  assumes "old_dict old = Inr d" "foldR (\<lambda>st (mark, s). add_text again reuse d mark s st) (start_table init) items = Inr st"
    "keep_unused old st = Inr new"
  shows "table_of_texts init old (map snd items) new"
proof -
  have "state_ok init old (map snd items) st" using add_texts_ok [OF assms(1,2) start_ok] by simp
  then show ?thesis using finish_ok assms(3) old_dict_lookup [OF assms(1)] by blast
qed

end

lemma reuse_line_ok: "4 \<le> length l \<Longrightarrow> length (reuse_line i l) = length l \<and> reuse_line i l ! 1 = num i \<and>
    reuse_line i l ! 2 = num 1 \<and> reuse_line i l ! 3 = l ! 3 \<and> drop 4 (reuse_line i l) = drop 4 l"
  by (simp add: reuse_line_def)

lemma count_up_ok: "4 \<le> length l \<Longrightarrow> count_up l = Inr l' \<Longrightarrow>
    length l' = length l \<and> l' ! 1 = l ! 1 \<and> inc (l ! 2) = Inr (l' ! 2) \<and> l' ! 3 = l ! 3 \<and> drop 4 l' = drop 4 l"
  by (auto simp: count_up_def res_simps)

lemma add_mark_ok: "4 \<le> length l \<Longrightarrow> add_mark name l = Inr l' \<Longrightarrow>
    length l' = length l \<and> l' ! 1 = l ! 1 \<and> l' ! 2 = l ! 2 \<and> l' ! 3 = l ! 3 \<and> drop 4 l' = drop 4 l"
  by (auto simp: add_mark_def split: tcell.splits if_splits)

interpretation lua_table: collector again_lua reuse_lua
  by unfold_locales (simp_all add: again_lua_def reuse_lua_def count_up_ok [simplified] reuse_line_ok [simplified])

interpretation marked_table: collector again_marked reuse_marked
proof
  fix l mark l' assume "4 \<le> length l" "again_marked mark l = Inr l'"
  then obtain l1 where "count_up l = Inr l1" "add_mark mark l1 = Inr l'" by (auto simp: again_marked_def res_simps)
  then show "length l' = length l \<and> l' ! 1 = l ! 1 \<and> inc (l ! 2) = Inr (l' ! 2) \<and> l' ! 3 = l ! 3 \<and> drop 4 l' = drop 4 l"
    using count_up_ok [OF \<open>4 \<le> length l\<close>, of l1] add_mark_ok [of l1 mark l'] \<open>4 \<le> length l\<close> by simp
qed (simp add: reuse_marked_def reuse_line_ok [simplified])

definition ui_items :: "str list list \<Rightarrow> (tcell \<times> str) list" where
  "ui_items rows = map (\<lambda>r. (Text (hd r), Escape (r ! 2))) (filter (\<lambda>r. HasChinese (Escape (r ! 2)) = Inr True) rows)"

lemma ui_rows_items:
  "foldR (ui_row d) st rows = Inr st' \<Longrightarrow> foldR (\<lambda>st (mark, s). add_text again_marked reuse_marked d mark s st) st (ui_items rows) = Inr st'"
  by (induction rows arbitrary: st) (auto simp: ui_row_def ui_items_def Let_def res_simps nth_res_def split: if_splits)

definition excel_items :: "(tcell \<times> tcell \<times> str) list \<Rightarrow> (tcell \<times> str) list" where
  "excel_items ls = map (\<lambda>(title, field, s). (title, Escape s)) ls"

lemma excel_rows_items:
  "foldR (\<lambda>st (title, field, s). add_text again_marked reuse_marked d title (Escape s) st) st ls =
   foldR (\<lambda>st (mark, s). add_text again_marked reuse_marked d mark s st) st (excel_items ls)"
  by (induction ls arbitrary: st) (auto simp: excel_items_def rbind_def split: sum.splits)

lemma CollectLua_table:
  assumes "CollectLua (Some sh) csv = Inr out"
  shows "\<exists>new. out = WriteExcel (Some sh) 7 new \<and> table_of_texts LUA_INIT_ID (ReadExcel (Some sh) 7) (map snd (lua_items csv)) new"
proof -
  obtain d st new where r: "old_dict (ReadExcel (Some sh) 7) = Inr d"
    "foldR (\<lambda>st (mark, s). add_text again_lua reuse_lua d mark s st) (start_table LUA_INIT_ID) (lua_items csv) = Inr st"
    "keep_unused (ReadExcel (Some sh) 7) st = Inr new" "out = WriteExcel (Some sh) 7 new"
    using assms by (auto simp: CollectLua_def Let_def res_simps)
  from lua_table.collected [OF r(1-3)] r(4) show ?thesis by blast
qed

lemma CollectUI_table:
  assumes "CollectUI (Some sh) csv = Inr out"
  shows "\<exists>new. out = WriteExcel (Some sh) 7 new \<and>
    table_of_texts UI_INIT_ID (ReadExcel (Some sh) 7) (map snd (ui_items (ReadCSV csv ui_string_path))) new"
proof -
  obtain d st new where r: "old_dict (ReadExcel (Some sh) 7) = Inr d"
    "foldR (ui_row d) (start_table UI_INIT_ID) (ReadCSV csv ui_string_path) = Inr st"
    "keep_unused (ReadExcel (Some sh) 7) st = Inr new" "out = WriteExcel (Some sh) 7 new"
    using assms by (auto simp: CollectUI_def Let_def res_simps)
  from marked_table.collected [OF r(1) ui_rows_items [OF r(2)] r(3)] r(4) show ?thesis by blast
qed

lemma CollectExcel_table:
  assumes "CollectExcel (Some sh) files = Inr out"
  shows "\<exists>new ls. excel_lines files = Inr ls \<and> out = WriteExcel (Some sh) 7 new \<and>
    table_of_texts EXCEL_INIT_ID (ReadExcel (Some sh) 7) (map snd (excel_items ls)) new"
proof -
  obtain ls d st new where r: "old_dict (ReadExcel (Some sh) 7) = Inr d"
    "foldR (\<lambda>st (title, field, s). add_text again_marked reuse_marked d title (Escape s) st) (start_table EXCEL_INIT_ID) ls = Inr st"
    "keep_unused (ReadExcel (Some sh) 7) st = Inr new" "out = WriteExcel (Some sh) 7 new" "excel_lines files = Inr ls"
    using assms by (auto simp: CollectExcel_def Let_def res_simps)
  from marked_table.collected [OF r(1) r(2) [unfolded excel_rows_items] r(3)] r(4,5) show ?thesis by blast
qed

text \<open>
  C23. Every collector writes the table that belongs to its texts and to the old table: one line for
  every text, in the order they are met, with the number of times it was met and the translation it had,
  then the texts that are gone with count 0 and their translation; ids count on without a gap.
\<close>

theorem collect_tables:
  "(CollectLua (Some sh) csv = Inr out \<longrightarrow>
     (\<exists>new. out = WriteExcel (Some sh) 7 new \<and> table_of_texts LUA_INIT_ID (ReadExcel (Some sh) 7) (map snd (lua_items csv)) new)) \<and>
   (CollectUI (Some sh) csv = Inr out \<longrightarrow>
     (\<exists>new. out = WriteExcel (Some sh) 7 new \<and>
       table_of_texts UI_INIT_ID (ReadExcel (Some sh) 7) (map snd (ui_items (ReadCSV csv ui_string_path))) new)) \<and>
   (CollectExcel (Some sh) files = Inr out \<longrightarrow>
     (\<exists>new ls. excel_lines files = Inr ls \<and> out = WriteExcel (Some sh) 7 new \<and>
       table_of_texts EXCEL_INIT_ID (ReadExcel (Some sh) 7) (map snd (excel_items ls)) new))"
  using CollectLua_table CollectUI_table CollectExcel_table by metis

subsection \<open>Strings of the client are counted twice\<close>

text \<open>How often a text is marked in a file.\<close>

definition marks_of :: "str \<Rightarrow> found list \<Rightarrow> str \<Rightarrow> nat" where
  "marks_of content rs t = count_list (map (\<lambda>r. Escape (f_pure r)) (filter (\<lambda>r. marked content r \<and> f_pure r \<noteq> []) rs)) t"

lemma read_marked:
  "map (\<lambda>r. Escape (hd r)) (filter (\<lambda>r. r \<noteq> [] \<and> hd r \<noteq> []) (marked_lines content rs)) =
   map (\<lambda>r. Escape (f_pure r)) (filter (\<lambda>r. marked content r \<and> f_pure r \<noteq> []) rs)"
  by (induction rs) (auto simp: marked_lines_def)

text \<open>
  The list of marked strings goes on from the client file to the server file, so the CSV of the
  server holds the strings of the client as well, and the table counts each of them twice.
\<close>

theorem client_strings_twice:
  assumes "read_lua (lua_file (lua_path_dict ! 0)) = Some c1" "read_lua (lua_file (lua_path_dict ! 1)) = Some c2"
    and "chinese_strings c1 = Inr rs1" "chinese_strings c2 = Inr rs2"
  shows "\<exists>csv'. CollectLuaTranslation read_lua csv = Some (Inr csv') \<and>
    (\<forall>t. count_list (map snd (lua_items csv')) t = 2 * marks_of c1 rs1 t + marks_of c2 rs2 t)"
proof -
  let ?l1 = "marked_lines c1 rs1" and ?l2 = "marked_lines c2 rs2"
  let ?csv = "csv(csv_path (lua_path_dict ! 0) \<mapsto> ?l1, csv_path (lua_path_dict ! 1) \<mapsto> ?l1 @ ?l2)"
  have "CollectLuaTranslation read_lua csv = Some (Inr ?csv)"
    using assms by (simp add: CollectLuaTranslation_def lua_path_dict_def scan_exact Let_def)
  moreover have "ReadCSV ?csv (csv_path (lua_path_dict ! 0)) = filter (\<lambda>r. r \<noteq> [] \<and> hd r \<noteq> []) ?l1"
    "ReadCSV ?csv (csv_path (lua_path_dict ! 1)) = filter (\<lambda>r. r \<noteq> [] \<and> hd r \<noteq> []) ?l1 @ filter (\<lambda>r. r \<noteq> [] \<and> hd r \<noteq> []) ?l2"
    by (simp_all add: ReadCSV_def lua_path_dict_def)
  moreover have "map snd (lua_items csv') = map (\<lambda>r. Escape (hd r)) (ReadCSV csv' (csv_path (lua_path_dict ! 0))) @
      map (\<lambda>r. Escape (hd r)) (ReadCSV csv' (csv_path (lua_path_dict ! 1)))" for csv'
    by (simp add: lua_items_def lua_path_dict_def o_def)
  ultimately have "map snd (lua_items ?csv) = map (\<lambda>r. Escape (f_pure r)) (filter (\<lambda>r. marked c1 r \<and> f_pure r \<noteq> []) rs1) @
      map (\<lambda>r. Escape (f_pure r)) (filter (\<lambda>r. marked c1 r \<and> f_pure r \<noteq> []) rs1) @
      map (\<lambda>r. Escape (f_pure r)) (filter (\<lambda>r. marked c2 r \<and> f_pure r \<noteq> []) rs2)"
    by (simp only: map_append read_marked append_assoc)
  then have "count_list (map snd (lua_items ?csv)) t = 2 * marks_of c1 rs1 t + marks_of c2 rs2 t" for t
    by (simp only: marks_of_def count_list_append)
  then show ?thesis using \<open>CollectLuaTranslation read_lua csv = Some (Inr ?csv)\<close> by blast
qed

subsection \<open>The hypotheses can hold\<close>

definition old_sheet :: "line list" where
  "old_sheet = replicate 6 [] @ [[Text ''m'', num 100001, num 3, Text ''a'', Text ''b''], [Text ''m'', num 100002, num 1, Text ''z'', Text ''y'']]"

definition new_csv :: csvs where
  "new_csv = (\<lambda>p. if p = ''lua_string_client.csv'' then Some [[''a''], [''c''], [''a'']] else None)"

lemma lua_run: "\<exists>out. CollectLua (Some old_sheet) new_csv = Inr out"
proof -
  have "case CollectLua (Some old_sheet) new_csv of Inl e \<Rightarrow> False | Inr out \<Rightarrow> True" by code_simp
  then show ?thesis by (auto split: sum.splits)
qed

lemma lua_texts: "map snd (lua_items new_csv) = [''a'', ''c'', ''a'']"
  by code_simp

lemma collect_tables_witness:
  "\<exists>out new. CollectLua (Some old_sheet) new_csv = Inr out \<and> out = WriteExcel (Some old_sheet) 7 new \<and>
     table_of_texts LUA_INIT_ID (ReadExcel (Some old_sheet) 7) [''a'', ''c'', ''a''] new"
proof -
  obtain out where o: "CollectLua (Some old_sheet) new_csv = Inr out" using lua_run by blast
  from collect_tables [of old_sheet new_csv out undefined] o show ?thesis by (auto simp: lua_texts)
qed

lemma client_strings_twice_witness:
  "\<exists>csv' rs. CollectLuaTranslation (\<lambda>f. Some lua_sample) (\<lambda>p. None) = Some (Inr csv') \<and> chinese_strings lua_sample = Inr rs \<and>
     count_list (map snd (lua_items csv')) ZHONG = 3 * marks_of lua_sample rs ZHONG"
proof -
  obtain rs where "chinese_strings lua_sample = Inr rs" using lua_sample_marked by (auto simp: ReplaceLuaString_def scan_exact res_simps)
  with client_strings_twice [of "\<lambda>f. Some lua_sample" lua_sample lua_sample rs rs "\<lambda>p. None"] show ?thesis by auto
qed

end
