(* ===== verification/Py_Time.thy ===== *)
theory Py_Time
  imports Py_String
begin

text \<open>
  The calendar of Python's \<open>datetime\<close>: the civil date of a day counted from 1970, and the texts of
  \<open>strftime\<close> that the tools use.
\<close>

definition leap :: "int \<Rightarrow> bool" where
  "leap y \<longleftrightarrow> y mod 4 = 0 \<and> (y mod 100 \<noteq> 0 \<or> y mod 400 = 0)"

definition month_days :: "int \<Rightarrow> int \<Rightarrow> int" where
  "month_days y m = (if m = 2 then (if leap y then 29 else 28) else if m \<in> {4, 6, 9, 11} then 30 else 31)"

definition year_days :: "int \<Rightarrow> int" where
  "year_days y = (if leap y then 366 else 365)"

function year_loop :: "int \<Rightarrow> int \<Rightarrow> int \<times> int" where
  "year_loop y n = (if n < year_days y then (y, n) else year_loop (y + 1) (n - year_days y))"
  by pat_completeness auto
termination year_loop
  by (relation "measure (\<lambda>(y, n). nat n)") (auto simp: year_days_def split: if_splits)

function month_loop :: "int \<Rightarrow> int \<Rightarrow> int \<Rightarrow> int \<times> int" where
  "month_loop y m n = (if n < month_days y m then (m, n + 1) else month_loop y (m + 1) (n - month_days y m))"
  by pat_completeness auto
termination month_loop
  by (relation "measure (\<lambda>(y, m, n). nat n)") (auto simp: month_days_def split: if_splits)

declare year_loop.simps [simp del] month_loop.simps [simp del]

text \<open>Year, month and day of the \<open>n\<close>-th day after 1970-01-01.\<close>

definition civil :: "int \<Rightarrow> int \<times> int \<times> int" where
  "civil n = (case year_loop 1970 n of (y, r) \<Rightarrow> (case month_loop y 1 r of (m, d) \<Rightarrow> (y, m, d)))"

definition pad :: "nat \<Rightarrow> int \<Rightarrow> str" where
  "pad w i = (let s = int_str i in replicate (w - length s) CHR ''0'' @ s)"

text \<open>\<open>strftime\<close> with \<open>%Y%m%d\<close> and \<open>%Y-%m-%d\<close>.\<close>

definition compact :: "int \<Rightarrow> str" where
  "compact n = (case civil n of (y, m, d) \<Rightarrow> int_str y @ pad 2 m @ pad 2 d)"

definition dashed :: "int \<Rightarrow> str" where
  "dashed n = (case civil n of (y, m, d) \<Rightarrow> int_str y @ ''-'' @ pad 2 m @ ''-'' @ pad 2 d)"

subsection \<open>Dates have the usual form\<close>

lemma year_loop_range: "0 \<le> n \<Longrightarrow> year_loop y n = (y', r) \<Longrightarrow> y \<le> y' \<and> 0 \<le> r \<and> r < year_days y'"
proof (induction y n rule: year_loop.induct)
  case (1 y n)
  then show ?case using year_loop.simps [of y n] by (cases "n < year_days y") fastforce+
qed

text \<open>The days from month \<open>m\<close> to the end of the year.\<close>

definition days_from :: "int \<Rightarrow> int \<Rightarrow> int" where
  "days_from y m = sum_list (map (month_days y) [m..12])"

lemma days_from_step: "m \<le> 12 \<Longrightarrow> days_from y m = month_days y m + days_from y (m + 1)"
  by (simp add: days_from_def upto_rec1)

lemma days_of_year: "days_from y 1 = year_days y"
  by (simp add: days_from_step month_days_def year_days_def) (simp add: days_from_def)

lemma month_loop_range:
  "0 \<le> n \<Longrightarrow> 1 \<le> m \<Longrightarrow> n < days_from y m \<Longrightarrow> month_loop y m n = (m', d) \<Longrightarrow> m \<le> m' \<and> m' \<le> 12 \<and> 1 \<le> d \<and> d \<le> month_days y m'"
proof (induction y m n rule: month_loop.induct)
  case (1 y m n)
  have m: "m \<le> 12" using "1.prems"(1,3) by (cases "m \<le> 12") (simp_all add: days_from_def)
  show ?case
  proof (cases "n < month_days y m")
    case False
    then have "m + 1 \<le> m' \<and> m' \<le> 12 \<and> 1 \<le> d \<and> d \<le> month_days y m'"
      using "1.prems" days_from_step [OF m] month_loop.simps [of y m n] by (intro "1.IH") auto
    then show ?thesis by simp
  qed (use "1.prems" m month_loop.simps [of y m n] in auto)
qed

lemma civil_range: "0 \<le> n \<Longrightarrow> civil n = (y, m, d) \<Longrightarrow> 1970 \<le> y \<and> 1 \<le> m \<and> m \<le> 12 \<and> 1 \<le> d \<and> d \<le> 31"
proof -
  assume n: "0 \<le> n" and c: "civil n = (y, m, d)"
  obtain r where r: "year_loop 1970 n = (y, r)" "month_loop y 1 r = (m, d)"
    using c by (auto simp: civil_def split: prod.splits)
  have y: "1970 \<le> y \<and> 0 \<le> r \<and> r < year_days y" using year_loop_range [OF n r(1)] .
  then have "1 \<le> m \<and> m \<le> 12 \<and> 1 \<le> d \<and> d \<le> month_days y m"
    using month_loop_range [of r 1 y m d] r(2) days_of_year by simp
  moreover have "month_days y m \<le> 31" by (simp add: month_days_def)
  ultimately show ?thesis using y by auto
qed

lemma nat_str_length:
  "n < 10 \<Longrightarrow> length (nat_str n) = 1" "10 \<le> n \<Longrightarrow> length (nat_str n) = Suc (length (nat_str (n div 10)))"
  using nat_str.simps [of n] by simp_all

definition digits :: "nat \<Rightarrow> str \<Rightarrow> bool" where
  "digits k s \<longleftrightarrow> length s = k \<and> (\<forall>c \<in> set s. is_digit c)"

lemma digits_int_str: "0 \<le> i \<Longrightarrow> digits (length (int_str i)) (int_str i)"
  using nat_str_digits [of "nat i"] by (simp add: digits_def int_str_def isdigit_def)

lemma pad_two: "0 \<le> i \<Longrightarrow> i < 100 \<Longrightarrow> digits 2 (pad 2 i)"
proof -
  assume i: "0 \<le> i" "i < 100"
  have "length (int_str i) \<le> 2"
    using i nat_str_length [of "nat i"] nat_str_length(1) [of "nat i div 10"] by (cases "i < 10") (auto simp: int_str_def)
  moreover have "is_digit CHR ''0''" by (simp add: is_digit_def)
  ultimately show ?thesis using digits_int_str [OF i(1)] by (auto simp: digits_def pad_def Let_def)
qed

lemma year_four: "1000 \<le> y \<Longrightarrow> y < 10000 \<Longrightarrow> digits 4 (int_str y)"
proof -
  assume y: "1000 \<le> y" "y < 10000"
  define k where "k = nat y"
  have k: "1000 \<le> k" "k < 10000" using y by (simp_all add: k_def)
  have d: "k div 10 div 10 = k div 100" "k div 100 div 10 = k div 1000" by (simp_all flip: div_mult2_eq)
  have "k div 1000 < 10" "10 \<le> k div 100" "10 \<le> k div 10" using k by (simp_all add: div_less_iff_less_mult div_greater_zero_iff less_eq_div_iff_mult_less_eq)
  then have "length (nat_str k) = 4"
    using nat_str_length(2) [of k] nat_str_length(2) [of "k div 10"] nat_str_length(2) [of "k div 100"] nat_str_length(1) [of "k div 1000"] k(1)
    by (simp add: d)
  then show ?thesis using digits_int_str [of y] y by (simp add: int_str_def k_def)
qed

text \<open>\<open>dddd-dd-dd\<close>\<close>

definition date_text :: "str \<Rightarrow> bool" where
  "date_text s \<longleftrightarrow> (\<exists>y m d. s = y @ ''-'' @ m @ ''-'' @ d \<and> digits 4 y \<and> digits 2 m \<and> digits 2 d)"

lemma dashed_date: "0 \<le> n \<Longrightarrow> fst (civil n) < 10000 \<Longrightarrow> date_text (dashed n)"
proof -
  assume n: "0 \<le> n" "fst (civil n) < 10000"
  obtain y m d where c: "civil n = (y, m, d)" by (metis prod_cases3)
  have "1970 \<le> y \<and> 1 \<le> m \<and> m \<le> 12 \<and> 1 \<le> d \<and> d \<le> 31" using civil_range [OF n(1) c] .
  then have "digits 4 (int_str y)" "digits 2 (pad 2 m)" "digits 2 (pad 2 d)"
    using n(2) c year_four [of y] pad_two [of m] pad_two [of d] by simp_all
  then show ?thesis using c by (auto simp: date_text_def dashed_def)
qed

end
