(* ===== verification/Server_Config.thy ===== *)
theory Server_Config
  imports Py_Time
begin

text \<open>
  The servers of an installation, \<^verbatim>\<open>config.template/all_server.py\<close>: the classes \<open>Node\<close> and
  \<open>Server_*\<close>, which turn the entries of \<^verbatim>\<open>config.yaml\<close> into nodes with their ports. A value of
  the YAML file is a \<open>yaml\<close>, a node is its attribute dict (\<open>__dict__\<close>). The time zone
  (\<open>time.mktime\<close>) is an argument. The file's \<open>server_id\<close>, \<open>min_cross_server_id\<close> and
  \<open>global_port_offst\<close> are integers and its addresses texts; anything else raises \<open>TypeError\<close> here.
\<close>

subsection \<open>Values and attributes\<close>

datatype yaml =
    YNull | YBool bool | YInt int | YStr str | YList "yaml list" | YMap "(str \<times> yaml) list"

type_synonym attrs = "(str \<times> yaml) list"

record config =
  global_config :: attrs
  db_list :: "attrs list"
  confs :: "attrs list"

fun yaml_true :: "yaml \<Rightarrow> bool" where
  "yaml_true YNull \<longleftrightarrow> False"
| "yaml_true (YBool b) \<longleftrightarrow> b"
| "yaml_true (YInt i) \<longleftrightarrow> i \<noteq> 0"
| "yaml_true (YStr s) \<longleftrightarrow> s \<noteq> []"
| "yaml_true (YList xs) \<longleftrightarrow> xs \<noteq> []"
| "yaml_true (YMap d) \<longleftrightarrow> d \<noteq> []"

fun yaml_int :: "yaml \<Rightarrow> int res" where
  "yaml_int (YInt i) = Inr i"
| "yaml_int _ = Inl TypeError"

fun yaml_text :: "yaml \<Rightarrow> str res" where
  "yaml_text (YStr s) = Inr s"
| "yaml_text _ = Inl TypeError"

text \<open>\<open>for k, v in d.items(): setattr(self, k, v)\<close>\<close>

definition setattrs :: "attrs \<Rightarrow> attrs \<Rightarrow> attrs" where
  "setattrs d n = fold (\<lambda>(k, v). AList.update k v) d n"

definition getattr :: "attrs \<Rightarrow> str \<Rightarrow> yaml res" where
  "getattr n k = of_option AttributeError (map_of n k)"

subsection \<open>Nodes\<close>

text \<open>The first data base with the name; a data base without a name or address raises \<open>KeyError\<close>.\<close>

fun find_db :: "yaml \<Rightarrow> attrs list \<Rightarrow> attrs option res" where
  "find_db name [] = Inr None"
| "find_db name (db # dbs) =
     rbind (dict_get db ''name'') (\<lambda>n. if n = name then Inr (Some db) else find_db name dbs)"

definition db_attrs :: "attrs \<Rightarrow> attrs res" where
  "db_attrs db =
     rbind (dict_get db ''host'') (\<lambda>h. rbind (dict_get db ''port'') (\<lambda>p.
     rbind (dict_get db ''user'') (\<lambda>u. rbind (dict_get db ''passwd'') (\<lambda>w.
       Inr [(''db_host'', h), (''db_port'', p), (''db_user'', u), (''db_passwd'', w)]))))"

definition make_node :: "config \<Rightarrow> attrs \<Rightarrow> attrs \<Rightarrow> attrs res" where
  "make_node c base extra =
     (let n = setattrs extra (setattrs (global_config c) base) in
      case map_of extra ''db'' of
        None \<Rightarrow> Inr n
      | Some name \<Rightarrow>
          if \<not> yaml_true name then Inr n
          else rbind (find_db name (db_list c)) (\<lambda>r. case r of
            None \<Rightarrow> Inr n | Some db \<Rightarrow> rbind (db_attrs db) (\<lambda>d. Inr (setattrs d n))))"

record server_obj =
  s_type :: str
  s_id :: int
  s_name :: yaml
  node_list :: "attrs list"

definition empty_server :: "str \<Rightarrow> int \<Rightarrow> yaml \<Rightarrow> server_obj" where
  "empty_server t i n = \<lparr>s_type = t, s_id = i, s_name = n, node_list = []\<rparr>"

definition node_id :: "int \<Rightarrow> str \<Rightarrow> str" where
  "node_id i t = ''s'' @ int_str i @ ''_'' @ t"

text \<open>
  \<open>add_node\<close>: \<open>args\<close> are the keyword arguments of the call and \<open>kw\<close> the rest of the entry;
  a keyword given twice, or one that is also a positional argument, raises \<open>TypeError\<close>.
\<close>

definition positional :: "str list" where
  "positional = [''self'', ''ip'', ''node_name'', ''template_name'', ''cluster_port'', ''debug_port'']"

definition add_node :: "config \<Rightarrow> yaml \<Rightarrow> str \<Rightarrow> int \<Rightarrow> attrs \<Rightarrow> attrs \<Rightarrow> server_obj \<Rightarrow> server_obj res" where
  "add_node c ip t port args kw sv =
     (if \<exists>k \<in> set (map fst kw). k \<in> set (positional @ map fst args) then Inl TypeError
      else rbind (make_node c
          [(''name'', s_name sv), (''ip'', ip), (''node_name'', YStr (node_id (s_id sv) t)),
           (''template_name'', YStr (t @ ''.lua'')), (''server_id'', YInt (s_id sv)),
           (''server_type'', YStr (s_type sv)), (''cluster_port'', YInt port), (''debug_port'', YInt (port + 1))]
          (args @ kw)) (\<lambda>n. Inr (sv\<lparr>node_list := node_list sv @ [n]\<rparr>)))"

subsection \<open>The time a server opens\<close>

text \<open>
  A field of \<open>strptime\<close>: one or two digits in a range; a day may be a blank and a digit.
\<close>

definition time_field :: "int \<Rightarrow> int \<Rightarrow> str \<Rightarrow> int res" where
  "time_field lo hi s =
     (if isdigit s \<and> length s \<le> 2 \<and> lo \<le> int (digits_val s) \<and> int (digits_val s) \<le> hi
      then Inr (int (digits_val s)) else Inl ValueError)"

text \<open>\<open>datetime.strptime(s, "%Y-%m-%d %H:%M:%S")\<close>; the blank stands for any white space.\<close>

definition strptime :: "str \<Rightarrow> int list res" where
  "strptime s =
     (case split_on ''-'' s of
        [y, m, rest] \<Rightarrow>
          (let day = (if starts_with '' '' rest then takeWhile (\<lambda>c. \<not> is_ws c) (drop 1 rest) else takeWhile (\<lambda>c. \<not> is_ws c) rest);
               after = drop (length day + (if starts_with '' '' rest then 1 else 0)) rest;
               clock = dropWhile is_ws after
           in case split_on '':'' clock of
                [hh, mm, ss] \<Rightarrow>
                  if \<not> (isdigit y \<and> length y = 4 \<and> digits_val y \<noteq> 0) \<or> clock = after
                    \<or> starts_with '' '' rest \<and> length day \<noteq> 1 then Inl ValueError
                  else rbind (time_field 1 12 m) (\<lambda>mo.
                    rbind (time_field 1 (month_days (int (digits_val y)) mo) day) (\<lambda>d.
                    rbind (time_field 0 23 hh) (\<lambda>h. rbind (time_field 0 59 mm) (\<lambda>mi.
                    rbind (time_field 0 59 ss) (\<lambda>sec. Inr [int (digits_val y), mo, d, h, mi, sec])))))
              | _ \<Rightarrow> Inl ValueError)
      | _ \<Rightarrow> Inl ValueError)"

subsection \<open>The kinds of servers\<close>

text \<open>The entry without the named parameters of the constructor.\<close>

definition rest_of :: "str list \<Rightarrow> attrs \<Rightarrow> attrs" where
  "rest_of ks conf = filter (\<lambda>(k, v). k \<notin> set ks) conf"

definition dev_mode :: "config \<Rightarrow> bool res" where
  "dev_mode c = rbind (dict_get (global_config c) ''port_mode'') (\<lambda>m. Inr (m = YStr ''dev''))"

definition port_offset :: "config \<Rightarrow> int res" where
  "port_offset c =
     (case map_of (global_config c) ''global_port_offst'' of None \<Rightarrow> Inr 40000 | Some v \<Rightarrow> yaml_int v)"

definition use_ssl :: "config \<Rightarrow> attrs \<Rightarrow> bool" where
  "use_ssl c kw =
     (case map_of kw ''enable_ssl'' of
        Some v \<Rightarrow> yaml_true v
      | None \<Rightarrow> (case map_of (global_config c) ''enable_ssl'' of Some v \<Rightarrow> yaml_true v | None \<Rightarrow> True))"

definition with_open_ts :: "(int list \<Rightarrow> int) \<Rightarrow> attrs \<Rightarrow> attrs res" where
  "with_open_ts mktime kw =
     (case map_of kw ''open_time'' of
        None \<Rightarrow> Inr kw
      | Some v \<Rightarrow> rbind (yaml_text v) (\<lambda>s. rbind (strptime s) (\<lambda>t.
          Inr (AList.update ''open_ts'' (YInt (mktime t)) kw))))"

text \<open>Login port, port with encryption (0 for none) and first port of the cluster.\<close>

definition game_ports :: "bool \<Rightarrow> bool \<Rightarrow> int \<Rightarrow> int \<times> int \<times> int" where
  "game_ports dev ssl i =
     (if dev then (let lp = 10000 + i * 100 + 15 in (lp, if ssl then lp - 1 else 0, lp + 1))
      else if ssl then (20000, 10108, 20001) else (10108, 0, 20001))"

definition Server_game :: "(int list \<Rightarrow> int) \<Rightarrow> config \<Rightarrow> int \<Rightarrow> yaml \<Rightarrow> yaml \<Rightarrow> attrs \<Rightarrow> server_obj res" where
  "Server_game mktime c i name ip kw0 =
     rbind (rbind (dict_get (global_config c) ''min_cross_server_id'') yaml_int) (\<lambda>lim.
       if \<not> i < lim then Inl AssertionError
       else rbind (with_open_ts mktime kw0) (\<lambda>kw.
         rbind (dev_mode c) (\<lambda>dev.
           case game_ports dev (use_ssl c kw) i of (lp, sp, port) \<Rightarrow>
             rbind (add_node c ip ''game'' port [(''login_port'', YInt lp), (''ssl_login_port'', YInt sp)] kw
               (empty_server ''game'' i name)) (\<lambda>s1.
             rbind (add_node c ip ''chat'' (port + 2) [] kw s1)
               (add_node c ip ''dynasty'' (port + 4) [] kw)))))"

definition Server_cross :: "config \<Rightarrow> int \<Rightarrow> yaml \<Rightarrow> yaml \<Rightarrow> attrs \<Rightarrow> server_obj res" where
  "Server_cross c i name ip kw =
     rbind (rbind (dict_get (global_config c) ''min_cross_server_id'') yaml_int) (\<lambda>lim.
       if \<not> lim \<le> i then Inl AssertionError
       else rbind (dev_mode c) (\<lambda>dev.
         add_node c ip ''cross'' (if dev then 10000 + i * 100 + 15 else 30001) [] kw (empty_server ''cross'' i name)))"

text \<open>\<open>Server_world\<close>, \<open>Server_pay\<close> and \<open>Server_cluster_router\<close>: one node at a fixed offset.\<close>

definition Server_single :: "str \<Rightarrow> int \<Rightarrow> config \<Rightarrow> int \<Rightarrow> yaml \<Rightarrow> yaml \<Rightarrow> attrs \<Rightarrow> server_obj res" where
  "Server_single t d c i name ip kw =
     rbind (port_offset c) (\<lambda>off. add_node c ip t (off + d) [] kw (empty_server t i name))"

definition Server_gm_router :: "config \<Rightarrow> int \<Rightarrow> yaml \<Rightarrow> yaml \<Rightarrow> attrs \<Rightarrow> server_obj res" where
  "Server_gm_router c i name ip kw =
     rbind (port_offset c) (\<lambda>off. rbind (dev_mode c) (\<lambda>dev.
       add_node c ip ''gm_router'' (off + 201)
         [(''gm_router_port'', YInt (if dev then off + 203 else 10112))] kw (empty_server ''gm_router'' i name)))"

definition Server_login :: "config \<Rightarrow> int \<Rightarrow> yaml \<Rightarrow> yaml \<Rightarrow> attrs \<Rightarrow> server_obj res" where
  "Server_login c i name ip kw =
     rbind (port_offset c) (\<lambda>off. rbind (dev_mode c) (\<lambda>dev.
       let port = (if dev then 10001 + i * 10 else off + 5001) in
       add_node c ip ''login'' port [(''http_port'', YInt (if dev then port + 2 else 10114))] kw
         (empty_server ''login'' i name)))"


subsection \<open>Loading all servers\<close>

definition TYPES :: "str list" where
  "TYPES = [''game'', ''cross'', ''world'', ''pay'', ''gm_router'', ''cluster_router'', ''login'']"

definition named_args :: "str \<Rightarrow> str list" where
  "named_args t = [''server_id'', ''name'', ''ip''] @ (if t \<in> {''game'', ''cross''} then [''city_list'', ''war_list''] else [])"

definition build_server :: "(int list \<Rightarrow> int) \<Rightarrow> config \<Rightarrow> str \<Rightarrow> int \<Rightarrow> yaml \<Rightarrow> yaml \<Rightarrow> attrs \<Rightarrow> server_obj res" where
  "build_server mktime c t i name ip kw =
     (if t = ''game'' then Server_game mktime c i name ip kw
      else if t = ''cross'' then Server_cross c i name ip kw
      else if t = ''world'' then Server_single t 1 c i name ip kw
      else if t = ''pay'' then Server_single t 101 c i name ip kw
      else if t = ''gm_router'' then Server_gm_router c i name ip kw
      else if t = ''cluster_router'' then Server_single t 301 c i name ip kw
      else Server_login c i name ip kw)"

text \<open>\<open>locals()['Server_' + conf['type']](**conf)\<close>\<close>

definition make_server :: "(int list \<Rightarrow> int) \<Rightarrow> config \<Rightarrow> attrs \<Rightarrow> server_obj res" where
  "make_server mktime c conf =
     rbind (dict_get conf ''type'') (\<lambda>ty. rbind (yaml_text ty) (\<lambda>t.
       if t \<notin> set TYPES then Inl KeyError
       else if ''self'' \<in> set (map fst conf) then Inl TypeError
       else case (map_of conf ''server_id'', map_of conf ''name'', map_of conf ''ip'') of
         (Some i, Some name, Some ip) \<Rightarrow>
           rbind (yaml_int i) (\<lambda>i. build_server mktime c t i name ip (rest_of (named_args t) conf))
       | _ \<Rightarrow> Inl TypeError))"

record router =
  cluster_router :: str
  cluster_router_name :: str

text \<open>A cluster router sets the two module variables; the last one counts.\<close>

definition note_router :: "config \<Rightarrow> attrs \<Rightarrow> server_obj \<Rightarrow> router \<Rightarrow> router res" where
  "note_router c conf sv r =
     (if s_type sv \<noteq> ''cluster_router'' then Inr r
      else rbind (dict_get conf ''ip'') (\<lambda>ip. rbind (yaml_text ip) (\<lambda>a. rbind (port_offset c) (\<lambda>off.
        Inr \<lparr>cluster_router = a @ '':'' @ int_str (off + 301),
             cluster_router_name = node_id (s_id sv) ''cluster_router''\<rparr>))))"

definition router_attrs :: "router \<Rightarrow> attrs" where
  "router_attrs r = [(''cluster_router'', YStr (cluster_router r)), (''cluster_router_name'', YStr (cluster_router_name r))]"

definition set_router :: "router \<Rightarrow> server_obj \<Rightarrow> server_obj" where
  "set_router r sv = sv\<lparr>node_list := map (setattrs (router_attrs r)) (node_list sv)\<rparr>"

definition load_step :: "(int list \<Rightarrow> int) \<Rightarrow> config \<Rightarrow> server_obj list \<times> router \<Rightarrow> attrs \<Rightarrow> (server_obj list \<times> router) res" where
  "load_step mktime c = (\<lambda>(ss, r) conf.
     rbind (make_server mktime c conf) (\<lambda>sv. rbind (note_router c conf sv r) (\<lambda>r'. Inr (ss @ [sv], r'))))"

definition load_servers :: "(int list \<Rightarrow> int) \<Rightarrow> config \<Rightarrow> server_obj list res" where
  "load_servers mktime c =
     rbind (foldR (load_step mktime c) ([], \<lparr>cluster_router = [], cluster_router_name = []\<rparr>) (confs c))
       (\<lambda>(ss, r). Inr (map (set_router r) ss))"

subsection \<open>The ports of a host\<close>

definition PORT_KEYS :: "str list" where
  "PORT_KEYS = [''cluster_port'', ''debug_port'', ''login_port'', ''ssl_login_port'', ''gm_router_port'', ''http_port'']"

definition attr_port :: "attrs \<Rightarrow> str \<Rightarrow> int list" where
  "attr_port n k = (case map_of n k of Some (YInt p) \<Rightarrow> if p = 0 then [] else [p] | _ \<Rightarrow> [])"

definition node_ports :: "attrs \<Rightarrow> int list" where
  "node_ports n = concat (map (attr_port n) PORT_KEYS)"

definition host_ports :: "server_obj list \<Rightarrow> yaml \<Rightarrow> int list" where
  "host_ports ss h = concat (map node_ports (filter (\<lambda>n. map_of n ''ip'' = Some h) (concat (map node_list ss))))"

text \<open>The file itself gives no node an address or a port.\<close>

definition plain :: "config \<Rightarrow> bool" where
  "plain c \<longleftrightarrow> (\<forall>d \<in> set (global_config c # confs c). \<forall>k \<in> set PORT_KEYS. map_of d k = None) \<and>
     map_of (global_config c) ''ip'' = None \<and> map_of (global_config c) ''global_port_offst'' = None"

fun kind :: "attrs \<Rightarrow> str \<times> int" where
  "kind conf = (case (map_of conf ''type'', map_of conf ''server_id'') of
     (Some (YStr t), Some (YInt i)) \<Rightarrow> (t, i) | _ \<Rightarrow> ([], 0))"

definition SINGLES :: "(str \<times> int) list" where
  "SINGLES = [(''world'', 3000), (''pay'', 3010), (''gm_router'', 3020), (''cluster_router'', 3030)]"

text \<open>Two servers that want the same port.\<close>

definition meets :: "str \<times> int \<Rightarrow> str \<times> int \<Rightarrow> bool" where
  "meets = (\<lambda>(t, i) (u, j).
     (t = u \<and> (i = j \<or> t \<in> fst ` set SINGLES)) \<or>
     (t = ''game'' \<and> u = ''login'' \<and> j = 10 * i + 2) \<or> (t = ''login'' \<and> u = ''game'' \<and> i = 10 * j + 2) \<or>
     (t = ''login'' \<and> (u, i) \<in> set SINGLES) \<or> (u = ''login'' \<and> (t, j) \<in> set SINGLES))"

definition kind_ports :: "bool \<Rightarrow> str \<times> int \<Rightarrow> int list" where
  "kind_ports ssl = (\<lambda>(t, i). let g = 100 * i in
     if t = ''game'' then [g + 10016, g + 10017, g + 10015] @ (if ssl then [g + 10014] else [])
         @ [g + 10018, g + 10019, g + 10020, g + 10021]
     else if t = ''cross'' then [g + 10015, g + 10016]
     else if t = ''world'' then [40001, 40002]
     else if t = ''pay'' then [40101, 40102]
     else if t = ''gm_router'' then [40201, 40202, 40203]
     else if t = ''cluster_router'' then [40301, 40302]
     else [10 * i + 10001, 10 * i + 10002, 10 * i + 10003])"

lemma distinct_concat_map:
  "distinct (concat (map f xs)) \<longleftrightarrow>
     (\<forall>x \<in> set xs. distinct (f x)) \<and> sorted_wrt (\<lambda>x y. set (f x) \<inter> set (f y) = {}) xs"
  by (induction xs) auto

lemma kind_ports_distinct: "distinct (kind_ports ssl k)"
  by (cases k) (simp add: kind_ports_def Let_def)

text \<open>The ports of a server lie in a short interval.\<close>

definition kind_range :: "str \<times> int \<Rightarrow> int \<times> int" where
  "kind_range = (\<lambda>(t, i).
     if t = ''game'' then (100 * i + 10014, 100 * i + 10021)
     else if t = ''cross'' then (100 * i + 10015, 100 * i + 10016)
     else if t = ''world'' then (40001, 40002)
     else if t = ''pay'' then (40101, 40102)
     else if t = ''gm_router'' then (40201, 40203)
     else if t = ''cluster_router'' then (40301, 40302)
     else (10 * i + 10001, 10 * i + 10003))"

lemma kind_ports_range: "p \<in> set (kind_ports ssl k) \<Longrightarrow> fst (kind_range k) \<le> p \<and> p \<le> snd (kind_range k)"
  by (cases k) (auto simp: kind_ports_def kind_range_def Let_def split: if_splits)

lemma off_hundreds:
  fixes i p k :: int
  assumes "100 * i + 10014 \<le> p \<and> p \<le> 100 * i + 10021" "40001 + 100 * k \<le> p \<and> p \<le> 40003 + 100 * k"
  shows False
  using assms by (cases "i \<le> 299 + k"; linarith)

lemma login_not_cross:
  fixes i j p :: int
  assumes "100 * i + 10015 \<le> p \<and> p \<le> 100 * i + 10016" "10 * j + 10001 \<le> p \<and> p \<le> 10 * j + 10003"
  shows False
  using assms by (cases "j \<le> 10 * i + 1"; linarith)

lemma kind_ranges_meet:
  assumes "t \<in> set TYPES" "u \<in> set TYPES" "fst (kind_range (t, i)) \<le> p" "p \<le> snd (kind_range (t, i))"
    "fst (kind_range (u, j)) \<le> p" "p \<le> snd (kind_range (u, j))"
  shows "meets (t, i) (u, j) \<or> {t, u} = {''game'', ''cross''} \<and> i = j"
  using assms unfolding TYPES_def
  apply (simp only: list.set insert_iff empty_iff simp_thms)
  apply (elim disjE)
  apply (simp_all only: simp_thms)
  apply (simp_all add: kind_range_def meets_def SINGLES_def doubleton_eq_iff)
  using off_hundreds [of i p 0] off_hundreds [of i p 1] off_hundreds [of i p 2] off_hundreds [of i p 3]
    off_hundreds [of j p 0] off_hundreds [of j p 1] off_hundreds [of j p 2] off_hundreds [of j p 3]
    login_not_cross [of i p j] login_not_cross [of j p i]
  by simp_all

lemma meets_ports:
  assumes "t \<in> set TYPES" "u \<in> set TYPES" "meets (t, i) (u, j)"
  shows "set (kind_ports sa (t, i)) \<inter> set (kind_ports sb (u, j)) \<noteq> {}"
proof -
  note t = assms(1) [unfolded TYPES_def, simplified] and u = assms(2) [unfolded TYPES_def, simplified]
  show ?thesis
    using t u assms(3)
    by (elim disjE; simp add: kind_ports_def meets_def SINGLES_def Let_def)
qed

lemma kind_ports_meet:
  assumes "t \<in> set TYPES" "u \<in> set TYPES" "{t, u} = {''game'', ''cross''} \<Longrightarrow> i \<noteq> j"
  shows "set (kind_ports sa (t, i)) \<inter> set (kind_ports sb (u, j)) = {} \<longleftrightarrow> \<not> meets (t, i) (u, j)"
proof -
  have "meets (t, i) (u, j)" if "p \<in> set (kind_ports sa (t, i))" "p \<in> set (kind_ports sb (u, j))" for p
    using kind_ranges_meet [OF assms(1,2)] kind_ports_range [OF that(1)] kind_ports_range [OF that(2)] assms(3) by blast
  then show ?thesis using meets_ports [OF assms(1,2)] by blast
qed


subsection \<open>The ports of the loaded nodes\<close>

lemma setattrs_other: "map_of d k = None \<Longrightarrow> map_of (setattrs d n) k = map_of n k"
proof (induction d arbitrary: n)
  case (Cons x d)
  obtain a v where x: "x = (a, v)" by (cases x)
  then have "map_of d k = None" "k \<noteq> a" using Cons.prems by (auto split: if_splits)
  then show ?case using Cons.IH [of "AList.update a v n"] x by (simp add: setattrs_def)
qed (simp add: setattrs_def)

lemma setattrs_lookup:
  "distinct (map fst d) \<Longrightarrow> map_of (setattrs d n) k = (case map_of d k of None \<Rightarrow> map_of n k | Some v \<Rightarrow> Some v)"
proof (induction d arbitrary: n)
  case (Cons x d)
  obtain a v where x: "x = (a, v)" by (cases x)
  have "map_of (setattrs d (AList.update a v n)) k =
      (case map_of d k of None \<Rightarrow> map_of (AList.update a v n) k | Some w \<Rightarrow> Some w)" using Cons by simp
  moreover have "map_of d a = None" using Cons.prems x by (simp add: map_of_eq_None_iff)
  ultimately show ?case using x by (auto simp: setattrs_def split: option.splits)
qed (simp add: setattrs_def)

lemma setattrs_append: "setattrs (a @ b) n = setattrs b (setattrs a n)"
  by (simp add: setattrs_def)

definition DB_KEYS :: "str set" where
  "DB_KEYS = {''db_host'', ''db_port'', ''db_user'', ''db_passwd''}"

lemma db_attrs_keys: "db_attrs db = Inr d \<Longrightarrow> k \<notin> DB_KEYS \<Longrightarrow> map_of d k = None"
  by (auto simp: db_attrs_def DB_KEYS_def res_simps)

lemma make_node_attr:
  assumes "make_node c base extra = Inr n" "k \<notin> DB_KEYS"
  shows "map_of n k = map_of (setattrs extra (setattrs (global_config c) base)) k"
  using assms db_attrs_keys [OF _ assms(2)] setattrs_other
  by (auto simp: make_node_def Let_def res_simps split: option.splits if_splits)

lemma port_keys: "k \<in> set PORT_KEYS \<Longrightarrow> k \<notin> DB_KEYS \<and> k \<noteq> ''ip'' \<and> k \<noteq> ''open_ts''"
  by (auto simp: PORT_KEYS_def DB_KEYS_def)

lemma node_ports_cong: "(\<And>k. k \<in> set PORT_KEYS \<Longrightarrow> map_of n k = map_of m k) \<Longrightarrow> node_ports n = node_ports m"
  unfolding node_ports_def attr_port_def by (metis (mono_tags, lifting) map_cong)

abbreviation cluster_attrs :: "int \<Rightarrow> attrs" where
  "cluster_attrs port \<equiv> [(''cluster_port'', YInt port), (''debug_port'', YInt (port + 1))]"

lemma add_node_ports:
  assumes a: "add_node c ip t port args kw sv = Inr sv'" and p: "plain c"
    and kw: "\<forall>k \<in> set PORT_KEYS. map_of kw k = None" and d: "distinct (map fst args)" "''ip'' \<notin> fst ` set args"
  shows "\<exists>n. sv' = sv\<lparr>node_list := node_list sv @ [n]\<rparr> \<and> node_ports n = node_ports (args @ cluster_attrs port) \<and>
    map_of n ''ip'' = Some ip"
proof -
  let ?base = "[(''name'', s_name sv), (''ip'', ip), (''node_name'', YStr (node_id (s_id sv) t)),
           (''template_name'', YStr (t @ ''.lua'')), (''server_id'', YInt (s_id sv)),
           (''server_type'', YStr (s_type sv)), (''cluster_port'', YInt port), (''debug_port'', YInt (port + 1))]"
  obtain n where n: "make_node c ?base (args @ kw) = Inr n" "sv' = sv\<lparr>node_list := node_list sv @ [n]\<rparr>"
    and pos: "\<forall>k \<in> fst ` set kw. k \<notin> set positional"
    using a by (fastforce simp: add_node_def res_simps split: if_splits)
  have ip: "map_of kw ''ip'' = None" using pos by (auto simp: map_of_eq_None_iff positional_def)
  have look: "map_of n k = (case map_of args k of None \<Rightarrow> map_of ?base k | Some v \<Rightarrow> Some v)"
    if "k \<in> set PORT_KEYS \<or> k = ''ip''" for k
  proof -
    have "k \<notin> DB_KEYS" using that port_keys by (auto simp: DB_KEYS_def)
    from make_node_attr [OF n(1) this] have "map_of n k = map_of (setattrs kw (setattrs args (setattrs (global_config c) ?base))) k"
      by (simp only: setattrs_append)
    also have "\<dots> = map_of (setattrs args (setattrs (global_config c) ?base)) k"
      by (rule setattrs_other) (use that kw ip in blast)
    also have "\<dots> = (case map_of args k of None \<Rightarrow> map_of (setattrs (global_config c) ?base) k | Some v \<Rightarrow> Some v)"
      by (rule setattrs_lookup [OF d(1)])
    also have "map_of (setattrs (global_config c) ?base) k = map_of ?base k"
      by (rule setattrs_other) (use that p in \<open>auto simp: plain_def\<close>)
    finally show ?thesis .
  qed
  have "node_ports n = node_ports (args @ cluster_attrs port)"
  proof (rule node_ports_cong)
    fix k assume k: "k \<in> set PORT_KEYS"
    have "map_of ?base k = map_of (cluster_attrs port) k" using k by (auto simp: PORT_KEYS_def)
    then show "map_of n k = map_of (args @ cluster_attrs port) k"
      using look [of k] k by (cases "map_of args k") (simp_all add: map_add_def del: map_of.simps)
  qed
  moreover have "map_of n ''ip'' = Some ip" using look [of "''ip''"] d(2) by (simp add: map_of_eq_None_iff [THEN iffD2])
  ultimately show ?thesis using n(2) by blast
qed


lemma rest_of_lookup: "map_of (rest_of ks d) k = (if k \<in> set ks then None else map_of d k)"
  by (induction d) (auto simp: rest_of_def)

definition conf_ssl :: "config \<Rightarrow> attrs \<Rightarrow> bool" where
  "conf_ssl c conf = use_ssl c (rest_of (named_args ''game'') conf)"

definition server_ports :: "server_obj \<Rightarrow> int list" where
  "server_ports sv = concat (map node_ports (node_list sv))"

definition on_host :: "server_obj \<Rightarrow> yaml \<Rightarrow> bool" where
  "on_host sv ip \<longleftrightarrow> (\<forall>n \<in> set (node_list sv). map_of n ''ip'' = Some ip)"

lemma add_node_step:
  assumes "add_node c ip t port args kw sv = Inr sv'" "plain c" "\<forall>k \<in> set PORT_KEYS. map_of kw k = None"
    "distinct (map fst args)" "''ip'' \<notin> fst ` set args" "on_host sv ip"
  shows "server_ports sv' = server_ports sv @ node_ports (args @ cluster_attrs port) \<and> on_host sv' ip \<and> s_type sv' = s_type sv \<and> s_id sv' = s_id sv"
  using add_node_ports [OF assms(1-5)] assms(6) by (auto simp: server_ports_def on_host_def)

lemma empty_server_ports: "server_ports (empty_server t i n) = []" "on_host (empty_server t i n) ip"
  "s_type (empty_server t i n) = t" "s_id (empty_server t i n) = i"
  by (simp_all add: empty_server_def server_ports_def on_host_def)

lemma hundred_port: "0 < r \<Longrightarrow> r < 100 \<Longrightarrow> 10000 + i * 100 + r \<noteq> (0 :: int)"
  by (cases "i \<le> - 101"; linarith)

lemma ten_port: "0 < r \<Longrightarrow> r < 10 \<Longrightarrow> 10000 + i * 10 + r \<noteq> (0 :: int)"
  by (cases "i \<le> - 1001"; linarith)

lemma game_node_ports:
  assumes "ssl' = ssl"
  shows "node_ports ([(''login_port'', YInt (10015 + i * 100)), (''ssl_login_port'', YInt (if ssl then 10014 + i * 100 else 0))]
      @ cluster_attrs (10016 + i * 100)) @ node_ports ([] @ cluster_attrs (10018 + i * 100)) @
    node_ports ([] @ cluster_attrs (10020 + i * 100)) = kind_ports ssl' (''game'', i)"
  using assms hundred_port [of 14 i] hundred_port [of 15 i] hundred_port [of 16 i] hundred_port [of 17 i] hundred_port [of 18 i]
    hundred_port [of 19 i] hundred_port [of 20 i] hundred_port [of 21 i]
  by (simp add: node_ports_def PORT_KEYS_def attr_port_def kind_ports_def Let_def mult.commute add.commute)

lemma Server_game_ports:
  assumes s: "Server_game mktime c i name ip kw = Inr sv" and p: "plain c" "dev_mode c = Inr True"
    and kw: "\<forall>k \<in> set PORT_KEYS. map_of kw k = None"
  shows "server_ports sv = kind_ports (use_ssl c kw) (''game'', i) \<and> on_host sv ip"
proof -
  let ?ssl = "use_ssl c kw"
  obtain kw' where kw': "with_open_ts mktime kw = Inr kw'"
    and r: "rbind (add_node c ip ''game'' (10016 + i * 100)
        [(''login_port'', YInt (10015 + i * 100)), (''ssl_login_port'', YInt (if use_ssl c kw' then 10014 + i * 100 else 0))] kw'
        (empty_server ''game'' i name)) (\<lambda>s1. rbind (add_node c ip ''chat'' (10018 + i * 100) [] kw' s1)
          (add_node c ip ''dynasty'' (10020 + i * 100) [] kw')) = Inr sv"
    using s p(2) by (auto simp: Server_game_def game_ports_def Let_def res_simps add.commute split: if_splits)
  have k: "map_of kw' k = map_of kw k" if "k \<noteq> ''open_ts''" for k
    using kw' that by (auto simp: with_open_ts_def res_simps split: option.splits)
  have kwp: "\<forall>k \<in> set PORT_KEYS. map_of kw' k = None" using k kw port_keys by metis
  have ssl: "use_ssl c kw' = ?ssl" by (simp add: use_ssl_def k)
  obtain s1 s2 where n: "add_node c ip ''game'' (10016 + i * 100)
        [(''login_port'', YInt (10015 + i * 100)), (''ssl_login_port'', YInt (if ?ssl then 10014 + i * 100 else 0))] kw'
        (empty_server ''game'' i name) = Inr s1" "add_node c ip ''chat'' (10018 + i * 100) [] kw' s1 = Inr s2"
      "add_node c ip ''dynasty'' (10020 + i * 100) [] kw' s2 = Inr sv"
    using r unfolding ssl by (auto simp: res_simps)
  note a1 = add_node_step [OF n(1) p(1) kwp _ _ empty_server_ports(2), simplified empty_server_ports]
  then have 1: "server_ports s1 = node_ports ([(''login_port'', YInt (10015 + i * 100)), (''ssl_login_port'', YInt (if ?ssl then 10014 + i * 100 else 0))]
      @ cluster_attrs (10016 + i * 100))" "on_host s1 ip" by simp_all
  have 2: "server_ports s2 = server_ports s1 @ node_ports ([] @ cluster_attrs (10018 + i * 100))" "on_host s2 ip"
    using add_node_step [OF n(2) p(1) kwp _ _ 1(2)] by simp_all
  have 3: "server_ports sv = server_ports s2 @ node_ports ([] @ cluster_attrs (10020 + i * 100))" "on_host sv ip"
    using add_node_step [OF n(3) p(1) kwp _ _ 2(2)] by simp_all
  show ?thesis using 1 2 3 game_node_ports [OF refl, of i ?ssl] by simp
qed


lemma one_node_server:
  assumes "add_node c ip t port args kw (empty_server t i name) = Inr sv" "plain c"
    "\<forall>k \<in> set PORT_KEYS. map_of kw k = None" "distinct (map fst args)" "''ip'' \<notin> fst ` set args"
  shows "server_ports sv = node_ports (args @ cluster_attrs port) \<and> on_host sv ip"
  using add_node_step [OF assms empty_server_ports(2)] by (simp add: empty_server_ports)

lemma port_offset_plain: "plain c \<Longrightarrow> port_offset c = Inr 40000"
  by (simp add: plain_def port_offset_def)

lemma build_server_ports:
  assumes b: "build_server mktime c t i name ip kw = Inr sv" and t: "t \<in> set TYPES" and p: "plain c" "dev_mode c = Inr True"
    and kw: "\<forall>k \<in> set PORT_KEYS. map_of kw k = None"
  shows "server_ports sv = kind_ports (use_ssl c kw) (t, i) \<and> on_host sv ip"
proof -
  note step = one_node_server [OF _ p(1) kw]
  have single: "server_ports sv = node_ports (cluster_attrs (40000 + d)) \<and> on_host sv ip"
    if "Server_single u d c i name ip kw = Inr sv" for u d
    using step [of ip u "40000 + d" "[]" i name sv] that port_offset_plain [OF p(1)] by (simp add: Server_single_def)
  have nz: "10000 + i * 100 + 15 \<noteq> 0" "10000 + i * 100 + 16 \<noteq> 0" "10000 + i * 10 + 1 \<noteq> 0" "10000 + i * 10 + 2 \<noteq> 0" "10000 + i * 10 + 3 \<noteq> 0"
    by (rule hundred_port ten_port; simp)+
  have two: "node_ports (cluster_attrs q) = [q, q + 1]" if "q \<noteq> 0" "q + 1 \<noteq> 0" for q
    using that by (simp add: node_ports_def PORT_KEYS_def attr_port_def)
  have "t = ''game'' \<or> t = ''cross'' \<or> t = ''world'' \<or> t = ''pay'' \<or> t = ''gm_router'' \<or> t = ''cluster_router'' \<or> t = ''login''"
    using t by (simp add: TYPES_def)
  then show ?thesis
  proof (elim disjE)
    assume g: "t = ''game''"
    then show ?thesis using Server_game_ports [OF _ p kw] b by (simp add: build_server_def)
  next
    assume c: "t = ''cross''"
    then have "add_node c ip ''cross'' (10000 + i * 100 + 15) [] kw (empty_server ''cross'' i name) = Inr sv"
      using b p(2) by (auto simp: build_server_def Server_cross_def res_simps split: if_splits)
    from step [OF this] show ?thesis using c two [of "10000 + i * 100 + 15"] nz
      by (simp add: kind_ports_def Let_def mult.commute add.commute)
  next
    assume m: "t = ''gm_router''"
    then have "add_node c ip ''gm_router'' 40201 [(''gm_router_port'', YInt 40203)] kw (empty_server ''gm_router'' i name) = Inr sv"
      using b p(2) port_offset_plain [OF p(1)] by (simp add: build_server_def Server_gm_router_def)
    from step [OF this] show ?thesis using m by (simp add: kind_ports_def node_ports_def PORT_KEYS_def attr_port_def)
  next
    assume l: "t = ''login''"
    then have "add_node c ip ''login'' (10001 + i * 10) [(''http_port'', YInt (10001 + i * 10 + 2))] kw (empty_server ''login'' i name) = Inr sv"
      using b p(2) port_offset_plain [OF p(1)] by (simp add: build_server_def Server_login_def Let_def)
    from step [OF this] show ?thesis using l nz
      by (simp add: kind_ports_def node_ports_def PORT_KEYS_def attr_port_def Let_def mult.commute add.commute)
  qed (use single [of t] b in \<open>simp_all add: build_server_def kind_ports_def node_ports_def PORT_KEYS_def attr_port_def\<close>)
qed

lemma make_server_ports:
  assumes s: "make_server mktime c conf = Inr sv" and p: "plain c" "dev_mode c = Inr True" "conf \<in> set (confs c)"
  shows "fst (kind conf) \<in> set TYPES \<and> server_ports sv = kind_ports (conf_ssl c conf) (kind conf) \<and>
    (\<exists>ip. map_of conf ''ip'' = Some ip \<and> on_host sv ip)"
proof -
  obtain t i name ip where c: "map_of conf ''type'' = Some (YStr t)" "t \<in> set TYPES"
    "map_of conf ''server_id'' = Some (YInt i)" "map_of conf ''name'' = Some name" "map_of conf ''ip'' = Some ip"
    "build_server mktime c t i name ip (rest_of (named_args t) conf) = Inr sv"
    using s by (auto simp: make_server_def res_simps split: option.splits if_splits elim!: yaml_text.elims yaml_int.elims)
  have kw: "\<forall>k \<in> set PORT_KEYS. map_of (rest_of (named_args t) conf) k = None"
    using p(1,3) by (auto simp: rest_of_lookup plain_def)
  have ssl: "use_ssl c (rest_of (named_args t) conf) = conf_ssl c conf"
    by (simp add: use_ssl_def conf_ssl_def rest_of_lookup named_args_def)
  from build_server_ports [OF c(6,2) p(1,2) kw] ssl c show ?thesis by simp
qed


subsection \<open>No two nodes of a host share a port\<close>

lemma make_server_cross:
  assumes "make_server mktime c conf = Inr sv" "dict_get (global_config c) ''min_cross_server_id'' = Inr (YInt lim)"
  shows "(fst (kind conf) = ''game'' \<longrightarrow> snd (kind conf) < lim) \<and> (fst (kind conf) = ''cross'' \<longrightarrow> lim \<le> snd (kind conf))"
proof -
  obtain t i name ip where c: "kind conf = (t, i)" "t \<in> set TYPES"
    "build_server mktime c t i name ip (rest_of (named_args t) conf) = Inr sv"
    using assms(1) by (auto simp: make_server_def res_simps split: option.splits if_splits elim!: yaml_text.elims yaml_int.elims)
  have "i < lim" if "t = ''game''"
    using c(3) that assms(2) by (simp add: build_server_def Server_game_def split: if_splits)
  moreover have "lim \<le> i" if "t = ''cross''"
    using c(3) that assms(2) by (simp add: build_server_def Server_cross_def split: if_splits)
  ultimately show ?thesis using c(1) by simp
qed

lemma load_pairs:
  assumes "load_servers mktime c = Inr ss"
  shows "\<exists>ss0 r. list_all2 (\<lambda>conf sv. make_server mktime c conf = Inr sv) (confs c) ss0 \<and> ss = map (set_router r) ss0"
proof -
  have loop: "foldR (load_step mktime c) (ss0, r) cs = Inr (ss1, r1) \<Longrightarrow>
      \<exists>new. ss1 = ss0 @ new \<and> list_all2 (\<lambda>conf sv. make_server mktime c conf = Inr sv) cs new" for ss0 r cs ss1 r1
  proof (induction cs arbitrary: ss0 r)
    case (Cons conf cs)
    then obtain sv r2 where sv: "make_server mktime c conf = Inr sv" "foldR (load_step mktime c) (ss0 @ [sv], r2) cs = Inr (ss1, r1)"
      by (auto simp: load_step_def res_simps)
    from Cons.IH [OF sv(2)] obtain new where "ss1 = (ss0 @ [sv]) @ new" "list_all2 (\<lambda>conf sv. make_server mktime c conf = Inr sv) cs new"
      by blast
    then show ?case using sv(1) by (intro exI [of _ "sv # new"]) simp
  qed simp
  show ?thesis using assms loop [of "[]"] by (fastforce simp: load_servers_def res_simps)
qed

lemma set_router_ports: "server_ports (set_router r sv) = server_ports sv" "on_host (set_router r sv) ip = on_host sv ip"
proof -
  have "node_ports (setattrs (router_attrs r) n) = node_ports n" for n
    by (intro node_ports_cong setattrs_other) (auto simp: router_attrs_def PORT_KEYS_def)
  moreover have "map_of (setattrs (router_attrs r) n) ''ip'' = map_of n ''ip''" for n
    by (intro setattrs_other) (simp add: router_attrs_def)
  ultimately show "server_ports (set_router r sv) = server_ports sv" "on_host (set_router r sv) ip = on_host sv ip"
    by (simp_all add: server_ports_def on_host_def set_router_def o_def)
qed

lemma host_ports_server: "on_host sv ip \<Longrightarrow> host_ports [sv] h = (if ip = h then server_ports sv else [])"
  by (auto simp: host_ports_def on_host_def server_ports_def filter_empty_conv)

lemma host_ports_confs:
  assumes "list_all2 (\<lambda>conf sv. make_server mktime c conf = Inr sv) cs ss" "plain c" "dev_mode c = Inr True" "set cs \<subseteq> set (confs c)"
  shows "host_ports (map (set_router r) ss) h =
    concat (map (\<lambda>conf. kind_ports (conf_ssl c conf) (kind conf)) (filter (\<lambda>conf. map_of conf ''ip'' = Some h) cs))"
  using assms(1,4)
proof (induction rule: list_all2_induct)
  case (Cons conf cs sv ss)
  from make_server_ports [OF Cons(1) assms(2,3)] Cons.prems obtain ip where
    ip: "server_ports sv = kind_ports (conf_ssl c conf) (kind conf)" "map_of conf ''ip'' = Some ip" "on_host sv ip" by auto
  have "host_ports (map (set_router r) (sv # ss)) h = host_ports [set_router r sv] h @ host_ports (map (set_router r) ss) h"
    by (simp add: host_ports_def)
  also have "host_ports [set_router r sv] h = (if ip = h then kind_ports (conf_ssl c conf) (kind conf) else [])"
    using host_ports_server [of "set_router r sv" ip h] ip by (simp add: set_router_ports)
  finally show ?case using Cons.IH Cons.prems ip(2) by simp
qed (simp add: host_ports_def)

text \<open>
  C24. In development mode the nodes of a host get pairwise different ports exactly when no two server
  entries of the host are alike in kind and id (in kind alone for a world, pay, router server) and no
  login server has the id \<open>10 g + 2\<close> of a game server \<open>g\<close> or one of the ids 3000 to 3030 of the
  servers at the fixed offset.
\<close>

theorem dev_ports_distinct:
  assumes "load_servers mktime c = Inr ss" and "plain c" and "dev_mode c = Inr True"
    and "dict_get (global_config c) ''min_cross_server_id'' = Inr (YInt lim)"
  shows "distinct (host_ports ss h) \<longleftrightarrow>
    sorted_wrt (\<lambda>a b. \<not> meets (kind a) (kind b)) (filter (\<lambda>conf. map_of conf ''ip'' = Some h) (confs c))"
proof -
  let ?cs = "filter (\<lambda>conf. map_of conf ''ip'' = Some h) (confs c)"
  let ?f = "\<lambda>conf. kind_ports (conf_ssl c conf) (kind conf)"
  obtain ss0 r where l: "list_all2 (\<lambda>conf sv. make_server mktime c conf = Inr sv) (confs c) ss0" "ss = map (set_router r) ss0"
    using load_pairs [OF assms(1)] by blast
  have made: "\<exists>sv. make_server mktime c conf = Inr sv" if "conf \<in> set (confs c)" for conf
    using l(1) that by (auto simp: list_all2_conv_all_nth in_set_conv_nth)
  have disj: "set (?f a) \<inter> set (?f b) = {} \<longleftrightarrow> \<not> meets (kind a) (kind b)" if ab: "a \<in> set (confs c)" "b \<in> set (confs c)" for a b
  proof -
    obtain sa sb where "make_server mktime c a = Inr sa" "make_server mktime c b = Inr sb" using made ab by blast
    note m = make_server_ports [OF this(1) assms(2,3) ab(1)] make_server_ports [OF this(2) assms(2,3) ab(2)]
      make_server_cross [OF this(1) assms(4)] make_server_cross [OF this(2) assms(4)]
    obtain t i u j where k: "kind a = (t, i)" "kind b = (u, j)" by (metis surj_pair)
    show ?thesis unfolding k using m unfolding k by (intro kind_ports_meet) (auto simp: doubleton_eq_iff)
  qed
  have "distinct (host_ports ss h) \<longleftrightarrow> sorted_wrt (\<lambda>x y. set (?f x) \<inter> set (?f y) = {}) ?cs"
    using host_ports_confs [OF l(1) assms(2,3)] l(2) by (simp add: distinct_concat_map kind_ports_distinct)
  also have "\<dots> \<longleftrightarrow> sorted_wrt (\<lambda>a b. \<not> meets (kind a) (kind b)) ?cs"
    by (rule iffI; erule sorted_wrt_mono_rel [rotated]) (use disj in simp_all)
  finally show ?thesis .
qed


text \<open>Game server 50 and login server 502 on one host both want port 15021.\<close>

definition sample_entry :: "str \<Rightarrow> int \<Rightarrow> attrs" where
  "sample_entry t i = [(''name'', YStr ''n''), (''type'', YStr t), (''server_id'', YInt i), (''ip'', YStr ''127.0.0.1''),
     (''open_time'', YStr ''2023-03-09 20:00:00'')]"

definition sample_config :: config where
  "sample_config = \<lparr>global_config = [(''port_mode'', YStr ''dev''), (''min_cross_server_id'', YInt 70), (''global_port_offset'', YInt 50000)],
     db_list = [], confs = [sample_entry ''game'' 50, sample_entry ''world'' 2801, sample_entry ''login'' 502]\<rparr>"

lemma sample_config_loads: "\<exists>ss. load_servers (\<lambda>t. 0) sample_config = Inr ss"
proof -
  have "case load_servers (\<lambda>t. 0) sample_config of Inl e \<Rightarrow> False | Inr ss \<Rightarrow> True" by code_simp
  then show ?thesis by (auto split: sum.splits)
qed

lemma sample_config_plain: "plain sample_config" "dev_mode sample_config = Inr True"
  "dict_get (global_config sample_config) ''min_cross_server_id'' = Inr (YInt 70)"
  by code_simp+

lemma dev_ports_distinct_witness:
  "\<exists>ss. load_servers (\<lambda>t. 0) sample_config = Inr ss \<and> \<not> distinct (host_ports ss (YStr ''127.0.0.1''))"
proof -
  obtain ss where s: "load_servers (\<lambda>t. 0) sample_config = Inr ss" using sample_config_loads by blast
  have "\<not> sorted_wrt (\<lambda>a b. \<not> meets (kind a) (kind b))
      (filter (\<lambda>conf. map_of conf ''ip'' = Some (YStr ''127.0.0.1'')) (confs sample_config))" by code_simp
  with dev_ports_distinct [OF s sample_config_plain] s show ?thesis by blast
qed

end
