(* ===== verification/Server_Files.thy ===== *)
theory Server_Files
  imports Server_Config
begin

text \<open>
  What is made of the servers: the configuration files of \<^verbatim>\<open>config.template/generator.py\<close> and the
  host inventory of \<^verbatim>\<open>tools/deploy/make_inventory.py\<close>. The template engine and the JSON text are
  arguments; the state is the target directory. A run that ends in an exception is its exception.
\<close>

subsection \<open>The generator\<close>

record genv =
  render :: "str \<Rightarrow> attrs \<Rightarrow> str res"
  dump_json :: "yaml \<Rightarrow> str"

type_synonym dir = "str \<Rightarrow> str option"

text \<open>\<open>SERVER_DICT\<close>: a later server with the same id replaces an earlier one.\<close>

definition server_dict :: "server_obj list \<Rightarrow> (int \<times> server_obj) list" where
  "server_dict ss = fold (\<lambda>sv. AList.update (s_id sv) sv) ss []"

definition attr_text :: "attrs \<Rightarrow> str \<Rightarrow> str res" where
  "attr_text n k = rbind (getattr n k) yaml_text"

definition do_template :: "genv \<Rightarrow> dir \<Rightarrow> attrs \<Rightarrow> dir res" where
  "do_template e fs n =
     rbind (attr_text n ''template_name'') (\<lambda>t. rbind (render e t n) (\<lambda>x.
     rbind (attr_text n ''node_name'') (\<lambda>f. Inr (fs(f @ ''.lua'' \<mapsto> x)))))"

definition node_step :: "genv \<Rightarrow> str \<Rightarrow> dir \<Rightarrow> attrs \<Rightarrow> dir res" where
  "node_step e ip fs n =
     (if ip = [] then do_template e fs n
      else rbind (getattr n ''ip'') (\<lambda>a. if a \<noteq> YStr ip then Inr fs else do_template e fs n))"

definition do_skynet_server_config :: "genv \<Rightarrow> (int \<times> server_obj) list \<Rightarrow> int \<Rightarrow> str \<Rightarrow> dir \<Rightarrow> dir res" where
  "do_skynet_server_config e d i ip fs = rbind (dict_get d i) (\<lambda>sv. foldR (node_step e ip) fs (node_list sv))"

definition router_line :: "attrs \<Rightarrow> str res" where
  "router_line n =
     rbind (attr_text n ''node_name'') (\<lambda>a. rbind (attr_text n ''ip'') (\<lambda>b.
     rbind (rbind (getattr n ''cluster_port'') yaml_int) (\<lambda>p.
       Inr (a @ '' = '' @ [CHR 0x22] @ b @ '':'' @ int_str p @ [CHR 0x22]))))"

definition make_cluster_router :: "(int \<times> server_obj) list \<Rightarrow> str list res" where
  "make_cluster_router d =
     rbind (mapR (dict_get d) (sort (map fst d))) (\<lambda>svs. mapR router_line (concat (map node_list svs)))"

definition out_attr_list :: "str list" where
  "out_attr_list =
    [''node_name'', ''server_id'', ''name'', ''ip'', ''ssh_ip'', ''area_id'', ''area_name'',
     ''open_time'', ''open_ts'', ''allow_login'', ''state'', ''recommend_status'', ''recommend_priority'',
     ''login_port'', ''ssl_login_port'', ''enable_ssl'']"

definition game_info :: "attrs \<Rightarrow> yaml" where
  "game_info n = YMap (concat (map (\<lambda>k. case map_of n k of None \<Rightarrow> [] | Some v \<Rightarrow> [(k, v)]) out_attr_list))"

definition all_game_step :: "yaml list \<Rightarrow> attrs \<Rightarrow> yaml list res" where
  "all_game_step out n =
     rbind (getattr n ''type'') (\<lambda>t.
       if t \<noteq> YStr ''game'' then Inr out
       else rbind (getattr n ''template_name'') (\<lambda>tpl.
         Inr (if tpl \<noteq> YStr ''game.lua'' then out else out @ [game_info n])))"

definition make_all_game :: "genv \<Rightarrow> (int \<times> server_obj) list \<Rightarrow> dir \<Rightarrow> dir res" where
  "make_all_game e d fs =
     rbind (foldR all_game_step [] (concat (map (node_list \<circ> snd) d))) (\<lambda>out.
       Inr (fs(''all_game.json'' \<mapsto> dump_json e (YList out))))"

text \<open>The last \<open>--ip=\<close> counts.\<close>

definition ip_option :: "str list \<Rightarrow> str" where
  "ip_option argv = fold (\<lambda>a ip. if starts_with ''--ip='' a then drop 5 a else ip) argv []"

text \<open>The new directory and the lines printed.\<close>

definition generate :: "genv \<Rightarrow> (int \<times> server_obj) list \<Rightarrow> str list \<Rightarrow> dir \<Rightarrow> (dir \<times> str list) res" where
  "generate e d argv fs =
     (if ''--cluster_router'' \<in> set argv then rbind (make_cluster_router d) (\<lambda>ls. Inr (fs, ls))
      else if ''--all_game'' \<in> set argv then rbind (make_all_game e d fs) (\<lambda>fs'. Inr (fs', []))
      else if ''--global'' \<in> set argv then
        rbind (make_all_game e d fs) (\<lambda>fs1.
        rbind (foldR (\<lambda>fs (i, sv). if s_type sv \<in> {''game'', ''cross''} then Inr fs
            else do_skynet_server_config e d i [] fs) fs1 d) (\<lambda>fs'. Inr (fs', [])))
      else rbind (if 2 \<le> length argv then mapR int_of (split_on '','' (argv ! 1)) else Inr (map fst d)) (\<lambda>ids.
        rbind (foldR (\<lambda>fs i. do_skynet_server_config e d i (ip_option argv) fs) fs ids) (\<lambda>fs'. Inr (fs', []))))"

subsection \<open>The inventory\<close>

text \<open>A missing attribute of a \<open>DictObj\<close> is \<open>None\<close>.\<close>

definition attr :: "attrs \<Rightarrow> str \<Rightarrow> yaml" where
  "attr d k = (case map_of d k of None \<Rightarrow> YNull | Some v \<Rightarrow> v)"

record inventory =
  game_list :: "attrs list"
  cross_list :: "attrs list"
  login_list :: "attrs list"
  singleton_dict :: "(yaml \<times> attrs) list"
  all_host :: "(yaml \<times> yaml) list"

definition with_ssh :: "attrs \<Rightarrow> attrs" where
  "with_ssh s = (if yaml_true (attr s ''ssh_ip'') then s else AList.update ''ssh_ip'' (attr s ''ip'') s)"

definition add_host :: "attrs \<Rightarrow> (yaml \<times> yaml) list \<Rightarrow> (yaml \<times> yaml) list" where
  "add_host s hs = (if attr s ''ip'' \<in> fst ` set hs then hs else AList.update (attr s ''ip'') (attr s ''ssh_ip'') hs)"

definition TOO_HUGE :: str where "TOO_HUGE = ''game server too huge:''"
definition TOO_SMALL :: str where "TOO_SMALL = ''cross server too small:''"
definition EXISTS :: str where "EXISTS = ''server type already exist:''"

definition type_text :: "yaml \<Rightarrow> str" where
  "type_text t = (case t of YStr s \<Rightarrow> s | YInt i \<Rightarrow> int_str i | YBool b \<Rightarrow> (if b then ''True'' else ''False'') | _ \<Rightarrow> ''None'')"

definition inventory_step :: "attrs \<Rightarrow> inventory \<Rightarrow> attrs \<Rightarrow> inventory res" where
  "inventory_step g v s0 =
     (let s = with_ssh s0; t = attr s ''type''; v = v\<lparr>all_host := add_host s (all_host v)\<rparr> in
      if t = YStr ''game'' then
        rbind (yaml_int (attr s ''server_id'')) (\<lambda>i. rbind (yaml_int (attr g ''min_cross_server_id'')) (\<lambda>lim.
          if lim \<le> i then Inl (RuntimeError (TOO_HUGE @ int_str i)) else Inr (v\<lparr>game_list := game_list v @ [s]\<rparr>)))
      else if t = YStr ''cross'' then
        rbind (yaml_int (attr s ''server_id'')) (\<lambda>i. rbind (yaml_int (attr g ''min_cross_server_id'')) (\<lambda>lim.
          if i < lim then Inl (RuntimeError (TOO_SMALL @ int_str i)) else Inr (v\<lparr>cross_list := cross_list v @ [s]\<rparr>)))
      else if t = YStr ''login'' then Inr (v\<lparr>login_list := login_list v @ [s]\<rparr>)
      else if t \<in> fst ` set (singleton_dict v) then Inl (RuntimeError (EXISTS @ type_text t))
      else Inr (v\<lparr>singleton_dict := AList.update t s (singleton_dict v)\<rparr>))"

definition make_inventory :: "config \<Rightarrow> inventory res" where
  "make_inventory c =
     foldR (inventory_step (global_config c))
       \<lparr>game_list = [], cross_list = [], login_list = [], singleton_dict = [], all_host = []\<rparr> (confs c)"

text \<open>\<open>int2abc\<close>: digits from \<open>string.letters\<close>, the lower-case letters first.\<close>

definition letter :: "nat \<Rightarrow> char" where
  "letter k = char_of (97 + k)"

function int2abc_loop :: "nat \<Rightarrow> str \<Rightarrow> str" where
  "int2abc_loop i ret =
     (let ret' = letter (i mod 26) # ret in if i div 26 = 0 then ret' else int2abc_loop (i div 26) ret')"
  by pat_completeness auto
termination int2abc_loop
  by (relation "measure fst") auto

definition int2abc :: "int \<Rightarrow> str res" where
  "int2abc i = (if 0 \<le> i then Inr (int2abc_loop (nat i) []) else Inl AssertionError)"


subsection \<open>The names of the files\<close>

lemma node_id_inj: "node_id i t = node_id j u \<longleftrightarrow> i = j \<and> t = u"
proof -
  have free: "CHR ''_'' \<notin> set (int_str k)" for k
    using int_str_chars [of "CHR ''_''" k] by (auto simp: is_digit_def)
  have "node_id i t = node_id j u \<Longrightarrow> i = j \<and> t = u"
  proof -
    assume "node_id i t = node_id j u"
    then have e: "int_str i @ CHR ''_'' # t = int_str j @ CHR ''_'' # u" by (simp add: node_id_def)
    have p: "takeWhile (\<lambda>c. c \<noteq> CHR ''_'') (int_str k @ CHR ''_'' # x) = int_str k" for k x
      using free [of k] by (subst takeWhile_append2) auto
    have "int_str i = int_str j" using e p by metis
    then show ?thesis using e int_str_inj by simp
  qed
  then show ?thesis by blast
qed

definition node_names :: "server_obj \<Rightarrow> yaml option list" where
  "node_names sv = map (\<lambda>n. map_of n ''node_name'') (node_list sv)"

lemma add_node_name:
  assumes a: "add_node c ip t port args kw sv = Inr sv'" and g: "map_of (global_config c) ''node_name'' = None"
    and d: "''node_name'' \<notin> fst ` set args"
  shows "node_names sv' = node_names sv @ [Some (YStr (node_id (s_id sv) t))] \<and> s_id sv' = s_id sv"
proof -
  let ?base = "[(''name'', s_name sv), (''ip'', ip), (''node_name'', YStr (node_id (s_id sv) t)),
           (''template_name'', YStr (t @ ''.lua'')), (''server_id'', YInt (s_id sv)),
           (''server_type'', YStr (s_type sv)), (''cluster_port'', YInt port), (''debug_port'', YInt (port + 1))]"
  obtain n where n: "make_node c ?base (args @ kw) = Inr n" "sv' = sv\<lparr>node_list := node_list sv @ [n]\<rparr>"
    and pos: "\<forall>k \<in> fst ` set kw. k \<notin> set positional"
    using a by (fastforce simp: add_node_def res_simps split: if_splits)
  have kw: "map_of kw ''node_name'' = None" using pos by (auto simp: map_of_eq_None_iff positional_def)
  have "map_of args ''node_name'' = None" using d by (simp add: map_of_eq_None_iff)
  then have "map_of (setattrs (args @ kw) (setattrs (global_config c) ?base)) ''node_name'' = map_of ?base ''node_name''"
    using kw g by (simp only: setattrs_append setattrs_other)
  moreover have "''node_name'' \<notin> DB_KEYS" by (simp add: DB_KEYS_def)
  ultimately show ?thesis using n by (simp add: node_names_def make_node_attr [OF n(1)])
qed

text \<open>The names of a server's nodes: its id and the kinds of its nodes.\<close>

definition named_nodes :: "server_obj \<Rightarrow> bool" where
  "named_nodes sv \<longleftrightarrow> (\<exists>ts. distinct ts \<and> node_names sv = map (\<lambda>t. Some (YStr (node_id (s_id sv) t))) ts)"

lemma one_node_named:
  assumes "add_node c ip t port args kw (empty_server t i name) = Inr sv" "map_of (global_config c) ''node_name'' = None"
    "''node_name'' \<notin> fst ` set args"
  shows "named_nodes sv"
  unfolding named_nodes_def using add_node_name [OF assms]
  by (intro exI [of _ "[t]"]) (simp add: empty_server_def node_names_def)

text \<open>A game server has its three nodes, in this order.\<close>

lemma game_node_names:
  assumes r: "Server_game mktime c i name ip kw = Inr sv" and g: "map_of (global_config c) ''node_name'' = None"
  shows "node_names sv = map (\<lambda>t. Some (YStr (node_id i t))) [''game'', ''chat'', ''dynasty''] \<and> s_id sv = i"
proof -
  obtain kw' dev where k: "with_open_ts mktime kw = Inr kw'" "dev_mode c = Inr dev"
    using r by (auto simp: Server_game_def res_simps split: if_splits)
  obtain lp sp p where p: "game_ports dev (use_ssl c kw') i = (lp, sp, p)" by (metis prod_cases3)
  let ?a = "[(''login_port'', YInt lp), (''ssl_login_port'', YInt sp)]"
  obtain s1 s2 where n: "add_node c ip ''game'' p ?a kw' (empty_server ''game'' i name) = Inr s1"
    "add_node c ip ''chat'' (p + 2) [] kw' s1 = Inr s2" "add_node c ip ''dynasty'' (p + 4) [] kw' s2 = Inr sv"
    using r k p by (auto simp: Server_game_def res_simps split: if_splits)
  have "''node_name'' \<notin> fst ` set ?a" by simp
  then have s1: "node_names s1 = [Some (YStr (node_id i ''game''))]" "s_id s1 = i"
    using add_node_name [OF n(1) g] by (simp_all add: empty_server_def node_names_def)
  have s2: "node_names s2 = node_names s1 @ [Some (YStr (node_id i ''chat''))]" "s_id s2 = i"
    using add_node_name [OF n(2) g] s1(2) by simp_all
  have "node_names sv = node_names s2 @ [Some (YStr (node_id i ''dynasty''))]" "s_id sv = i"
    using add_node_name [OF n(3) g] s2(2) by simp_all
  then show ?thesis using s1 s2 by simp
qed

lemma game_named: "Server_game mktime c i name ip kw = Inr sv \<Longrightarrow> map_of (global_config c) ''node_name'' = None \<Longrightarrow> named_nodes sv"
  unfolding named_nodes_def using game_node_names by (intro exI [of _ "[''game'', ''chat'', ''dynasty'']"]) fastforce

lemma make_server_named:
  assumes s: "make_server mktime c conf = Inr sv" and g: "map_of (global_config c) ''node_name'' = None"
  shows "named_nodes sv"
proof -
  obtain t i name ip kw where b: "build_server mktime c t i name ip kw = Inr sv"
    using s by (auto simp: make_server_def res_simps split: option.splits if_splits)
  have game: "named_nodes sv" if "Server_game mktime c i name ip kw = Inr sv"
    using game_named [OF that g] .
  have cross: "named_nodes sv" if "Server_cross c i name ip kw = Inr sv"
    using that g one_node_named by (fastforce simp: Server_cross_def res_simps split: if_splits)
  have single: "named_nodes sv" if "Server_single u d c i name ip kw = Inr sv" for u d
    using that g one_node_named by (fastforce simp: Server_single_def res_simps)
  have gm: "named_nodes sv" if r: "Server_gm_router c i name ip kw = Inr sv"
  proof -
    obtain p a where "add_node c ip ''gm_router'' p a kw (empty_server ''gm_router'' i name) = Inr sv" "''node_name'' \<notin> fst ` set a"
      using r by (fastforce simp: Server_gm_router_def res_simps)
    then show ?thesis using g one_node_named by blast
  qed
  have login: "named_nodes sv" if r: "Server_login c i name ip kw = Inr sv"
  proof -
    obtain p a where "add_node c ip ''login'' p a kw (empty_server ''login'' i name) = Inr sv" "''node_name'' \<notin> fst ` set a"
      using r by (fastforce simp: Server_login_def Let_def res_simps)
    then show ?thesis using g one_node_named by blast
  qed
  show ?thesis using b game cross single gm login by (simp add: build_server_def split: if_splits)
qed


lemma load_named:
  assumes "load_servers mktime c = Inr ss" "map_of (global_config c) ''node_name'' = None" "sv \<in> set ss"
  shows "named_nodes sv"
proof -
  obtain ss0 r where l: "list_all2 (\<lambda>conf sv. make_server mktime c conf = Inr sv) (confs c) ss0" "ss = map (set_router r) ss0"
    using load_pairs [OF assms(1)] by blast
  then obtain s0 conf where s0: "make_server mktime c conf = Inr s0" "sv = set_router r s0"
    using assms(3) by (auto simp: list_all2_conv_all_nth in_set_conv_nth) blast
  have "map_of (setattrs (router_attrs r) n) ''node_name'' = map_of n ''node_name''" for n
    by (intro setattrs_other) (simp add: router_attrs_def)
  then show ?thesis using make_server_named [OF s0(1) assms(2)] s0(2)
    by (simp add: named_nodes_def node_names_def set_router_def o_def)
qed

lemma add_node_type: "add_node c ip t port args kw sv = Inr sv' \<Longrightarrow> s_type sv' = s_type sv"
  by (auto simp: add_node_def res_simps split: if_splits)

lemma build_server_game: "build_server mktime c t i name ip kw = Inr sv \<Longrightarrow> s_type sv = ''game'' \<Longrightarrow> t = ''game''"
  by (auto simp: build_server_def Server_cross_def Server_single_def Server_gm_router_def Server_login_def Let_def empty_server_def
    res_simps dest!: add_node_type split: if_splits)

lemma loaded_game_names:
  assumes "load_servers mktime c = Inr ss" and g: "map_of (global_config c) ''node_name'' = None" and "sv \<in> set ss" "s_type sv = ''game''"
  shows "node_names sv = map (\<lambda>t. Some (YStr (node_id (s_id sv) t))) [''game'', ''chat'', ''dynasty'']"
proof -
  obtain ss0 r where l: "list_all2 (\<lambda>conf sv. make_server mktime c conf = Inr sv) (confs c) ss0" "ss = map (set_router r) ss0"
    using load_pairs [OF assms(1)] by blast
  then obtain s0 conf where s0: "make_server mktime c conf = Inr s0" "sv = set_router r s0"
    using assms(3) by (auto simp: list_all2_conv_all_nth in_set_conv_nth) blast
  obtain t i name ip kw where b: "build_server mktime c t i name ip kw = Inr s0"
    using s0(1) by (auto simp: make_server_def res_simps split: option.splits if_splits)
  have "s_type s0 = ''game''" using s0(2) assms(4) by (simp add: set_router_def)
  with b have "Server_game mktime c i name ip kw = Inr s0" using build_server_game [OF b] by (simp add: build_server_def)
  note n = game_node_names [OF this g]
  have "map_of (setattrs (router_attrs r) n) ''node_name'' = map_of n ''node_name''" for n
    by (intro setattrs_other) (simp add: router_attrs_def)
  then have "node_names sv = node_names s0" "s_id sv = s_id s0" using s0(2) by (simp_all add: node_names_def set_router_def)
  with n show ?thesis by simp
qed

subsection \<open>What the generator writes\<close>

definition node_file :: "attrs \<Rightarrow> str" where
  "node_file n = (case map_of n ''node_name'' of Some (YStr f) \<Rightarrow> f @ ''.lua'' | _ \<Rightarrow> [])"

definition rendered :: "genv \<Rightarrow> attrs \<Rightarrow> str option" where
  "rendered e n = (case map_of n ''template_name'' of
     Some (YStr t) \<Rightarrow> (case render e t n of Inr x \<Rightarrow> Some x | Inl _ \<Rightarrow> None) | _ \<Rightarrow> None)"

lemma yaml_text_Inr: "yaml_text y = Inr s \<longleftrightarrow> y = YStr s"
  by (cases y) auto

lemma yaml_int_Inr: "yaml_int y = Inr i \<longleftrightarrow> y = YInt i"
  by (cases y) auto

lemma do_template_writes:
  "do_template e fs n = Inr fs' \<Longrightarrow> fs' = fs(node_file n := rendered e n) \<and> rendered e n \<noteq> None"
  by (auto simp: do_template_def attr_text_def getattr_def res_simps yaml_text_Inr node_file_def rendered_def)

lemma templates_loop:
  "foldR (do_template e) fs ns = Inr fs' \<Longrightarrow> distinct (map node_file ns) \<Longrightarrow>
   (\<forall>n \<in> set ns. fs' (node_file n) = rendered e n \<and> rendered e n \<noteq> None) \<and> (\<forall>f. f \<notin> node_file ` set ns \<longrightarrow> fs' f = fs f)"
proof (induction ns arbitrary: fs)
  case (Cons n ns)
  obtain fs1 where f: "do_template e fs n = Inr fs1" "foldR (do_template e) fs1 ns = Inr fs'" using Cons.prems(1) by (auto simp: res_simps)
  have w: "fs1 = fs(node_file n := rendered e n)" "rendered e n \<noteq> None" using do_template_writes [OF f(1)] by blast+
  have ih: "\<forall>m \<in> set ns. fs' (node_file m) = rendered e m \<and> rendered e m \<noteq> None" "\<forall>f. f \<notin> node_file ` set ns \<longrightarrow> fs' f = fs1 f"
    using Cons.IH [OF f(2)] Cons.prems(2) by simp_all
  then show ?case using w Cons.prems(2) by auto
qed simp

abbreviation all_nodes :: "(int \<times> server_obj) list \<Rightarrow> attrs list" where
  "all_nodes d \<equiv> concat (map (\<lambda>p. node_list (snd p)) d)"

lemma run_all:
  "\<forall>p \<in> set ps. map_of d (fst p) = Some (snd p) \<Longrightarrow>
   foldR (\<lambda>fs i. do_skynet_server_config e d i [] fs) fs (map fst ps) = foldR (do_template e) fs (all_nodes ps)"
proof (induction ps arbitrary: fs)
  case (Cons p ps)
  have "node_step e [] = do_template e" by (intro ext) (simp add: node_step_def)
  then show ?case using Cons by (simp add: do_skynet_server_config_def dict_get_def foldR_append)
qed simp

lemma server_dict_ok:
  "dict_ok (server_dict ss) \<and> map_of (server_dict ss) i = find (\<lambda>sv. s_id sv = i) (rev ss)"
  by (induction ss rule: rev_induct) (auto simp: server_dict_def)

lemma server_dict_mem: "(i, sv) \<in> set (server_dict ss) \<Longrightarrow> s_id sv = i \<and> sv \<in> set ss"
proof -
  assume "(i, sv) \<in> set (server_dict ss)"
  then have "find (\<lambda>sv. s_id sv = i) (rev ss) = Some sv" using server_dict_ok dict_ok_mem by metis
  then have "sv \<in> set (rev ss) \<and> s_id sv = i" unfolding find_Some_iff by (metis nth_mem)
  then show ?thesis by simp
qed

lemma names_files: "node_names sv = map (\<lambda>t. Some (YStr (f t))) ts \<Longrightarrow> map node_file (node_list sv) = map (\<lambda>t. f t @ ''.lua'') ts"
proof -
  assume m: "node_names sv = map (\<lambda>t. Some (YStr (f t))) ts"
  let ?g = "\<lambda>x. case x of Some (YStr f) \<Rightarrow> f @ ''.lua'' | _ \<Rightarrow> []"
  from arg_cong [OF m, of "map ?g"] show ?thesis
    by (simp add: o_def node_names_def node_file_def [abs_def])
qed

lemma named_files: "named_nodes sv \<Longrightarrow> \<exists>ts. distinct ts \<and> map node_file (node_list sv) = map (\<lambda>t. node_id (s_id sv) t @ ''.lua'') ts"
  unfolding named_nodes_def using names_files by blast

lemma files_distinct:
  "distinct (map fst d) \<Longrightarrow> \<forall>p \<in> set d. s_id (snd p) = fst p \<and> named_nodes (snd p) \<Longrightarrow> distinct (map node_file (all_nodes d))"
proof (induction d)
  case (Cons p d)
  obtain ts where ts: "distinct ts" "map node_file (node_list (snd p)) = map (\<lambda>t. node_id (fst p) t @ ''.lua'') ts"
    using named_files [of "snd p"] Cons.prems(2) by auto
  have other: "node_file n \<noteq> node_id (fst p) t @ ''.lua''" if "q \<in> set d" "n \<in> set (node_list (snd q))" for q n t
  proof -
    have q: "s_id (snd q) = fst q" "named_nodes (snd q)" using Cons.prems(2) that(1) by simp_all
    from named_files [OF q(2)] obtain us where "map node_file (node_list (snd q)) = map (\<lambda>t. node_id (fst q) t @ ''.lua'') us"
      unfolding q(1) by blast
    then have "node_file n \<in> set (map (\<lambda>t. node_id (fst q) t @ ''.lua'') us)" using that(2) by (metis imageI list.set_map)
    moreover have "fst q \<noteq> fst p" using Cons.prems(1) that(1) by (metis distinct.simps(2) image_eqI list.set_map list.simps(9))
    ultimately show ?thesis by (auto simp: node_id_inj)
  qed
  have "distinct (map node_file (node_list (snd p)))" unfolding ts(2) using ts(1) by (simp add: distinct_map inj_on_def node_id_inj)
  moreover have "f \<notin> set (map node_file (all_nodes d))" if "f \<in> set (map node_file (node_list (snd p)))" for f
  proof
    assume "f \<in> set (map node_file (all_nodes d))"
    then obtain q n where q: "q \<in> set d" "n \<in> set (node_list (snd q))" "f = node_file n" by auto
    moreover obtain t where "f = node_id (fst p) t @ ''.lua''" using \<open>f \<in> set (map node_file (node_list (snd p)))\<close> unfolding ts(2) by auto
    ultimately show False using other by blast
  qed
  ultimately show ?case using Cons by (simp add: disjoint_iff)
qed simp

lemma generate_all:
  assumes "load_servers mktime c = Inr ss" and "map_of (global_config c) ''node_name'' = None"
    and "generate e (server_dict ss) [''generator.py''] fs = Inr (fs', printed)"
  shows "distinct (map node_file (all_nodes (server_dict ss))) \<and> foldR (do_template e) fs (all_nodes (server_dict ss)) = Inr fs'"
proof -
  let ?d = "server_dict ss"
  have ids: "\<forall>p \<in> set ?d. s_id (snd p) = fst p \<and> named_nodes (snd p)"
    using server_dict_mem load_named [OF assms(1,2)] by fastforce
  have ok: "distinct (map fst ?d)" using server_dict_ok by (simp add: dict_ok_def)
  have d: "distinct (map node_file (all_nodes ?d))" by (rule files_distinct [OF ok ids])
  have "\<forall>p \<in> set ?d. map_of ?d (fst p) = Some (snd p)" using ok by (simp add: map_of_eq_Some_iff)
  from run_all [OF this] show ?thesis
    using d assms(3) by (auto simp: generate_def ip_option_def starts_with_def res_simps)
qed

text \<open>
  C25. A run of the generator without options writes one file for every node of every server, the last
  one of each id, the text rendered from the node's own template and attributes; no two nodes share a
  file and no other file is touched.
\<close>

theorem generate_files:
  assumes "load_servers mktime c = Inr ss" and "map_of (global_config c) ''node_name'' = None"
    and "generate e (server_dict ss) [''generator.py''] fs = Inr (fs', printed)"
  shows "distinct (map node_file (all_nodes (server_dict ss))) \<and>
    (\<forall>i. map_of (server_dict ss) i = find (\<lambda>sv. s_id sv = i) (rev ss)) \<and>
    (\<forall>n \<in> set (all_nodes (server_dict ss)). fs' (node_file n) = rendered e n \<and> rendered e n \<noteq> None) \<and>
    (\<forall>f. f \<notin> node_file ` set (all_nodes (server_dict ss)) \<longrightarrow> fs' f = fs f)"
  using generate_all [OF assms] templates_loop server_dict_ok by blast


lemma strip_tail:
  assumes "x \<noteq> []" "\<not> is_ws (last x)" "\<not> is_ws (hd x)"
  shows "\<exists>r. strip (x @ a) = x @ r"
proof -
  obtain y c where "x = y @ [c]" using assms(1) by (metis rev_exhaust)
  then have x: "dropWhile is_ws (rev x) = rev x" using assms(2) by simp
  have "dropWhile is_ws (x @ a) = x @ a" using assms(1,3) by (cases x) simp_all
  moreover have "\<exists>r. dropWhile is_ws (rev a @ rev x) = r @ rev x"
    using x by (cases "\<forall>c \<in> set (rev a). is_ws c") (auto simp: dropWhile_append)
  ultimately show ?thesis by (fastforce simp: strip_def)
qed

text \<open>With \<open>--ip\<close> as the only option the generator takes the option itself for a list of ids.\<close>

lemma generate_ip_only: "generate e d [''generator.py'', ''--ip='' @ x] fs = Inl ValueError"
proof -
  obtain a ys where s: "split_on '','' (''--ip='' @ x) = (''--ip='' @ a) # ys"
  proof (cases "CHR '','' \<in> set x")
    case True
    then obtain a b where "x = a @ CHR '','' # b" "CHR '','' \<notin> set a" by (metis split_list_first)
    then show ?thesis using that split_on_single_Cons [of "CHR '',''" "''--ip='' @ a" b] by simp
  next
    case False
    then show ?thesis using that split_on_single_Nil [of "CHR '',''" "''--ip='' @ x"] by simp
  qed
  have "\<not> is_ws CHR ''-''" "\<not> is_ws CHR ''=''" by (simp_all add: is_ws_def)
  then obtain r where "strip (''--ip='' @ a) = ''--ip='' @ r"
    using strip_tail [of "''--ip=''" a] by auto
  then have "int_of (''--ip='' @ a) = Inl ValueError"
    by (simp add: int_of_def parse_int_def isdigit_def is_digit_def)
  then show ?thesis using s by (simp add: generate_def)
qed

subsection \<open>The groups of the inventory\<close>

definition inv_groups :: "inventory \<Rightarrow> attrs list" where
  "inv_groups v = game_list v @ cross_list v @ login_list v @ map snd (singleton_dict v)"

definition inventory_ok :: "attrs \<Rightarrow> attrs list \<Rightarrow> inventory \<Rightarrow> bool" where
  "inventory_ok g cs v \<longleftrightarrow>
     mset (inv_groups v) = mset (map with_ssh cs) \<and>
     (\<forall>s \<in> set (game_list v). attr s ''type'' = YStr ''game'' \<and>
        (\<exists>i lim. attr s ''server_id'' = YInt i \<and> attr g ''min_cross_server_id'' = YInt lim \<and> i < lim)) \<and>
     (\<forall>s \<in> set (cross_list v). attr s ''type'' = YStr ''cross'' \<and>
        (\<exists>i lim. attr s ''server_id'' = YInt i \<and> attr g ''min_cross_server_id'' = YInt lim \<and> lim \<le> i)) \<and>
     (\<forall>s \<in> set (login_list v). attr s ''type'' = YStr ''login'') \<and>
     (\<forall>(t, s) \<in> set (singleton_dict v). attr s ''type'' = t \<and> t \<notin> YStr ` {''game'', ''cross'', ''login''}) \<and>
     distinct (map fst (singleton_dict v)) \<and> distinct (map fst (all_host v)) \<and>
     (\<forall>ip. map_of (all_host v) ip = map_option (\<lambda>s. attr s ''ssh_ip'') (find (\<lambda>s. attr s ''ip'' = ip) (map with_ssh cs)))"

lemma inventory_step_ok:
  assumes i: "inventory_ok g cs v" and s: "inventory_step g v s0 = Inr v'"
  shows "inventory_ok g (cs @ [s0]) v'"
proof -
  let ?s = "with_ssh s0"
  let ?t = "attr ?s ''type''"
  have hosts: "distinct (map fst (add_host ?s (all_host v)))"
    "map_of (add_host ?s (all_host v)) ip = map_option (\<lambda>s. attr s ''ssh_ip'') (find (\<lambda>s. attr s ''ip'' = ip) (map with_ssh (cs @ [s0])))" for ip
  proof -
    show "distinct (map fst (add_host ?s (all_host v)))" using i by (simp add: inventory_ok_def add_host_def distinct_update)
    have m: "map_of (all_host v) ip = map_option (\<lambda>s. attr s ''ssh_ip'') (find (\<lambda>s. attr s ''ip'' = ip) (map with_ssh cs))" for ip
      using i by (simp add: inventory_ok_def)
    have k: "attr ?s ''ip'' \<in> fst ` set (all_host v) \<longleftrightarrow> map_of (all_host v) (attr ?s ''ip'') \<noteq> None"
      by (simp add: map_of_eq_None_iff)
    show "map_of (add_host ?s (all_host v)) ip = map_option (\<lambda>s. attr s ''ssh_ip'') (find (\<lambda>s. attr s ''ip'' = ip) (map with_ssh (cs @ [s0])))"
      unfolding add_host_def k m by (auto simp: find_append m split: option.splits)
  qed
  let ?v = "v\<lparr>all_host := add_host ?s (all_host v)\<rparr>"
  show ?thesis
  proof (cases "?t = YStr ''game''")
    case True
    then obtain i lim where "attr ?s ''server_id'' = YInt i" "attr g ''min_cross_server_id'' = YInt lim" "i < lim"
      "v' = ?v\<lparr>game_list := game_list v @ [?s]\<rparr>"
      using s by (auto simp: inventory_step_def Let_def res_simps yaml_int_Inr split: if_splits)
    then show ?thesis using i hosts True by (simp add: inventory_ok_def inv_groups_def)
  next
    case g: False
    show ?thesis
    proof (cases "?t = YStr ''cross''")
      case True
      then obtain i lim where "attr ?s ''server_id'' = YInt i" "attr g ''min_cross_server_id'' = YInt lim" "lim \<le> i"
        "v' = ?v\<lparr>cross_list := cross_list v @ [?s]\<rparr>"
        using s by (auto simp: inventory_step_def Let_def res_simps yaml_int_Inr split: if_splits)
      then show ?thesis using i hosts True by (simp add: inventory_ok_def inv_groups_def)
    next
      case c: False
      show ?thesis
      proof (cases "?t = YStr ''login''")
        case True
        then have "v' = ?v\<lparr>login_list := login_list v @ [?s]\<rparr>" using s by (simp add: inventory_step_def Let_def)
        then show ?thesis using i hosts True by (simp add: inventory_ok_def inv_groups_def)
      next
        case False
        then have "?t \<notin> fst ` set (singleton_dict v)" "v' = ?v\<lparr>singleton_dict := singleton_dict v @ [(?t, ?s)]\<rparr>"
          using s g c by (auto simp: inventory_step_def Let_def update_fresh split: if_splits)
        then show ?thesis using i hosts g c False by (simp add: inventory_ok_def inv_groups_def)
      qed
    qed
  qed
qed


lemma inventory_loop: "foldR (inventory_step g) v cs = Inr v' \<Longrightarrow> inventory_ok g ds v \<Longrightarrow> inventory_ok g (ds @ cs) v'"
proof (induction cs arbitrary: v ds)
  case (Cons s cs)
  then obtain v1 where v1: "inventory_step g v s = Inr v1" "foldR (inventory_step g) v1 cs = Inr v'" by (auto simp: res_simps)
  from Cons.IH [OF v1(2) inventory_step_ok [OF Cons.prems(2) v1(1)]] show ?case by simp
qed simp

text \<open>
  The inventory puts every server of the file into exactly one group, game servers below and cross
  servers from the limit on, at most one server of every other kind, and every address once, with the
  SSH address of its first server.
\<close>

theorem inventory_groups:
  assumes "make_inventory c = Inr v"
  shows "inventory_ok (global_config c) (confs c) v"
proof -
  let ?v = "\<lparr>game_list = [], cross_list = [], login_list = [], singleton_dict = [], all_host = []\<rparr>"
  have "inventory_ok (global_config c) [] ?v" by (simp add: inventory_ok_def inv_groups_def)
  from inventory_loop [OF assms [unfolded make_inventory_def] this] show ?thesis by simp
qed

subsection \<open>The hypotheses can hold\<close>

definition sample_genv :: genv where
  "sample_genv = \<lparr>render = (\<lambda>t n. Inr t), dump_json = (\<lambda>y. [])\<rparr>"

definition one_world :: config where
  "one_world = sample_config\<lparr>confs := [sample_entry ''world'' 2801]\<rparr>"

lemma sample_generates:
  "\<exists>ss fs' ls. load_servers (\<lambda>t. 0) one_world = Inr ss \<and>
     generate sample_genv (server_dict ss) [''generator.py''] (\<lambda>f. None) = Inr (fs', ls)"
proof -
  have "case load_servers (\<lambda>t. 0) one_world of Inl e \<Rightarrow> False | Inr ss \<Rightarrow>
      (case generate sample_genv (server_dict ss) [''generator.py''] (\<lambda>f. None) of Inl e \<Rightarrow> False | Inr r \<Rightarrow> True)"
    by code_simp
  then show ?thesis by (auto split: sum.splits)
qed

lemma generate_files_witness:
  "\<exists>ss fs' ls. generate sample_genv (server_dict ss) [''generator.py''] (\<lambda>f. None) = Inr (fs', ls) \<and>
     (\<forall>n \<in> set (all_nodes (server_dict ss)). fs' (node_file n) \<noteq> None)"
proof -
  obtain ss fs' ls where l: "load_servers (\<lambda>t. 0) one_world = Inr ss"
    "generate sample_genv (server_dict ss) [''generator.py''] (\<lambda>f. None) = Inr (fs', ls)" using sample_generates by blast
  have "map_of (global_config one_world) ''node_name'' = None" by code_simp
  from generate_files [OF l(1) this l(2)] l(2) show ?thesis by metis
qed

lemma inventory_groups_witness:
  "\<exists>v. make_inventory sample_config = Inr v \<and> mset (inv_groups v) = mset (map with_ssh (confs sample_config))"
proof -
  have "case make_inventory sample_config of Inl e \<Rightarrow> False | Inr v \<Rightarrow> True" by code_simp
  then obtain v where v: "make_inventory sample_config = Inr v" by (auto split: sum.splits)
  with inventory_groups [OF v] show ?thesis by (auto simp: inventory_ok_def)
qed

end
