(* ===== verification/Log_Node.thy ===== *)
theory Log_Node
  imports Complex_Main Py_Time "HOL-Library.List_Lexorder" "HOL-Library.Char_ord"
begin

text \<open>
  The log upload of a game host, \<^verbatim>\<open>tools/log_tools/node_main.py\<close>: the rows of the log files, gathered by
  log name into one file each (\<open>check_upload2center\<close>, \<open>check_upload2userinfo\<close>, \<open>check_upload2center_hour\<close>),
  and the loop that starts the uploads by the clock. The tree of log files is an argument, as are
  \<open>json.loads\<close> and the text of a value; a line's \<open>data\<close> is a list or a dict. What is
  uploaded is the result; rsync and the removal of the files afterwards are left out.
\<close>

subsection \<open>The clock\<close>

text \<open>
  A time is a rational number of seconds, \<open>z\<close> the distance of the local zone; \<open>datetime.now()\<close> and the
  \<open>time.time()\<close> beside it are one reading of the clock.
\<close>

definition local_secs :: "int \<Rightarrow> rat \<Rightarrow> int" where
  "local_secs z t = \<lfloor>t\<rfloor> + z"

definition slot :: "int \<Rightarrow> int \<Rightarrow> rat \<Rightarrow> int" where
  "slot z p t = local_secs z t div p"

definition day_of :: "int \<Rightarrow> rat \<Rightarrow> int" where
  "day_of z t = slot z 86400 t"

definition hour_of_day :: "int \<Rightarrow> rat \<Rightarrow> int" where
  "hour_of_day z t = slot z 3600 t mod 24"

subsection \<open>One line\<close>

datatype 'v payload = PList "'v list" | PDict "(str \<times> 'v) list"

record 'v line_entry =
  e_data :: "'v payload option"
  e_length :: "int option"

record 'v lenv =
  game_id :: int
  loads :: "str \<Rightarrow> 'v line_entry res"
  shown :: "'v \<Rightarrow> str"

definition make_server_id :: "'v lenv \<Rightarrow> str \<Rightarrow> str res" where
  "make_server_id e s = rbind (int_of s) (\<lambda>i. Inr (''13'' @ pad 4 (game_id e) @ int_str (i + 100000)))"

definition index_of_sub :: "str \<Rightarrow> str \<Rightarrow> nat res" where
  "index_of_sub p s = of_option ValueError (find_sub p s)"

text \<open>A Lua table with holes comes as a dict with the keys from \<open>"1"\<close>.\<close>

definition row_values :: "'v lenv \<Rightarrow> 'v payload \<Rightarrow> str list res" where
  "row_values e p =
     (case p of
        PList vs \<Rightarrow> Inr (map (shown e) vs)
      | PDict d \<Rightarrow> rbind (mapR (\<lambda>(k, v). int_of k) d) (\<lambda>ks.
          if ks = [] then Inl ValueError
          else Inr (map (\<lambda>k. case map_of d (int_str k) of None \<Rightarrow> [] | Some v \<Rightarrow> shown e v) [1..Max (set ks)])))"

definition log_name :: "str \<Rightarrow> str res" where
  "log_name head =
     rbind (of_option ValueError (rfind_sub ''['' head)) (\<lambda>a.
     rbind (of_option ValueError (rfind_sub '']'' head)) (\<lambda>b. Inr (drop (a + 1) (take b head))))"

definition parse_line :: "'v lenv \<Rightarrow> str \<Rightarrow> (str \<times> str list) res" where
  "parse_line e line =
     rbind (index_of_sub ''{'' line) (\<lambda>i.
     rbind (loads e (drop i line)) (\<lambda>x.
     rbind (log_name (take i line)) (\<lambda>name.
     rbind (of_option KeyError (e_data x)) (\<lambda>p.
     rbind (row_values e p) (\<lambda>data.
     rbind (of_option KeyError (e_length x)) (\<lambda>n.
       Inr (name, data @ replicate (nat n - length data) [])))))))"

subsection \<open>One upload\<close>

record wdir =
  w_root :: str
  w_files :: "(str \<times> str list) list"

record upload =
  u_root :: str
  u_prefix :: str
  u_suffix :: str
  u_flagged :: "str \<Rightarrow> bool"
  u_sep :: str
  u_date :: str

record ustate =
  server_id :: str
  outs :: "(str \<times> str \<times> str) list"

definition ROW_END :: str where "ROW_END = [CHR 0x0A]"

definition wanted :: "upload \<Rightarrow> wdir \<Rightarrow> (str \<times> str list) list" where
  "wanted u d =
     (if ends_with (u_root u) (w_root d)
      then sort_key fst (filter (\<lambda>(f, _). starts_with (u_prefix u) f \<and> ends_with (u_suffix u) f \<and> \<not> u_flagged u f) (w_files d))
      else [])"

text \<open>\<open>root.split("/")[-2]\<close> up to its first underscore, without its first character.\<close>

definition server_of :: "'v lenv \<Rightarrow> str \<Rightarrow> str res" where
  "server_of e path =
     (let parts = split_on ''/'' path in
      if length parts < 2 then Inl IndexError
      else let s = parts ! (length parts - 2) in
        rbind (index_of_sub ''_'' s) (\<lambda>i. make_server_id e (drop 1 (take i s))))"

definition out_file_name :: "'v lenv \<Rightarrow> upload \<Rightarrow> str \<Rightarrow> str \<Rightarrow> str" where
  "out_file_name e u sid name = join ''_'' [int_str (game_id e), sid, lower name, u_date u] @ ''.log''"

definition row_line :: "upload \<Rightarrow> str list \<Rightarrow> str" where
  "row_line u data = join (u_sep u) data @ ROW_END"

definition add_line :: "'v lenv \<Rightarrow> upload \<Rightarrow> ustate \<Rightarrow> str \<Rightarrow> ustate res" where
  "add_line e u st line =
     rbind (parse_line e line) (\<lambda>(name, data).
       let (f, c) = (case map_of (outs st) name of None \<Rightarrow> (out_file_name e u (server_id st) name, []) | Some fc \<Rightarrow> fc)
       in Inr (st\<lparr>outs := AList.update name (f, c @ row_line u data) (outs st)\<rparr>))"

definition scan_dir :: "'v lenv \<Rightarrow> upload \<Rightarrow> ustate \<Rightarrow> wdir \<Rightarrow> ustate res" where
  "scan_dir e u st d =
     (if wanted u d = [] then Inr st
      else rbind (if server_id st = [] then server_of e (w_root d) else Inr (server_id st)) (\<lambda>i.
        foldR (add_line e u) (st\<lparr>server_id := i\<rparr>) (concat (map snd (wanted u d)))))"

text \<open>The files made, by log name.\<close>

definition run_upload :: "'v lenv \<Rightarrow> upload \<Rightarrow> wdir list \<Rightarrow> (str \<times> str \<times> str) list res" where
  "run_upload e u walk =
     rbind (foldR (scan_dir e u) \<lparr>server_id = [], outs = []\<rparr> walk) (\<lambda>st. Inr (outs st))"

definition upload2center :: "int \<Rightarrow> rat \<Rightarrow> upload" where
  "upload2center z t =
     \<lparr>u_root = compact (day_of z t - 1), u_prefix = ''bdclog_'', u_suffix = ''.log'',
      u_flagged = ends_with ''_upflag.log'', u_sep = [CHR 0x1B, CHR 0x7C], u_date = dashed (day_of z t - 1)\<rparr>"

definition upload2userinfo :: "int \<Rightarrow> rat \<Rightarrow> upload" where
  "upload2userinfo z t =
     \<lparr>u_root = compact (day_of z t), u_prefix = ''userinfo_'', u_suffix = ''.log'',
      u_flagged = ends_with ''_upflag.log'', u_sep = [CHR 0x1B, CHR 0x7C], u_date = dashed (day_of z t - 1)\<rparr>"

definition upload2center_hour :: "int \<Rightarrow> rat \<Rightarrow> upload" where
  "upload2center_hour z t =
     (let hh = pad 2 (hour_of_day z t) in
      \<lparr>u_root = compact (day_of z t), u_prefix = ''realtime_'', u_suffix = compact (day_of z t) @ hh @ ''.log'',
       u_flagged = contains ''upflag'', u_sep = ''$$'', u_date = dashed (day_of z t) @ ''_'' @ hh\<rparr>)"

definition check_upload2center :: "'v lenv \<Rightarrow> int \<Rightarrow> rat \<Rightarrow> wdir list \<Rightarrow> (str \<times> str \<times> str) list res" where
  "check_upload2center e z t walk = run_upload e (upload2center z t) walk"

definition check_upload2userinfo :: "'v lenv \<Rightarrow> int \<Rightarrow> rat \<Rightarrow> wdir list \<Rightarrow> (str \<times> str \<times> str) list res" where
  "check_upload2userinfo e z t walk = run_upload e (upload2userinfo z t) walk"

definition check_upload2center_hour :: "'v lenv \<Rightarrow> int \<Rightarrow> rat \<Rightarrow> wdir list \<Rightarrow> (str \<times> str \<times> str) list res" where
  "check_upload2center_hour e z t walk = run_upload e (upload2center_hour z t) walk"


subsection \<open>Every row lands in the file of its name\<close>

abbreviation lines_of :: "upload \<Rightarrow> wdir \<Rightarrow> str list" where
  "lines_of u d \<equiv> concat (map snd (wanted u d))"

definition scanned :: "upload \<Rightarrow> wdir list \<Rightarrow> str list" where
  "scanned u walk = concat (map (lines_of u) walk)"

definition rows_of :: "str \<Rightarrow> (str \<times> str list) list \<Rightarrow> str list list" where
  "rows_of name rows = map snd (filter (\<lambda>r. fst r = name) rows)"

definition file_text :: "upload \<Rightarrow> str \<Rightarrow> (str \<times> str list) list \<Rightarrow> str" where
  "file_text u name rows = concat (map (row_line u) (rows_of name rows))"

definition gathered :: "'v lenv \<Rightarrow> upload \<Rightarrow> str \<Rightarrow> (str \<times> str list) list \<Rightarrow> (str \<times> str \<times> str) list \<Rightarrow> bool" where
  "gathered e u sid rows out \<longleftrightarrow> dict_ok out \<and>
     (\<forall>name. map_of out name = (if name \<in> fst ` set rows then Some (out_file_name e u sid name, file_text u name rows) else None))"

lemma add_line_gathers:
  assumes a: "add_line e u st line = Inr st'" and g: "gathered e u (server_id st) rows (outs st)"
  shows "\<exists>row. parse_line e line = Inr row \<and> server_id st' = server_id st \<and> gathered e u (server_id st) (rows @ [row]) (outs st')"
proof -
  obtain name data where p: "parse_line e line = Inr (name, data)" using a by (auto simp: add_line_def res_simps)
  obtain f c where fc: "(case map_of (outs st) name of None \<Rightarrow> (out_file_name e u (server_id st) name, []) | Some fc \<Rightarrow> fc) = (f, c)"
    by (metis surj_pair)
  have o: "outs st' = AList.update name (f, c @ row_line u data) (outs st)" "server_id st' = server_id st"
    using a p fc by (auto simp: add_line_def)
  have l: "map_of (outs st) n = (if n \<in> fst ` set rows then Some (out_file_name e u (server_id st) n, file_text u n rows) else None)" for n
    using g by (simp add: gathered_def)
  have "f = out_file_name e u (server_id st) name \<and> c = file_text u name rows"
  proof (cases "name \<in> fst ` set rows")
    case False
    then have "filter (\<lambda>r. fst r = name) rows = []" by (auto simp: filter_empty_conv)
    then have "file_text u name rows = []" by (simp add: file_text_def rows_of_def)
    then show ?thesis using fc l [of name] False by simp
  qed (use fc l [of name] in simp)
  moreover have "file_text u n (rows @ [(name, data)]) = file_text u n rows @ (if n = name then row_line u data else [])" for n
    by (simp add: file_text_def rows_of_def)
  ultimately have "gathered e u (server_id st) (rows @ [(name, data)]) (outs st')"
    using g o(1) l by (simp add: gathered_def)
  then show ?thesis using p o(2) by blast
qed

lemma lines_gather:
  "foldR (add_line e u) st ls = Inr st' \<Longrightarrow> gathered e u (server_id st) rows (outs st) \<Longrightarrow>
   \<exists>new. mapR (parse_line e) ls = Inr new \<and> server_id st' = server_id st \<and> gathered e u (server_id st) (rows @ new) (outs st')"
proof (induction ls arbitrary: st rows)
  case (Cons l ls)
  obtain st1 where s: "add_line e u st l = Inr st1" "foldR (add_line e u) st1 ls = Inr st'" using Cons.prems(1) by (auto simp: res_simps)
  obtain row where r: "parse_line e l = Inr row" "server_id st1 = server_id st" "gathered e u (server_id st) (rows @ [row]) (outs st1)"
    using add_line_gathers [OF s(1) Cons.prems(2)] by blast
  obtain new where "mapR (parse_line e) ls = Inr new" "server_id st' = server_id st1" "gathered e u (server_id st1) ((rows @ [row]) @ new) (outs st')"
    using Cons.IH [OF s(2), of "rows @ [row]"] r by auto
  then show ?case using r by (intro exI [of _ "row # new"]) simp
qed simp

lemma gathered_Nil: "gathered e u sid [] out \<longleftrightarrow> out = []"
proof
  assume g: "gathered e u sid [] out"
  show "out = []"
  proof (cases out)
    case (Cons x xs)
    then have "map_of out (fst x) \<noteq> None" by (simp add: map_of_eq_None_iff)
    then show ?thesis using g by (simp add: gathered_def)
  qed
qed (simp add: gathered_def)

lemma make_server_id_some: "make_server_id e s = Inr i \<Longrightarrow> i \<noteq> []"
  by (auto simp: make_server_id_def res_simps)

lemma server_of_some: "server_of e path = Inr i \<Longrightarrow> i \<noteq> []"
  using make_server_id_some by (auto simp: server_of_def Let_def res_simps split: if_splits)

text \<open>The id of the state is that of the first directory with log files.\<close>

definition id_ok :: "'v lenv \<Rightarrow> upload \<Rightarrow> wdir list \<Rightarrow> str \<Rightarrow> bool" where
  "id_ok e u ds i \<longleftrightarrow>
     (case find (\<lambda>d. wanted u d \<noteq> []) ds of None \<Rightarrow> i = [] | Some d \<Rightarrow> server_of e (w_root d) = Inr i)"

lemma find_snoc: "find P (xs @ [y]) = (case find P xs of None \<Rightarrow> if P y then Some y else None | Some x \<Rightarrow> Some x)"
  by (induction xs) auto

lemma scan_dir_gathers:
  assumes s: "scan_dir e u st d = Inr st'" and g: "gathered e u (server_id st) rows (outs st)" and i: "id_ok e u ds (server_id st)"
    and r: "server_id st = [] \<Longrightarrow> rows = []"
  shows "\<exists>new. mapR (parse_line e) (lines_of u d) = Inr new \<and> gathered e u (server_id st') (rows @ new) (outs st') \<and>
    id_ok e u (ds @ [d]) (server_id st') \<and> (server_id st' = [] \<longrightarrow> rows @ new = [])"
proof (cases "wanted u d = []")
  case True
  then show ?thesis using s g i r by (auto simp: scan_dir_def id_ok_def find_snoc split: option.splits)
next
  case False
  obtain sid where sid: "(if server_id st = [] then server_of e (w_root d) else Inr (server_id st)) = Inr sid"
    "foldR (add_line e u) (st\<lparr>server_id := sid\<rparr>) (lines_of u d) = Inr st'"
    using s False by (auto simp: scan_dir_def res_simps)
  have "sid \<noteq> []" using sid(1) server_of_some by (auto split: if_splits)
  have "gathered e u sid rows (outs st)"
  proof (cases "server_id st = []")
    case True
    then show ?thesis using r g by (simp add: gathered_Nil)
  qed (use sid(1) g in simp)
  then obtain new where new: "mapR (parse_line e) (lines_of u d) = Inr new" "server_id st' = sid" "gathered e u sid (rows @ new) (outs st')"
    using lines_gather [OF sid(2), of rows] by auto
  have "id_ok e u (ds @ [d]) sid"
    using i False sid(1) server_of_some by (auto simp: id_ok_def find_snoc split: option.splits if_splits)
  then show ?thesis using new \<open>sid \<noteq> []\<close> by auto
qed

lemma mapR_append: "mapR f xs = Inr a \<Longrightarrow> mapR f ys = Inr b \<Longrightarrow> mapR f (xs @ ys) = Inr (a @ b)"
  by (induction xs arbitrary: a) (auto simp: res_simps)

lemma scan_dirs_gather:
  "foldR (scan_dir e u) st walk = Inr st' \<Longrightarrow> gathered e u (server_id st) rows (outs st) \<Longrightarrow> id_ok e u ds (server_id st) \<Longrightarrow>
   (server_id st = [] \<longrightarrow> rows = []) \<Longrightarrow>
   \<exists>new. mapR (parse_line e) (scanned u walk) = Inr new \<and> gathered e u (server_id st') (rows @ new) (outs st') \<and>
     id_ok e u (ds @ walk) (server_id st')"
proof (induction walk arbitrary: st rows ds)
  case (Cons d walk)
  obtain st1 where s: "scan_dir e u st d = Inr st1" "foldR (scan_dir e u) st1 walk = Inr st'" using Cons.prems(1) by (auto simp: res_simps)
  obtain n1 where n1: "mapR (parse_line e) (lines_of u d) = Inr n1" "gathered e u (server_id st1) (rows @ n1) (outs st1)"
    "id_ok e u (ds @ [d]) (server_id st1)" "server_id st1 = [] \<longrightarrow> rows @ n1 = []"
    using scan_dir_gathers [OF s(1) Cons.prems(2,3)] Cons.prems(4) by blast
  obtain n2 where "mapR (parse_line e) (scanned u walk) = Inr n2" "gathered e u (server_id st') ((rows @ n1) @ n2) (outs st')"
    "id_ok e u ((ds @ [d]) @ walk) (server_id st')" using Cons.IH [OF s(2) n1(2,3,4)] by blast
  then show ?case using mapR_append [OF n1(1)] by (intro exI [of _ "n1 @ n2"]) (simp add: scanned_def)
qed (auto simp: scanned_def)



subsection \<open>Holes of a Lua table keep their place\<close>

definition place :: "'v lenv \<Rightarrow> 'v payload \<Rightarrow> nat \<Rightarrow> str" where
  "place e p k =
     (case p of
        PList vs \<Rightarrow> if k < length vs then shown e (vs ! k) else []
      | PDict d \<Rightarrow> (case map_of d (int_str (int k + 1)) of None \<Rightarrow> [] | Some v \<Rightarrow> shown e v))"

lemma row_values_places:
  assumes "row_values e p = Inr vs"
  shows "(\<forall>k < length vs. vs ! k = place e p k) \<and> (\<forall>k \<ge> length vs. place e p k = [])"
proof (cases p)
  case (PDict d)
  obtain ks where ks: "mapR (\<lambda>(k, v). int_of k) d = Inr ks" "ks \<noteq> []"
    "vs = map (\<lambda>k. case map_of d (int_str k) of None \<Rightarrow> [] | Some v \<Rightarrow> shown e v) [1..Max (set ks)]"
    using assms PDict by (auto simp: row_values_def res_simps split: if_splits)
  have len: "length vs = nat (Max (set ks))" using ks(3) by simp
  have above: "map_of d (int_str (int k + 1)) = None" if "length vs \<le> k" for k
  proof (rule ccontr)
    assume "map_of d (int_str (int k + 1)) \<noteq> None"
    then obtain v where "(int_str (int k + 1), v) \<in> set d" by (auto dest: map_of_SomeD)
    then obtain j where "j < length d" "d ! j = (int_str (int k + 1), v)" by (auto simp: in_set_conv_nth)
    then have "int_of (int_str (int k + 1)) = Inr (ks ! j)" "j < length ks"
      using ks(1) by (auto simp: mapR_Inr_iff list_all2_conv_all_nth dest!: spec [of _ j])
    then have "int k + 1 \<in> set ks" by simp
    then have "int k + 1 \<le> Max (set ks)" by simp
    then show False using that len by simp
  qed
  have "vs ! k = place e p k" if "k < length vs" for k
    using that ks(3) by (simp add: place_def PDict add.commute)
  then show ?thesis using above by (simp add: place_def PDict)
qed (use assms in \<open>auto simp: row_values_def place_def\<close>)

text \<open>
  A line of the log gives a row with at least the number of fields the line asks for, and every field
  is the value at its place, empty where the Lua table had a hole or ended.
\<close>

theorem parse_line_places:
  assumes "parse_line e line = Inr (name, data)"
  shows "\<exists>i x p n. find_sub ''{'' line = Some i \<and> loads e (drop i line) = Inr x \<and> e_data x = Some p \<and> e_length x = Some n \<and>
    nat n \<le> length data \<and> (\<forall>k. (if k < length data then data ! k else []) = place e p k)"
proof -
  obtain i x p vs n where l: "find_sub ''{'' line = Some i" "loads e (drop i line) = Inr x" "e_data x = Some p"
    "row_values e p = Inr vs" "e_length x = Some n" "data = vs @ replicate (nat n - length vs) []"
    using assms by (auto simp: parse_line_def index_of_sub_def res_simps)
  have "(if k < length data then data ! k else []) = place e p k" for k
    using row_values_places [OF l(4)] l(6) by (auto simp: nth_append)
  then show ?thesis using l by auto
qed

subsection \<open>The loop\<close>

text \<open>
  A task is started when its time has come; then its next time is set to the end of the slot (the day
  or the hour) in which it ended, and some seconds more.
\<close>

definition due :: "int \<Rightarrow> int \<times> int \<Rightarrow> rat \<Rightarrow> rat" where
  "due z = (\<lambda>(p, x) t. t + of_int (p - local_secs z t mod p + x))"

record loop =
  next_run :: "nat \<Rightarrow> rat"
  clock :: rat
  runs :: "(nat \<times> rat \<times> rat) list"

definition run_due :: "int \<Rightarrow> (int \<times> int) list \<Rightarrow> loop \<Rightarrow> nat \<times> rat \<Rightarrow> loop" where
  "run_due z tasks st = (\<lambda>(k, d).
     if next_run st k < clock st
     then let t = clock st + d in
       st\<lparr>next_run := (next_run st)(k := due z (tasks ! k) t), clock := t, runs := runs st @ [(k, clock st, t)]\<rparr>
     else st)"

definition loop_round :: "int \<Rightarrow> (int \<times> int) list \<Rightarrow> rat \<Rightarrow> rat list \<Rightarrow> loop \<Rightarrow> loop" where
  "loop_round z tasks pause ds st =
     foldl (run_due z tasks) (st\<lparr>clock := clock st + pause\<rparr>) (zip [0..<length tasks] ds)"

inductive looping :: "int \<Rightarrow> (int \<times> int) list \<Rightarrow> loop \<Rightarrow> bool" for z tasks where
  start: "looping z tasks \<lparr>next_run = (\<lambda>k. 0), clock = t, runs = []\<rparr>"
| turn: "looping z tasks st \<Longrightarrow> 1 \<le> pause \<Longrightarrow> length ds = length tasks \<Longrightarrow> \<forall>d \<in> set ds. 0 \<le> d \<Longrightarrow>
    looping z tasks (loop_round z tasks pause ds st)"

definition node_tasks :: "(int \<times> int) list" where
  "node_tasks = [(86400, 15), (86400, 30 * 60), (3600, 15)]"


definition runs_of :: "nat \<Rightarrow> loop \<Rightarrow> (nat \<times> rat \<times> rat) list" where
  "runs_of k st = filter (\<lambda>r. fst r = k) (runs st)"

abbreviation began :: "nat \<times> rat \<times> rat \<Rightarrow> rat" where "began r \<equiv> fst (snd r)"
abbreviation ended :: "nat \<times> rat \<times> rat \<Rightarrow> rat" where "ended r \<equiv> snd (snd r)"

text \<open>A run begins in a later slot than the one before it ended in, at least \<open>x\<close> seconds into it.\<close>

definition spaced :: "int \<Rightarrow> int \<times> int \<Rightarrow> (nat \<times> rat \<times> rat) list \<Rightarrow> bool" where
  "spaced z = (\<lambda>(p, x) rs. sorted_wrt (\<lambda>a b. p * (slot z p (ended a) + 1) + x \<le> local_secs z (began b)) rs)"

lemma local_secs_mono: "s \<le> t \<Longrightarrow> local_secs z s \<le> local_secs z t"
  by (simp add: local_secs_def floor_mono)

lemma local_secs_due: "local_secs z (due z (p, x) t) = p * (slot z p t + 1) + x"
proof -
  have "local_secs z (due z (p, x) t) = local_secs z t + (p - local_secs z t mod p + x)"
    by (simp add: local_secs_def due_def)
  also have "\<dots> = p * (slot z p t + 1) + x"
    using mult_div_mod_eq [of p "local_secs z t"] by (simp add: slot_def algebra_simps)
  finally show ?thesis .
qed

lemma due_later: "0 < p \<Longrightarrow> 0 \<le> x \<Longrightarrow> local_secs z t \<le> local_secs z (due z (p, x) t)"
proof -
  assume "0 < p" "0 \<le> x"
  then have "local_secs z t mod p < p" by simp
  moreover have "local_secs z t = p * slot z p t + local_secs z t mod p" by (simp add: slot_def)
  ultimately have "local_secs z t \<le> p * (slot z p t + 1)" by (simp add: distrib_left)
  then show ?thesis using \<open>0 \<le> x\<close> by (simp add: local_secs_due)
qed

definition loop_ok :: "int \<Rightarrow> (int \<times> int) list \<Rightarrow> loop \<Rightarrow> bool" where
  "loop_ok z tasks st \<longleftrightarrow> (\<forall>k < length tasks. spaced z (tasks ! k) (runs_of k st) \<and>
     (\<forall>r \<in> set (runs_of k st). local_secs z (began r) \<le> local_secs z (ended r) \<and>
        local_secs z (due z (tasks ! k) (ended r)) \<le> local_secs z (next_run st k)))"

lemma run_due_ok:
  assumes ok: "loop_ok z tasks st" and t: "\<forall>(p, x) \<in> set tasks. 0 < p \<and> 0 \<le> x" and d: "0 \<le> d"
  shows "loop_ok z tasks (run_due z tasks st (k, d))"
proof (cases "next_run st k < clock st")
  case True
  let ?t = "clock st + d"
  let ?r = "(k, clock st, ?t)"
  let ?st = "run_due z tasks st (k, d)"
  have st: "?st = st\<lparr>next_run := (next_run st)(k := due z (tasks ! k) ?t), clock := ?t, runs := runs st @ [?r]\<rparr>"
    using True by (simp add: run_due_def Let_def)
  have le: "local_secs z (clock st) \<le> local_secs z ?t" using d by (intro local_secs_mono) simp
  have nx: "local_secs z (next_run st k) \<le> local_secs z (clock st)" using True by (intro local_secs_mono) simp
  show ?thesis unfolding loop_ok_def
  proof (intro allI impI)
    fix j assume j: "j < length tasks"
    obtain p x where px: "tasks ! j = (p, x)" by (cases "tasks ! j")
    then have pos: "0 < p" "0 \<le> x" using t j nth_mem by fastforce+
    have "spaced z (tasks ! j) (runs_of j st) \<and> (\<forall>r \<in> set (runs_of j st). local_secs z (began r) \<le> local_secs z (ended r) \<and>
        local_secs z (due z (tasks ! j) (ended r)) \<le> local_secs z (next_run st j))"
      using ok j unfolding loop_ok_def by blast
    then have old: "spaced z (p, x) (runs_of j st)" "\<forall>r \<in> set (runs_of j st). local_secs z (began r) \<le> local_secs z (ended r) \<and>
        p * (slot z p (ended r) + 1) + x \<le> local_secs z (next_run st j)"
      unfolding px local_secs_due by blast+
    show "spaced z (tasks ! j) (runs_of j ?st) \<and> (\<forall>r \<in> set (runs_of j ?st). local_secs z (began r) \<le> local_secs z (ended r) \<and>
        local_secs z (due z (tasks ! j) (ended r)) \<le> local_secs z (next_run ?st j))"
    proof (cases "j = k")
      case False
      then show ?thesis using old px by (simp add: st runs_of_def local_secs_due)
    next
      case jk: True
      have "\<forall>r \<in> set (runs_of k st). p * (slot z p (ended r) + 1) + x \<le> local_secs z (clock st)"
        using old(2) nx jk by fastforce
      moreover have "local_secs z ?t \<le> local_secs z (due z (p, x) ?t)" using due_later pos by blast
      ultimately show ?thesis using old jk px le
        by (fastforce simp: st runs_of_def spaced_def sorted_wrt_append local_secs_due)
    qed
  qed
qed (use ok in \<open>simp add: run_due_def\<close>)

lemma loop_round_ok:
  assumes "loop_ok z tasks st" "\<forall>(p, x) \<in> set tasks. 0 < p \<and> 0 \<le> x" "\<forall>d \<in> set ds. 0 \<le> d"
  shows "loop_ok z tasks (loop_round z tasks pause ds st)"
proof -
  have "loop_ok z tasks (foldl (run_due z tasks) s kds)" if "loop_ok z tasks s" "\<forall>kd \<in> set kds. 0 \<le> snd kd" for s kds
    using that
  proof (induction kds arbitrary: s)
    case (Cons kd kds)
    then show ?case using run_due_ok [OF Cons.prems(1) assms(2), of "snd kd" "fst kd"] by simp
  qed simp
  moreover have "loop_ok z tasks (st\<lparr>clock := clock st + pause\<rparr>)" using assms(1) by (simp add: loop_ok_def runs_of_def)
  moreover have "\<forall>kd \<in> set (zip [0..<length tasks] ds). 0 \<le> snd kd" using assms(3) by (auto dest: set_zip_rightD)
  ultimately show ?thesis by (simp add: loop_round_def)
qed

lemma looping_ok: "looping z tasks st \<Longrightarrow> \<forall>(p, x) \<in> set tasks. 0 < p \<and> 0 \<le> x \<Longrightarrow> loop_ok z tasks st"
proof (induction rule: looping.induct)
  case (start t)
  then show ?case by (simp add: loop_ok_def runs_of_def spaced_def split: prod.splits)
next
  case (turn st pause ds)
  then show ?case using loop_round_ok by blast
qed

lemma distinct_map_sorted: "sorted_wrt R rs \<Longrightarrow> (\<And>a b. a \<in> set rs \<Longrightarrow> R a b \<Longrightarrow> f a \<noteq> f b) \<Longrightarrow> distinct (map f rs)"
proof (induction rs)
  case (Cons r rs)
  have "f r \<notin> f ` set rs" using Cons.prems by fastforce
  then show ?case using Cons by simp
qed simp

lemma spaced_distinct:
  assumes "spaced z (p, x) rs" "0 < p" "0 \<le> x" "\<forall>r \<in> set rs. local_secs z (began r) \<le> local_secs z (ended r)"
  shows "distinct (map (\<lambda>r. slot z p (began r)) rs)"
proof -
  have "slot z p (began a) \<noteq> slot z p (began b)" if "a \<in> set rs" "p * (slot z p (ended a) + 1) + x \<le> local_secs z (began b)" for a b
  proof -
    have "(p * (slot z p (ended a) + 1)) div p \<le> local_secs z (began b) div p"
      using that(2) assms(2,3) by (intro zdiv_mono1) simp_all
    then have "slot z p (ended a) + 1 \<le> slot z p (began b)" using assms(2) by (simp add: slot_def)
    moreover have "slot z p (began a) \<le> slot z p (ended a)" using assms(2,4) that(1) by (simp add: slot_def zdiv_mono1)
    ultimately show ?thesis by simp
  qed
  then show ?thesis using assms(1) by (intro distinct_map_sorted [of "\<lambda>a b. p * (slot z p (ended a) + 1) + x \<le> local_secs z (began b)"])
      (auto simp: spaced_def)
qed


lemma node_tasks_pos: "\<forall>(p, x) \<in> set node_tasks. 0 < p \<and> 0 \<le> x"
  by (simp add: node_tasks_def)

lemma tasks_spaced:
  assumes "looping z tasks st" "\<forall>(p, x) \<in> set tasks. 0 < p \<and> 0 \<le> x" "k < length tasks"
  shows "spaced z (tasks ! k) (runs_of k st) \<and> distinct (map (\<lambda>r. slot z (fst (tasks ! k)) (began r)) (runs_of k st))"
proof -
  obtain p x where px: "tasks ! k = (p, x)" by (cases "tasks ! k")
  then have pos: "0 < p" "0 \<le> x" using assms(2,3) nth_mem by fastforce+
  have "loop_ok z tasks st" using looping_ok assms(1,2) by blast
  then have s: "spaced z (p, x) (runs_of k st)" "\<forall>r \<in> set (runs_of k st). local_secs z (began r) \<le> local_secs z (ended r)"
    using assms(3) px unfolding loop_ok_def by metis+
  show ?thesis using s spaced_distinct [OF s(1) pos s(2)] px by simp
qed

text \<open>
  C28. However long the pauses and the uploads take, no day gets two daily uploads of a kind and no hour
  two hourly ones, and each run after the first begins in a later day or hour than the one before it ended
  in, at least 15 seconds (30 minutes for the user information) after its beginning.
\<close>

theorem node_runs_spaced:
  assumes "looping z node_tasks st"
  shows "\<forall>k < 3. spaced z (node_tasks ! k) (runs_of k st) \<and>
    distinct (map (\<lambda>r. slot z (fst (node_tasks ! k)) (began r)) (runs_of k st))"
  using tasks_spaced [OF assms node_tasks_pos] by (simp add: node_tasks_def)


subsection \<open>The hypotheses can hold\<close>

text \<open>Values that are texts, and lines whose table has a hole at its second place.\<close>

definition sample_lenv :: "str lenv" where
  "sample_lenv = \<lparr>game_id = 55, loads = (\<lambda>s. Inr \<lparr>e_data = Some (PDict [(''1'', ''a''), (''3'', ''c'')]), e_length = Some 4\<rparr>),
     shown = (\<lambda>v. v)\<rparr>"

definition sample_line :: str where "sample_line = ''[x][Pay]{''"

definition sample_walk :: "wdir list" where
  "sample_walk = [\<lparr>w_root = ''log/s2_center/19700101'', w_files = [(''bdclog_2.log'', [sample_line]), (''bdclog_1.log'', [sample_line])]\<rparr>]"

lemma sample_parsed: "parse_line sample_lenv sample_line = Inr (''Pay'', [''a'', [], ''c'', []])"
  by code_simp

definition sample_upload :: upload where
  "sample_upload = \<lparr>u_root = ''19700101'', u_prefix = ''bdclog_'', u_suffix = ''.log'', u_flagged = ends_with ''_upflag.log'',
     u_sep = ''|'', u_date = ''1970-01-01''\<rparr>"

lemma sample_wanted: "map snd (wanted sample_upload (sample_walk ! 0)) = [[sample_line], [sample_line]]"
  by code_simp

lemma sample_server: "\<exists>i. server_of sample_lenv ''log/s2_center/19700101'' = Inr i"
proof -
  have "split_on ''/'' ''log/s2_center/19700101'' = [''log'', ''s2_center'', ''19700101'']" "find_sub ''_'' ''s2_center'' = Some 2"
    "int_of ''2'' = Inr 2" by code_simp+
  then show ?thesis by (simp add: server_of_def index_of_sub_def make_server_id_def)
qed

lemma sample_uploads: "\<exists>out. run_upload sample_lenv sample_upload sample_walk = Inr out"
proof -
  obtain i where i: "server_of sample_lenv ''log/s2_center/19700101'' = Inr i" using sample_server by blast
  have w: "sample_walk = [sample_walk ! 0]" "w_root (sample_walk ! 0) = ''log/s2_center/19700101''" by (simp_all add: sample_walk_def)
  have ne: "wanted sample_upload (sample_walk ! 0) \<noteq> []" using sample_wanted by auto
  have step: "\<exists>st'. add_line sample_lenv sample_upload st sample_line = Inr st'" for st
    by (simp add: add_line_def sample_parsed Let_def split: prod.splits)
  obtain st1 where s1: "add_line sample_lenv sample_upload \<lparr>server_id = i, outs = []\<rparr> sample_line = Inr st1" using step by blast
  obtain st2 where s2: "add_line sample_lenv sample_upload st1 sample_line = Inr st2" using step by blast
  have "run_upload sample_lenv sample_upload [sample_walk ! 0] = Inr (outs st2)"
    using i w(2) ne s1 s2 by (simp add: run_upload_def scan_dir_def sample_wanted)
  then show ?thesis using w(1) by metis
qed

lemma sample_scanned: "mapR (parse_line sample_lenv) (scanned sample_upload sample_walk) =
    Inr [(''Pay'', [''a'', [], ''c'', []]), (''Pay'', [''a'', [], ''c'', []])]"
  by code_simp


definition first_round :: loop where
  "first_round = loop_round 0 node_tasks 1 [1, 1, 1] \<lparr>next_run = (\<lambda>k. 0), clock = 100, runs = []\<rparr>"

lemma first_round_runs: "looping 0 node_tasks first_round" "map fst (runs first_round) = [0, 1, 2]"
proof -
  show "looping 0 node_tasks first_round" unfolding first_round_def
    by (rule looping.turn [OF looping.start]) (simp_all add: node_tasks_def)
  show "map fst (runs first_round) = [0, 1, 2]"
    by (simp add: first_round_def loop_round_def node_tasks_def run_due_def Let_def upt_rec)
qed

lemma node_runs_spaced_witness:
  "map fst (runs first_round) = [0, 1, 2] \<and> spaced 0 (86400, 15) (runs_of 0 first_round)"
proof -
  have "node_tasks ! 0 = (86400, 15)" by (simp add: node_tasks_def)
  then show ?thesis using node_runs_spaced [OF first_round_runs(1), rule_format, of 0] first_round_runs(2) by simp
qed

end
