(* ===== verification/Log_Center.thy ===== *)
theory Log_Center
  imports Log_Node
begin

text \<open>
  The log centre, \<^verbatim>\<open>tools/log_tools/center_main.py\<close>: the files the game hosts sent are packed by log
  name once a day (\<open>check_upload_bdc\<close>) and joined once an hour (\<open>check_upload_bdchour\<close>). A directory is the list of
  its files, in the order of \<open>os.listdir\<close>; the shell commands that send the results are left out.
\<close>

subsection \<open>File names\<close>

text \<open>\<open>\d+_\<close> at the start: digits never contain the underscore, so there is one way to match.\<close>

definition skip_number :: "str \<Rightarrow> str option" where
  "skip_number s =
     (let n = takeWhile is_digit s; r = drop (length n) s in
      if n \<noteq> [] \<and> starts_with ''_'' r then Some (drop 1 r) else None)"

definition all_digits_at :: "nat \<Rightarrow> nat \<Rightarrow> str \<Rightarrow> bool" where
  "all_digits_at i k s \<longleftrightarrow> i + k \<le> length s \<and> (\<forall>c \<in> set (take k (drop i s)). is_digit c)"

definition day_tail :: "str \<Rightarrow> bool" where
  "day_tail s \<longleftrightarrow> starts_with ''_'' s \<and> all_digits_at 1 4 s \<and> starts_with ''-'' (drop 5 s) \<and> all_digits_at 6 2 s \<and>
     starts_with ''-'' (drop 8 s) \<and> all_digits_at 9 2 s"

definition tail_day :: "str \<Rightarrow> bool" where
  "tail_day s \<longleftrightarrow> day_tail s \<and> starts_with ''.log'' (drop 11 s)"

definition tail_hour :: "str \<Rightarrow> bool" where
  "tail_hour s \<longleftrightarrow> day_tail s \<and> starts_with ''_'' (drop 11 s) \<and> all_digits_at 12 2 s \<and> starts_with ''.log'' (drop 14 s)"

text \<open>\<open>(\w+)\<close> takes as much as it can.\<close>

fun longest :: "(str \<Rightarrow> bool) \<Rightarrow> nat \<Rightarrow> str \<Rightarrow> str option" where
  "longest tail 0 s = None"
| "longest tail (Suc k) s = (if tail (drop (Suc k) s) then Some (take (Suc k) s) else longest tail k s)"

definition match_name :: "(str \<Rightarrow> bool) \<Rightarrow> str \<Rightarrow> str option" where
  "match_name tail f =
     (case skip_number f of None \<Rightarrow> None
      | Some r \<Rightarrow> (case skip_number r of None \<Rightarrow> None
        | Some s \<Rightarrow> longest tail (length (takeWhile is_word s)) s))"

definition own_log :: "int \<Rightarrow> str \<Rightarrow> bool" where
  "own_log gid f \<longleftrightarrow> ends_with ''.log'' f \<and> starts_with (int_str gid) f"

subsection \<open>The daily archives\<close>

definition zip_name :: "int \<Rightarrow> str \<Rightarrow> str \<Rightarrow> str" where
  "zip_name gid name date = join ''_'' [int_str gid, name, date] @ ''.zip''"

definition zip_step :: "int \<Rightarrow> (str \<times> str list) list \<Rightarrow> str \<Rightarrow> (str \<times> str list) list" where
  "zip_step gid zips f =
     (if \<not> own_log gid f then zips
      else case match_name tail_day f of
        None \<Rightarrow> zips
      | Some n \<Rightarrow> (let name = lower n; old = (case map_of zips name of None \<Rightarrow> [] | Some fs \<Rightarrow> fs)
                  in AList.update name (old @ [f]) zips))"

text \<open>The archives made, by name; \<open>None\<close> when the directory of the day is missing.\<close>

definition check_upload_bdc :: "int \<Rightarrow> int \<Rightarrow> rat \<Rightarrow> (str \<Rightarrow> str list option) \<Rightarrow> (str \<times> str list) list" where
  "check_upload_bdc gid z t listdir =
     (case listdir (compact (day_of z t - 1)) of
        None \<Rightarrow> []
      | Some files \<Rightarrow> map (\<lambda>(n, fs). (zip_name gid n (dashed (day_of z t - 1)), fs)) (foldl (zip_step gid) [] files))"

subsection \<open>The hourly file\<close>

text \<open>A directory: its files and their contents.\<close>

definition hour_file :: "int \<Rightarrow> int \<Rightarrow> rat \<Rightarrow> str" where
  "hour_file gid z t = join ''_'' [int_str gid, dashed (day_of z t) @ ''_'' @ pad 2 (hour_of_day z t)] @ ''.log''"

text \<open>\<open>cat f >> out\<close> and \<open>mv f f.bak\<close>\<close>

definition append_file :: "str \<Rightarrow> str \<Rightarrow> (str \<times> str) list \<Rightarrow> (str \<times> str) list" where
  "append_file f out d =
     (case map_of d f of None \<Rightarrow> d
      | Some x \<Rightarrow>
          let d1 = AList.update out ((case map_of d out of None \<Rightarrow> [] | Some y \<Rightarrow> y) @ x) d
          in AList.update (f @ ''.bak'') x (AList.delete f d1))"

definition hour_step :: "int \<Rightarrow> str \<Rightarrow> (str \<times> str) list \<times> bool \<Rightarrow> str \<Rightarrow> (str \<times> str) list \<times> bool" where
  "hour_step gid out = (\<lambda>(d, new) f.
     if own_log gid f \<and> match_name tail_hour f \<noteq> None then (append_file f out d, True) else (d, new))"

text \<open>The directory afterwards, and whether the file is sent.\<close>

definition check_upload_bdchour :: "int \<Rightarrow> int \<Rightarrow> rat \<Rightarrow> (str \<times> str) list \<Rightarrow> (str \<times> str) list \<times> bool" where
  "check_upload_bdchour gid z t d =
     (let out = hour_file gid z t; (d', new) = foldl (hour_step gid out) (d, False) (map fst d)
      in (d', new \<and> map_of d' out \<noteq> None))"

definition center_tasks :: "(int \<times> int) list" where
  "center_tasks = [(86400, 3600), (3600, 120)]"

subsection \<open>The centre reads the names the hosts write\<close>

lemma takeWhile_all: "\<forall>c \<in> set xs. P c \<Longrightarrow> \<not> P d \<Longrightarrow> takeWhile P (xs @ d # ys) = xs"
  by (simp add: takeWhile_append2 takeWhile_tail)

lemma skip_number_text: "digits k n \<Longrightarrow> 0 < k \<Longrightarrow> skip_number (n @ CHR ''_'' # s) = Some s"
proof -
  assume n: "digits k n" "0 < k"
  have "takeWhile is_digit (n @ CHR ''_'' # s) = n"
    using n(1) by (intro takeWhile_all) (simp_all add: digits_def is_digit_def)
  then show ?thesis using n by (auto simp: skip_number_def digits_def)
qed

lemma digits_word: "digits k s \<Longrightarrow> \<forall>c \<in> set s. is_word c \<and> c \<noteq> CHR ''_''"
  by (auto simp: digits_def is_word_def is_digit_def)

lemma day_tail_date: "date_text d \<Longrightarrow> day_tail (CHR ''_'' # d @ s) \<and> drop 11 (CHR ''_'' # d @ s) = s"
  by (auto simp: date_text_def digits_def day_tail_def all_digits_at_def drop_Cons' take_Cons')

lemma longest_found:
  assumes "tail (drop k s)" "0 < k" "\<And>j. k < j \<Longrightarrow> j \<le> n \<Longrightarrow> \<not> tail (drop j s)" "k \<le> n"
  shows "longest tail n s = Some (take k s)"
  using assms(3,4)
proof (induction n)
  case (Suc n)
  show ?case
  proof (cases "Suc n = k")
    case False
    then show ?thesis using Suc by simp
  qed (use assms(1,2) in auto)
qed (use assms(2) in simp)


lemma match_name_text:
  assumes us: "\<forall>s. tail s \<longrightarrow> starts_with ''_'' s" and g: "digits k g" "0 < k" "digits j sid" "0 < j" and n: "n \<noteq> []" "\<forall>c \<in> set n. is_word c" and d: "date_text d"
    and t: "tail (CHR ''_'' # d @ x)"
  shows "match_name tail (g @ CHR ''_'' # sid @ CHR ''_'' # n @ CHR ''_'' # d @ x) = Some n"
proof -
  obtain y r where y: "d = y @ CHR ''-'' # r" "digits 4 y" using d by (auto simp: date_text_def)
  let ?s = "n @ CHR ''_'' # d @ x"
  have "takeWhile is_word ((n @ CHR ''_'' # y) @ CHR ''-'' # r @ x) = n @ CHR ''_'' # y"
    using n(2) digits_word [OF y(2)] by (intro takeWhile_all) (auto simp: is_word_def is_upper_def is_lower_def is_digit_def)
  then have len: "length (takeWhile is_word ?s) = length n + 5" using y by (simp add: digits_def)
  have "longest tail (length n + 5) ?s = Some (take (length n) ?s)"
  proof (rule longest_found)
    fix i assume i: "length n < i" "i \<le> length n + 5"
    then obtain m where m: "i = length n + Suc m" "m \<le> 4" by (metis add_Suc_right add_le_cancel_left less_imp_Suc_add Suc_le_mono eval_nat_numeral(3) numeral_eq_Suc)
    have "drop i ?s = drop m (y @ CHR ''-'' # r @ x)" using m y(1) by simp
    moreover have "\<not> starts_with ''_'' (drop m (y @ CHR ''-'' # r @ x))"
    proof (cases "m < 4")
      case True
      then have "drop m (y @ CHR ''-'' # r @ x) = y ! m # drop (Suc m) y @ CHR ''-'' # r @ x" "y ! m \<noteq> CHR ''_''"
        using y(2) digits_word [OF y(2)] by (simp_all add: digits_def Cons_nth_drop_Suc flip: append_Cons)
      then show ?thesis by simp
    next
      case False
      then show ?thesis using m(2) y(2) by (simp add: digits_def)
    qed
    ultimately show "\<not> tail (drop i ?s)" using us by metis
  qed (use t n in simp_all)
  then show ?thesis using skip_number_text [OF g(1,2)] skip_number_text [OF g(3,4)] len by (simp add: match_name_def)
qed

lemma lower_word: "is_word c \<Longrightarrow> is_word (lower_char c)"
proof (cases "is_upper c")
  case True
  then have "(of_char (lower_char c) :: nat) = of_char c + 32" by (simp add: lower_char_def is_upper_def)
  then show ?thesis using True by (simp add: is_word_def is_upper_def is_lower_def)
qed (simp add: lower_char_def)

lemma tails: "date_text d \<Longrightarrow> tail_day (CHR ''_'' # d @ ''.log'')"
  "date_text d \<Longrightarrow> digits 2 h \<Longrightarrow> tail_hour (CHR ''_'' # d @ CHR ''_'' # h @ ''.log'')"
proof -
  assume d: "date_text d"
  show "tail_day (CHR ''_'' # d @ ''.log'')" using day_tail_date [OF d, of "''.log''"] unfolding tail_day_def by (metis starts_with_append append_Nil2)
  assume h: "digits 2 h"
  let ?s = "CHR ''_'' # d @ CHR ''_'' # h @ ''.log''"
  have t: "day_tail ?s" "drop 11 ?s = CHR ''_'' # h @ ''.log''" using day_tail_date [OF d, of "CHR ''_'' # h @ ''.log''"] by simp_all
  have "drop 12 s = drop 1 (drop 11 s)" "drop 14 s = drop 3 (drop 11 s)" for s :: str by (simp_all add: drop_drop)
  from this [of ?s] have "drop 12 ?s = drop 1 (drop 11 ?s)" "drop 14 ?s = drop 3 (drop 11 ?s)" .
  then have e: "drop 12 ?s = h @ ''.log''" "drop 14 ?s = ''.log''" using h unfolding t(2) by (simp_all add: digits_def)
  have "12 + 2 \<le> length ?s" using d h by (auto simp: date_text_def digits_def)
  then have "all_digits_at 12 2 ?s" using h unfolding all_digits_at_def e(1) by (simp add: digits_def)
  moreover have "starts_with ''_'' (drop 11 ?s)" unfolding t(2) by simp
  moreover have "starts_with ''.log'' (drop 14 ?s)" unfolding e(2) by (simp add: starts_with_def)
  ultimately show "tail_hour ?s" using t(1) unfolding tail_hour_def by blast
qed

lemma tail_us: "\<forall>s. tail_day s \<longrightarrow> starts_with ''_'' s" "\<forall>s. tail_hour s \<longrightarrow> starts_with ''_'' s"
  by (simp_all add: tail_day_def tail_hour_def day_tail_def)

lemma own_log_out: "own_log (game_id e) (out_file_name e u sid name)"
  by (auto simp: own_log_def out_file_name_def ends_with_split starts_with_split)

lemma out_match:
  assumes us: "\<forall>s. tail s \<longrightarrow> starts_with ''_'' s"
    and a: "0 \<le> game_id e" "isdigit sid" "name \<noteq> []" "\<forall>c \<in> set name. is_word c" "date_text d"
    "u_date u @ ''.log'' = d @ x" "tail (CHR ''_'' # d @ x)"
  shows "match_name tail (out_file_name e u sid name) = Some (lower name)"
proof -
  have g: "digits (length (int_str (game_id e))) (int_str (game_id e))" using digits_int_str a(1) by blast
  have gl: "0 < length (int_str (game_id e))" using a(1) nat_str_digits [of "nat (game_id e)"] by (simp add: int_str_def isdigit_def)
  have s: "digits (length sid) sid" "0 < length sid" using a(2) by (simp_all add: digits_def isdigit_def)
  have n: "lower name \<noteq> []" "\<forall>c \<in> set (lower name). is_word c" using a(3,4) lower_word by (auto simp: lower_def)
  have "out_file_name e u sid name = int_str (game_id e) @ CHR ''_'' # sid @ CHR ''_'' # lower name @ CHR ''_'' # d @ x"
    using a(6) by (simp add: out_file_name_def)
  then show ?thesis using match_name_text [OF us g gl s n a(5,7)] by simp
qed

text \<open>
  The centre finds the log name in the name of every file a host sends, in the daily and in the
  hourly form, for every log name made of word characters: the two programs agree on their file names.
\<close>

theorem names_agree:
  assumes "0 \<le> game_id e" and "isdigit sid" and "name \<noteq> []" and "\<forall>c \<in> set name. is_word c"
    and "0 < day_of z t" and "fst (civil (day_of z t)) < 10000" and "fst (civil (day_of z t - 1)) < 10000"
  shows "own_log (game_id e) (out_file_name e (upload2center z t) sid name) \<and>
    match_name tail_day (out_file_name e (upload2center z t) sid name) = Some (lower name) \<and>
    match_name tail_day (out_file_name e (upload2userinfo z t) sid name) = Some (lower name) \<and>
    match_name tail_hour (out_file_name e (upload2center_hour z t) sid name) = Some (lower name)"
proof -
  have d: "date_text (dashed (day_of z t - 1))" "date_text (dashed (day_of z t))" using assms(5-7) dashed_date by simp_all
  have h: "digits 2 (pad 2 (hour_of_day z t))" by (rule pad_two) (simp_all add: hour_of_day_def)
  note day = out_match [OF tail_us(1) assms(1-4) d(1) _ tails(1) [OF d(1)]]
  have "u_date (upload2center_hour z t) @ ''.log'' = dashed (day_of z t) @ CHR ''_'' # pad 2 (hour_of_day z t) @ ''.log''"
    by (simp add: upload2center_hour_def Let_def)
  from out_match [OF tail_us(2) assms(1-4) d(2) this tails(2) [OF d(2) h]]
  show ?thesis using day own_log_out by (simp add: upload2center_def upload2userinfo_def)
qed


subsection \<open>The hourly file takes every row once\<close>

definition hourly :: "int \<Rightarrow> str \<Rightarrow> bool" where
  "hourly gid f \<longleftrightarrow> own_log gid f \<and> match_name tail_hour f \<noteq> None"

definition contents :: "(str \<times> str) list \<Rightarrow> str list \<Rightarrow> str" where
  "contents d fs = concat (map (\<lambda>f. case map_of d f of None \<Rightarrow> [] | Some x \<Rightarrow> x) fs)"

lemma hourly_log: "hourly gid f \<Longrightarrow> \<exists>g. f = g @ ''.log''"
  by (auto simp: hourly_def own_log_def ends_with_split)

lemma bak_not_log: "f @ ''.bak'' \<noteq> g @ ''.log''"
proof
  assume "f @ ''.bak'' = g @ ''.log''"
  then have "last (f @ ''.bak'') = last (g @ ''.log'')" by simp
  then show False by simp
qed

lemma bak_not_hourly: "\<not> hourly gid (f @ ''.bak'')"
  using hourly_log bak_not_log by blast

lemma hour_file_not_hourly: "0 \<le> gid \<Longrightarrow> date_text (dashed (day_of z t)) \<Longrightarrow> \<not> hourly gid (hour_file gid z t)"
proof -
  assume g: "0 \<le> gid" and d: "date_text (dashed (day_of z t))"
  obtain y r where y: "dashed (day_of z t) = y @ CHR ''-'' # r" "digits 4 y" using d by (auto simp: date_text_def)
  let ?r = "y @ CHR ''-'' # r @ CHR ''_'' # pad 2 (hour_of_day z t) @ ''.log''"
  have h: "hour_file gid z t = int_str gid @ CHR ''_'' # ?r" by (simp add: hour_file_def y(1))
  have gl: "0 < length (int_str gid)" using g nat_str_digits [of "nat gid"] by (simp add: int_str_def isdigit_def)
  have "takeWhile is_digit ?r = y" using y(2) by (intro takeWhile_all) (simp_all add: digits_def is_digit_def)
  then have "skip_number ?r = None" by (simp add: skip_number_def Let_def)
  then show ?thesis using skip_number_text [OF digits_int_str [OF g] gl, of ?r] by (simp add: hourly_def match_name_def h)
qed

lemma hour_steps:
  assumes out: "\<not> hourly gid out" "\<exists>g. out = g @ ''.log''" and fs: "distinct fs" "set fs \<subseteq> fst ` set d"
    and r: "foldl (hour_step gid out) (d, False) fs = (d', new)"
  shows "new = (filter (hourly gid) fs \<noteq> []) \<and> (\<forall>k. map_of d' k =
     (if k = out then (if filter (hourly gid) fs = [] then map_of d out
        else Some ((case map_of d out of None \<Rightarrow> [] | Some y \<Rightarrow> y) @ contents d (filter (hourly gid) fs)))
      else if k \<in> set fs \<and> hourly gid k then None
      else case find (\<lambda>f. hourly gid f \<and> k = f @ ''.bak'') fs of Some f \<Rightarrow> map_of d f | None \<Rightarrow> map_of d k))"
  using fs r
proof (induction fs arbitrary: d' new rule: rev_induct)
  case (snoc f fs)
  obtain d1 n1 where r1: "foldl (hour_step gid out) (d, False) fs = (d1, n1)" by (metis surj_pair)
  have fs: "distinct fs" "set fs \<subseteq> fst ` set d" "f \<notin> set fs" "f \<in> fst ` set d" using snoc.prems(1,2) by auto
  note ih = snoc.IH [OF fs(1,2) r1]
  show ?case
  proof (cases "hourly gid f")
    case False
    then have "d' = d1" "new = n1" using snoc.prems(3) r1 by (auto simp: hour_step_def hourly_def)
    then show ?thesis using ih False by (auto simp: find_snoc split: option.splits)
  next
    case True
    then obtain g where g: "f = g @ ''.log''" using hourly_log by blast
    have ne: "f \<noteq> out" "f @ ''.bak'' \<noteq> out" "f @ ''.bak'' \<noteq> f" using True out bak_not_log by auto
    have nb: "f \<noteq> h @ ''.bak''" for h using g bak_not_log by metis
    obtain x where x: "map_of d f = Some x" using fs(4) by (metis map_of_eq_None_iff not_None_eq)
    have "find (\<lambda>h. hourly gid h \<and> f = h @ ''.bak'') fs = None" using nb by (simp add: find_None_iff)
    then have f1: "map_of d1 f = Some x" using ih ne fs(3) x by simp
    have new: "d' = append_file f out d1" "new = True" using snoc.prems(3) r1 True by (auto simp: hour_step_def hourly_def)
    have look: "map_of d' k = (if k = f @ ''.bak'' then Some x else if k = f then None
        else if k = out then Some ((case map_of d1 out of None \<Rightarrow> [] | Some y \<Rightarrow> y) @ x) else map_of d1 k)" for k
      using f1 ne by (simp add: new(1) append_file_def Let_def)
    have c: "contents d (filter (hourly gid) (fs @ [f])) = contents d (filter (hourly gid) fs) @ x"
      using True x by (simp add: contents_def)
    have "map_of d' k =
     (if k = out then (if filter (hourly gid) (fs @ [f]) = [] then map_of d out
        else Some ((case map_of d out of None \<Rightarrow> [] | Some y \<Rightarrow> y) @ contents d (filter (hourly gid) (fs @ [f]))))
      else if k \<in> set (fs @ [f]) \<and> hourly gid k then None
      else case find (\<lambda>f. hourly gid f \<and> k = f @ ''.bak'') (fs @ [f]) of Some f \<Rightarrow> map_of d f | None \<Rightarrow> map_of d k)" for k
    proof (cases "k = out")
      case k: True
      have "map_of d1 out = (if filter (hourly gid) fs = [] then map_of d out
        else Some ((case map_of d out of None \<Rightarrow> [] | Some y \<Rightarrow> y) @ contents d (filter (hourly gid) fs)))" using ih by simp
      then show ?thesis using k look [of out] ne c True by (simp add: contents_def)
    next
      case k: False
      have i: "map_of d1 k = (if k \<in> set fs \<and> hourly gid k then None
          else case find (\<lambda>f. hourly gid f \<and> k = f @ ''.bak'') fs of Some f \<Rightarrow> map_of d f | None \<Rightarrow> map_of d k)" using ih k by simp
      show ?thesis
      proof (cases "k = f @ ''.bak''")
        case kb: True
        then have "find (\<lambda>h. hourly gid h \<and> k = h @ ''.bak'') fs = None" using fs(3) by (auto simp: find_None_iff)
        then show ?thesis using look [of k] kb k True x bak_not_hourly by (simp add: find_snoc)
      next
        case kb: False
        then show ?thesis using look [of k] k i True by (auto simp: find_snoc split: option.splits)
      qed
    qed
    then show ?thesis using new(2) True by simp
  qed
qed (simp add: contents_def)


lemma no_hour_steps: "\<forall>f \<in> set fs. \<not> hourly gid f \<Longrightarrow> foldl (hour_step gid out) (d, b) fs = (d, b)"
  by (induction fs) (auto simp: hour_step_def hourly_def)

text \<open>
  C29. The hourly run appends the contents of all matching files, in the order of the directory, to the
  file of the hour, keeps each under its \<open>.bak\<close> name and sends the file exactly when there was one; a
  second run finds nothing, so no row is joined twice.
\<close>

theorem hour_rows_once:
  assumes "0 \<le> gid" and "0 \<le> day_of z t" and "fst (civil (day_of z t)) < 10000" and "dict_ok d"
    and "check_upload_bdchour gid z t d = (d', sent)"
  shows "(sent \<longleftrightarrow> filter (hourly gid) (map fst d) \<noteq> []) \<and>
    (sent \<longrightarrow> map_of d' (hour_file gid z t) =
       Some ((case map_of d (hour_file gid z t) of None \<Rightarrow> [] | Some y \<Rightarrow> y) @ contents d (filter (hourly gid) (map fst d)))) \<and>
    (\<forall>f \<in> set (filter (hourly gid) (map fst d)). map_of d' f = None \<and> map_of d' (f @ ''.bak'') = map_of d f) \<and>
    check_upload_bdchour gid z t d' = (d', False)"
proof -
  let ?out = "hour_file gid z t"
  obtain new where r: "foldl (hour_step gid ?out) (d, False) (map fst d) = (d', new)" "sent = (new \<and> map_of d' ?out \<noteq> None)"
    using assms(5) by (auto simp: check_upload_bdchour_def Let_def split: prod.splits)
  have o: "\<not> hourly gid ?out" using hour_file_not_hourly assms(1) dashed_date [OF assms(2,3)] by blast
  have ol: "\<exists>g. ?out = g @ ''.log''" by (simp add: hour_file_def)
  note st = hour_steps [OF o ol _ _ r(1)]
  then have s: "new = (filter (hourly gid) (map fst d) \<noteq> [])" and look: "map_of d' k =
     (if k = ?out then (if filter (hourly gid) (map fst d) = [] then map_of d ?out
        else Some ((case map_of d ?out of None \<Rightarrow> [] | Some y \<Rightarrow> y) @ contents d (filter (hourly gid) (map fst d))))
      else if k \<in> set (map fst d) \<and> hourly gid k then None
      else case find (\<lambda>f. hourly gid f \<and> k = f @ ''.bak'') (map fst d) of Some f \<Rightarrow> map_of d f | None \<Rightarrow> map_of d k)" for k
    using assms(4) unfolding dict_ok_def by simp_all
  have "map_of d' k = None" if "hourly gid k" for k
  proof -
    have "find (\<lambda>f. hourly gid f \<and> k = f @ ''.bak'') (map fst d) = None" using that bak_not_hourly by (auto simp: find_None_iff)
    moreover have "map_of d k = None" if "k \<notin> set (map fst d)" using that by (simp add: map_of_eq_None_iff)
    ultimately show ?thesis using look [of k] that o by (auto simp del: set_map)
  qed
  then have "\<forall>f \<in> set (map fst d'). \<not> hourly gid f" by (metis list.set_map map_of_eq_None_iff)
  from no_hour_steps [OF this] have again: "check_upload_bdchour gid z t d' = (d', False)" by (simp add: check_upload_bdchour_def)
  have baks: "map_of d' f = None \<and> map_of d' (f @ ''.bak'') = map_of d f" if f: "f \<in> set (filter (hourly gid) (map fst d))" for f
  proof -
    have "find (\<lambda>h. hourly gid h \<and> f @ ''.bak'' = h @ ''.bak'') (map fst d) = Some f"
    proof (cases "find (\<lambda>h. hourly gid h \<and> f @ ''.bak'' = h @ ''.bak'') (map fst d)")
      case None
      then show ?thesis using f by (auto simp: find_None_iff)
    next
      case (Some h)
      then show ?thesis by (auto simp: find_Some_iff)
    qed
    moreover have "f @ ''.bak'' \<noteq> ?out" "f \<noteq> ?out" using ol bak_not_log o f by auto
    ultimately show ?thesis using look [of "f @ ''.bak''"] look [of f] f bak_not_hourly by (simp del: set_map)
  qed
  show ?thesis using s r(2) look [of ?out] again baks by simp
qed

text \<open>What a single file contributes.\<close>

lemma contents_member: "f \<in> set fs \<Longrightarrow> map_of d f = Some x \<Longrightarrow> \<exists>a b. contents d fs = a @ x @ b"
proof -
  assume f: "f \<in> set fs" "map_of d f = Some x"
  obtain xs ys where "fs = xs @ f # ys" using split_list [OF f(1)] by blast
  then have "contents d fs = contents d xs @ x @ contents d ys" using f(2) by (simp add: contents_def)
  then show ?thesis by blast
qed

lemma hour_file_joined:
  assumes g: "0 \<le> gid" "0 \<le> day_of z t" "fst (civil (day_of z t)) < 10000" and d: "dict_ok d"
    and run: "check_upload_bdchour gid z t d = (d', sent)"
    and f: "hourly gid f" "map_of d f = Some x"
  shows "sent \<and> (\<exists>a b. map_of d' (hour_file gid z t) = Some (a @ x @ b))"
proof -
  let ?out = "hour_file gid z t" and ?fs = "filter (hourly gid) (map fst d)"
  obtain new where r: "foldl (hour_step gid ?out) (d, False) (map fst d) = (d', new)" "sent = (new \<and> map_of d' ?out \<noteq> None)"
    using run by (auto simp: check_upload_bdchour_def Let_def split: prod.splits)
  have o: "\<not> hourly gid ?out" using hour_file_not_hourly g(1) dashed_date [OF g(2,3)] by blast
  have "\<exists>g. ?out = g @ ''.log''" by (simp add: hour_file_def)
  note st = hour_steps [OF o this _ _ r(1)]
  have mem: "f \<in> set ?fs" using f map_of_SomeD [OF f(2)] by force
  then have ne: "?fs \<noteq> []" by (metis empty_iff empty_set)
  have "new = (?fs \<noteq> [])" "map_of d' ?out = (if ?fs = [] then map_of d ?out
      else Some ((case map_of d ?out of None \<Rightarrow> [] | Some y \<Rightarrow> y) @ contents d ?fs))"
    using st d unfolding dict_ok_def by simp_all
  then have "sent" "map_of d' ?out = Some ((case map_of d ?out of None \<Rightarrow> [] | Some y \<Rightarrow> y) @ contents d ?fs)"
    using ne r(2) by simp_all
  moreover obtain a b where "contents d ?fs = a @ x @ b" using contents_member [OF mem f(2)] by blast
  ultimately show ?thesis by (metis append.assoc)
qed

lemma mapR_Nil_iff: "mapR f xs = Inr [] \<longleftrightarrow> xs = []"
  by (cases xs) (auto simp: res_simps)

lemma hour_name_matches:
  assumes "0 \<le> game_id e" "isdigit sid" "name \<noteq> []" "\<forall>c \<in> set name. is_word c"
    and "0 \<le> day_of z t" "fst (civil (day_of z t)) < 10000"
  shows "hourly (game_id e) (out_file_name e (upload2center_hour z t) sid name)"
proof -
  have d: "date_text (dashed (day_of z t))" using assms(5,6) by (rule dashed_date)
  have h: "digits 2 (pad 2 (hour_of_day z t))" by (rule pad_two) (simp_all add: hour_of_day_def)
  have "u_date (upload2center_hour z t) @ ''.log'' = dashed (day_of z t) @ CHR ''_'' # pad 2 (hour_of_day z t) @ ''.log''"
    by (simp add: upload2center_hour_def Let_def)
  from out_match [OF tail_us(2) assms(1-4) d this tails(2) [OF d h]] show ?thesis by (simp add: hourly_def own_log_out)
qed

subsection \<open>From the log of a host to the file of the centre\<close>


lemma center_tasks_pos: "\<forall>(p, x) \<in> set center_tasks. 0 < p \<and> 0 \<le> x"
  by (simp add: center_tasks_def)

lemma center_runs_spaced:
  "looping z center_tasks st \<Longrightarrow> k < 2 \<Longrightarrow> spaced z (center_tasks ! k) (runs_of k st)"
  using tasks_spaced [OF _ center_tasks_pos, of z st k] by (simp add: center_tasks_def)


subsection \<open>The hypotheses can hold\<close>

lemma sample_days: "0 < day_of 0 (86400 * 17309)" "fst (civil (day_of 0 (86400 * 17309))) < 10000"
  "fst (civil (day_of 0 (86400 * 17309) - 1)) < 10000"
proof -
  have d: "day_of 0 (86400 * 17309) = 17309" by (simp add: day_of_def slot_def local_secs_def)
  have "fst (civil 17309) < 10000" "fst (civil 17308) < 10000" by code_simp+
  then show "0 < day_of 0 (86400 * 17309)" "fst (civil (day_of 0 (86400 * 17309))) < 10000"
    "fst (civil (day_of 0 (86400 * 17309) - 1)) < 10000" unfolding d by simp_all
qed

lemma names_agree_witness:
  "match_name tail_day (out_file_name sample_lenv (upload2center 0 (86400 * 17309)) ''1300551'' ''Pay_2'') = Some (lower ''Pay_2'')"
proof -
  have "0 \<le> game_id sample_lenv" "isdigit ''1300551''" "''Pay_2'' \<noteq> []" "\<forall>c \<in> set ''Pay_2''. is_word c" by code_simp+
  from names_agree [OF this sample_days] show ?thesis by blast
qed

definition sample_dir :: "(str \<times> str) list" where
  "sample_dir = [(''55_13_pay_2017-05-23_01.log'', ''a''), (''55_14_pay_2017-05-23_01.log'', ''b''), (''x'', ''c'')]"

lemma hour_rows_once_witness:
  "\<exists>d'. check_upload_bdchour 55 0 (86400 * 17309) sample_dir = (d', True) \<and> map_of d' ''55_13_pay_2017-05-23_01.log'' = None \<and>
     check_upload_bdchour 55 0 (86400 * 17309) d' = (d', False)"
proof -
  obtain d' sent where r: "check_upload_bdchour 55 0 (86400 * 17309) sample_dir = (d', sent)" by (metis surj_pair)
  have f: "filter (hourly 55) (map fst sample_dir) = [''55_13_pay_2017-05-23_01.log'', ''55_14_pay_2017-05-23_01.log'']" by code_simp
  have "(0 :: int) \<le> 55" "dict_ok sample_dir" by (simp_all add: dict_ok_def sample_dir_def)
  from hour_rows_once [OF this(1) _ sample_days(2) this(2) r] sample_days(1) r show ?thesis unfolding f by auto
qed

definition hour_walk :: "wdir list" where
  "hour_walk = [\<lparr>w_root = ''log/s2_center/20170523'', w_files = [(''realtime_2017052300.log'', [sample_line])]\<rparr>]"

lemma hour_upload: "upload2center_hour 0 (86400 * 17309) = \<lparr>u_root = ''20170523'', u_prefix = ''realtime_'', u_suffix = ''2017052300.log'',
    u_flagged = contains ''upflag'', u_sep = ''$$'', u_date = ''2017-05-23_00''\<rparr>"
proof -
  have "day_of 0 (86400 * 17309) = 17309" "hour_of_day 0 (86400 * 17309) = 0"
    by (simp_all add: day_of_def hour_of_day_def slot_def local_secs_def)
  moreover have "compact 17309 = ''20170523''" "dashed 17309 = ''2017-05-23''" "pad 2 (0 :: int) = ''00''" by code_simp+
  ultimately show ?thesis by (simp add: upload2center_hour_def Let_def)
qed

lemma hour_walk_run:
  "\<exists>sid. server_of sample_lenv ''log/s2_center/20170523'' = Inr sid \<and> isdigit sid \<and>
     check_upload2center_hour sample_lenv 0 (86400 * 17309) hour_walk =
       Inr [(''Pay'', out_file_name sample_lenv (upload2center_hour 0 (86400 * 17309)) sid ''Pay'', ''a$$$$c$$'' @ ROW_END)]"
proof -
  have "split_on ''/'' ''log/s2_center/20170523'' = [''log'', ''s2_center'', ''20170523'']" "find_sub ''_'' ''s2_center'' = Some 2"
    "int_of ''2'' = Inr 2" "''13'' @ pad 4 (game_id sample_lenv) = ''130055''" by code_simp+
  then have sid: "server_of sample_lenv ''log/s2_center/20170523'' = Inr (''130055'' @ int_str 100002)"
    by (simp add: server_of_def index_of_sub_def make_server_id_def)
  let ?u = "upload2center_hour 0 (86400 * 17309)"
  have w: "map snd (wanted ?u (hour_walk ! 0)) = [[sample_line]]" unfolding hour_upload by code_simp
  have hw: "hour_walk = [hour_walk ! 0]" and root: "w_root (hour_walk ! 0) = ''log/s2_center/20170523''" by (simp_all add: hour_walk_def)
  have "row_line ?u [''a'', [], ''c'', []] = ''a$$$$c$$'' @ ROW_END" unfolding hour_upload by code_simp
  then have "run_upload sample_lenv ?u [hour_walk ! 0] =
      Inr [(''Pay'', out_file_name sample_lenv ?u (''130055'' @ int_str 100002) ''Pay'', ''a$$$$c$$'' @ ROW_END)]"
    using sid w root by (auto simp: run_upload_def scan_dir_def add_line_def sample_parsed)
  moreover have "isdigit (''130055'' @ int_str 100002)"
    using digits_int_str [of 100002] by (simp add: isdigit_def digits_def is_digit_def)
  ultimately show ?thesis using sid hw unfolding check_upload2center_hour_def by metis
qed


end
