(* ===== verification/Py_Shell.thy ===== *)
theory Py_Shell
  imports Py_String
begin

text \<open>
  Scripts that act through other programs. A run is a list of events: \<open>os.system\<close>, a command whose
  output is read, a call without a shell, a statement sent to the database, a file written, a pause. What the other
  programs answer is an argument that sees all events before the question, so answers may change in any
  way between two questions. A program gives a result or an exception with its events, or \<open>None\<close> when it
  never returns.
\<close>

datatype event = Sys str | Out str | Call "str list" | Sql str | Put str str | Sleep

type_synonym 'a prog = "event list \<Rightarrow> ('a res \<times> event list) option"

named_theorems prog_simps \<open>equations of the programs that act through events\<close>

definition pret :: "'a \<Rightarrow> 'a prog" where
  "pret x h = Some (Inr x, h)"

definition plift :: "'a res \<Rightarrow> 'a prog" where
  "plift r h = Some (r, h)"

definition pbind :: "'a prog \<Rightarrow> ('a \<Rightarrow> 'b prog) \<Rightarrow> 'b prog" where
  "pbind m f h =
     (case m h of
        None \<Rightarrow> None
      | Some (r, h') \<Rightarrow> (case r of Inl e \<Rightarrow> Some (Inl e, h') | Inr x \<Rightarrow> f x h'))"

text \<open>A question \<open>c\<close> whose event is \<open>k c\<close> and whose answer comes from \<open>A\<close>.\<close>

definition ask :: "(event list \<Rightarrow> 'q \<Rightarrow> 'a res) \<Rightarrow> ('q \<Rightarrow> event) \<Rightarrow> 'q \<Rightarrow> 'a prog" where
  "ask A k c h = Some (A h c, h @ [k c])"

definition emit :: "event \<Rightarrow> unit prog" where
  "emit e h = Some (Inr (), h @ [e])"

definition peek :: "(event list \<Rightarrow> 'a) \<Rightarrow> 'a prog" where
  "peek f h = Some (Inr (f h), h)"

fun for_each :: "('x \<Rightarrow> unit prog) \<Rightarrow> 'x list \<Rightarrow> unit prog" where
  "for_each f [] = pret ()"
| "for_each f (x # xs) = pbind (f x) (\<lambda>_. for_each f xs)"

lemma prog_basic [prog_simps]:
  "pret x h = Some (Inr x, h)"
  "plift r h = Some (r, h)"
  "ask A k c h = Some (A h c, h @ [k c])"
  "emit e h = Some (Inr (), h @ [e])"
  "peek g h = Some (Inr (g h), h)"
  by (simp_all add: pret_def plift_def ask_def emit_def peek_def)

lemma pbind_cases [prog_simps]:
  "m h = None \<Longrightarrow> pbind m f h = None"
  "m h = Some (Inl e, h') \<Longrightarrow> pbind m f h = Some (Inl e, h')"
  "m h = Some (Inr x, h') \<Longrightarrow> pbind m f h = f x h'"
  by (simp_all add: pbind_def)

lemma pbind_returns: "pbind m f h = Some (Inr y, h2) \<longleftrightarrow> (\<exists>x h1. m h = Some (Inr x, h1) \<and> f x h1 = Some (Inr y, h2))"
  by (auto simp: pbind_def split: option.splits sum.splits)

lemma pbind_some: "pbind m f h = Some (r, h2) \<longleftrightarrow>
    (\<exists>e. m h = Some (Inl e, h2) \<and> r = Inl e) \<or> (\<exists>x h1. m h = Some (Inr x, h1) \<and> f x h1 = Some (r, h2))"
  by (auto simp: pbind_def split: option.splits sum.splits)

lemma prog_some:
  "pret x h = Some (r, h') \<longleftrightarrow> r = Inr x \<and> h' = h"
  "plift q h = Some (r, h') \<longleftrightarrow> q = r \<and> h' = h"
  "ask A k c h = Some (r, h') \<longleftrightarrow> A h c = r \<and> h' = h @ [k c]"
  "emit e h = Some (u, h') \<longleftrightarrow> u = Inr () \<and> h' = h @ [e]"
  "peek g h = Some (r, h') \<longleftrightarrow> r = Inr (g h) \<and> h' = h"
  by (auto simp: pret_def plift_def ask_def emit_def peek_def)

lemmas run_some = pbind_some prog_some

lemma pbind_assoc: "pbind (pbind m f) g = pbind m (\<lambda>x. pbind (f x) g)"
  by (rule ext) (auto simp: pbind_def split: option.splits sum.splits)

lemma for_each_append: "for_each f (xs @ ys) = pbind (for_each f xs) (\<lambda>_. for_each f ys)"
proof (induction xs)
  case Nil
  then show ?case by (rule ext) (simp add: prog_simps)
next
  case (Cons x xs)
  then show ?case by (simp add: pbind_assoc)
qed

text \<open>Actions alone: the events are those of the list, and nothing else happens.\<close>

lemma for_each_act: "for_each (\<lambda>x. emit (k x)) xs h = Some (Inr (), h @ map k xs)"
  by (induction xs arbitrary: h) (simp_all add: prog_simps)

text \<open>Events only come behind those already there, and each of them satisfies \<open>P\<close>.\<close>

definition emits :: "(event \<Rightarrow> bool) \<Rightarrow> 'a prog \<Rightarrow> bool" where
  "emits P m \<longleftrightarrow> (\<forall>h r h'. m h = Some (r, h') \<longrightarrow> (\<exists>t. h' = h @ t \<and> (\<forall>e \<in> set t. P e)))"

lemma emitsI: "(\<And>h r h'. m h = Some (r, h') \<Longrightarrow> \<exists>t. h' = h @ t \<and> (\<forall>e \<in> set t. P e)) \<Longrightarrow> emits P m"
  by (simp add: emits_def)

lemma emitsD: "emits P m \<Longrightarrow> m h = Some (r, h') \<Longrightarrow> \<exists>t. h' = h @ t \<and> (\<forall>e \<in> set t. P e)"
  unfolding emits_def by blast

lemma emits_basic [intro]:
  "emits P (pret x)" "emits P (plift r)" "P (k c) \<Longrightarrow> emits P (ask A k c)" "P e \<Longrightarrow> emits P (emit e)" "emits P (peek g)"
  by (auto simp: emits_def prog_simps)

lemma emits_bind [intro]:
  assumes m: "emits P m" and f: "\<And>x. emits P (f x)"
  shows "emits P (pbind m f)"
proof (rule emitsI)
  fix h r h'
  assume "pbind m f h = Some (r, h')"
  then consider e where "m h = Some (Inl e, h')" | x h1 where "m h = Some (Inr x, h1)" "f x h1 = Some (r, h')"
    unfolding pbind_some by blast
  then show "\<exists>t. h' = h @ t \<and> (\<forall>e \<in> set t. P e)"
  proof cases
    case 1
    then show ?thesis by (rule emitsD [OF m])
  next
    case 2
    obtain t where "h1 = h @ t" "\<forall>e \<in> set t. P e" using emitsD [OF m 2(1)] by blast
    moreover obtain u where "h' = h1 @ u" "\<forall>e \<in> set u. P e" using emitsD [OF f 2(2)] by blast
    ultimately show ?thesis by (intro exI [of _ "t @ u"]) auto
  qed
qed

lemma emits_if [intro]: "(b \<Longrightarrow> emits P m) \<Longrightarrow> (\<not> b \<Longrightarrow> emits P n) \<Longrightarrow> emits P (if b then m else n)"
  by simp

lemma emits_for_each [intro]: "(\<And>x. x \<in> set xs \<Longrightarrow> emits P (f x)) \<Longrightarrow> emits P (for_each f xs)"
  by (induction xs) auto

subsection \<open>The last occurrence of a text\<close>

lemma find_sub_least: "find_sub p s = Some i \<Longrightarrow> j < i \<Longrightarrow> \<not> starts_with p (drop j s)"
proof (induction s arbitrary: i j)
  case (Cons c s)
  then show ?case by (cases j) (auto split: if_splits)
qed (auto split: if_splits)

lemma rfind_sub_last:
  assumes none: "\<not> contains p (tl p @ b)" and p: "p \<noteq> []"
  shows "rfind_sub p (a @ p @ b) = Some (length a)"
proof -
  let ?s = "rev b @ rev p @ rev a"
  have "contains (rev p) ?s" by (auto simp: contains_iff)
  then obtain i where i: "find_sub (rev p) ?s = Some i" by (auto simp: contains_def)
  have here: "starts_with (rev p) (drop (length b) ?s)" by simp
  have "\<not> length b < i" using find_sub_least [OF i] here by blast
  moreover have "\<not> i < length b"
  proof
    assume less: "i < length b"
    have e: "?s = take i ?s @ rev p @ drop (i + length p) ?s"
      using conjunct2 [OF find_sub_Some [OF i]] unfolding length_rev .
    have bound: "i \<le> length ?s" using conjunct1 [OF find_sub_Some [OF i]] by linarith
    let ?t = "rev b @ rev (tl p)"
    have s: "?s = ?t @ hd p # rev a" using p by (cases p) auto
    have len: "i + length p \<le> length ?t" using less p by (cases p) auto
    obtain x y where e2: "?s = x @ rev p @ y" "length x = i"
      using e bound that [of "take i ?s" "drop (i + length p) ?s"] by (metis length_take min.absorb2)
    then have "(x @ rev p) @ y = ?t @ (hd p # rev a)" using s by simp
    then obtain us where "x @ rev p = ?t @ us \<or> (x @ rev p) @ us = ?t"
      unfolding append_eq_append_conv2 by blast
    moreover have "us = []" if "x @ rev p = ?t @ us"
      using arg_cong [OF that, of length] len e2(2) by simp
    ultimately obtain vs where "?t = x @ rev p @ vs" by (metis append.assoc append_Nil2)
    then have "rev ?t = rev vs @ p @ rev x" by (metis append.assoc rev_append rev_rev_ident)
    then have "contains p (rev ?t)" unfolding contains_iff by blast
    then show False using none by simp
  qed
  ultimately have "i = length b" by simp
  with i show ?thesis by (simp add: rfind_sub_def)
qed

end
