(* ===== verification/Svn_Review.thy ===== *)
theory Svn_Review
  imports Py_Shell
begin

text \<open>
  The client of the review server, \<^verbatim>\<open>RbTools/svnr.py\<close>: \<open>pr\<close> posts the files of a changelist for review and
  records their MD5 sums in the database of the commit hook, \<open>ci\<close> commits a changelist. What svn, rbt, MySQL,
  the file system and MD5 answer is an argument; the names in \<open>svnr_common_cfg\<close>, of which only the compiled
  file is kept, are too. The platform is not Windows. Log lines and messages on the terminal are left out.
\<close>

subsection \<open>The world around the script\<close>

datatype db_cell = CNull | CInt int | CText str

datatype cfg_file = Missing | Unreadable | Content str

record world =
  w_run :: "event list \<Rightarrow> str \<Rightarrow> str"
  w_sql :: "event list \<Rightarrow> str \<Rightarrow> db_cell list list res"
  w_read :: "str \<Rightarrow> str option"
  w_md5 :: "str \<Rightarrow> str"
  w_cfg :: cfg_file
  w_input :: str
  w_secret :: str
  w_writable :: bool
  w_cfg_path :: str
  t_review :: str
  t_md5 :: str
  t_list :: str
  review_version :: int
  review_url :: str

definition QT :: str where "QT = [CHR 0x27]"

definition NLS :: "nat \<Rightarrow> str" where "NLS n = CHR 0x0A # replicate n (CHR '' '')"

definition in_quotes :: "str \<Rightarrow> str" where "in_quotes s = QT @ s @ QT"

definition run_command :: "world \<Rightarrow> str \<Rightarrow> str prog" where
  "run_command w = ask (\<lambda>h c. Inr (w_run w h c)) Out"

definition execute :: "world \<Rightarrow> str \<Rightarrow> db_cell list list prog" where
  "execute w = ask (w_sql w) Sql"

text \<open>\<open>'%s' % x\<close> of a user name that may be \<open>None\<close>, and of a cell of a result row.\<close>

definition show_user :: "str option \<Rightarrow> str" where
  "show_user u = (case u of None \<Rightarrow> ''None'' | Some s \<Rightarrow> s)"

definition show_cell :: "db_cell \<Rightarrow> str" where
  "show_cell c = (case c of CNull \<Rightarrow> ''None'' | CInt i \<Rightarrow> int_str i | CText s \<Rightarrow> s)"

subsection \<open>Start: account and place in the repository\<close>

text \<open>
  \<open>finally: file_h.close()\<close> on a file that was never opened is an \<open>UnboundLocalError\<close>.
\<close>

definition get_user_and_pwd :: "world \<Rightarrow> (str \<times> str) option res" where
  "get_user_and_pwd w =
     (case w_cfg w of
        Missing \<Rightarrow> Inr None
      | Unreadable \<Rightarrow> Inl (RuntimeError ''UnboundLocalError'')
      | Content s \<Rightarrow>
          (let ls = split_on [CHR 0x0A] s in
           if length ls < 2 then Inr None else Inr (Some (ls ! 0, ls ! 1))))"

definition REL :: str where "REL = ''Relative URL: ^/''"

definition REL_CN :: str where
  "REL_CN = utf8 [0xE6,0xAD,0xA3,0xE7,0xA1,0xAE,0xE7,0x9A,0x84,0xE7,0x9B,0xB8,0xE5,0xAF,0xB9] @ '' URL: ^/''"

fun relative_path :: "str list \<Rightarrow> str \<Rightarrow> str \<Rightarrow> str" where
  "relative_path [] cur rt = drop (length rt + 1) cur"
| "relative_path (l # ls) cur rt =
     (if starts_with REL l then drop (length REL) l
      else if starts_with REL_CN l then drop (length REL_CN) l
      else if starts_with ''URL: '' l then relative_path ls (drop 5 l) rt
      else if starts_with ''Repository Root: '' l then relative_path ls cur (drop 17 l)
      else relative_path ls cur rt)"

definition init_relative_path :: "world \<Rightarrow> str prog" where
  "init_relative_path w =
     pbind (run_command w ''svn info'') (\<lambda>s. pret (relative_path (split_on [CHR 0x0A] s) [] []))"

definition init_all :: "world \<Rightarrow> ((str \<times> str) option \<times> str) prog" where
  "init_all w = pbind (plift (get_user_and_pwd w)) (\<lambda>u. pbind (init_relative_path w) (\<lambda>p. pret (u, p)))"

subsection \<open>The files of a changelist\<close>

definition list_header :: "str \<Rightarrow> str" where
  "list_header name = ''--- Changelist '' @ in_quotes name @ '':''"

definition list_header_cn :: "str \<Rightarrow> str" where
  "list_header_cn name =
     ''--- '' @ utf8 [0xE4,0xBF,0xAE,0xE6,0x94,0xB9,0xE5,0x88,0x97,0xE8,0xA1,0xA8] @ '' '' @ in_quotes name @ '':''"

text \<open>A line of a changelist gives its first two columns and the file; a line that starts with a blank gives nothing.\<close>

definition list_entry :: "str \<Rightarrow> (str \<times> str) list" where
  "list_entry l = (if hd l \<noteq> CHR '' '' then [(take 2 l, strip (drop 7 l))] else [])"

fun list_files :: "str \<Rightarrow> str list \<Rightarrow> bool \<Rightarrow> (str \<times> str) list" where
  "list_files name [] inside = []"
| "list_files name (l # ls) inside =
     (if l = list_header name \<or> l = list_header_cn name then list_files name ls True
      else if l = [] then list_files name ls False
      else if inside then list_entry l @ list_files name ls True
      else list_files name ls False)"

definition get_change_list_files :: "world \<Rightarrow> str \<Rightarrow> (str \<times> str) list prog" where
  "get_change_list_files w name =
     pbind (run_command w ''svn st'') (\<lambda>s. pret (list_files name (split_on [CHR 0x0A] s) False))"

text \<open>The name of a changelist must end as the branch of the working copy asks.\<close>

definition release_or_trunk :: "str \<Rightarrow> str \<Rightarrow> bool" where
  "release_or_trunk info name =
     (if contains ''release_'' info then ends_with ''release'' name
      else if contains ''branch_'' info then ends_with ''branch'' name
      else ends_with ''trunk'' name)"

definition check_release_or_trunk :: "world \<Rightarrow> str \<Rightarrow> bool prog" where
  "check_release_or_trunk w name =
     pbind (run_command w ''svn info'') (\<lambda>s. pret (release_or_trunk (strip s) name))"

subsection \<open>The sums of the files\<close>

text \<open>
  The hash object belongs to the module: \<open>fed\<close> is what it has been given so far. \<open>opened\<close> says that
  \<open>file_h\<close> is bound, so that \<open>finally: file_h.close()\<close> works.
\<close>

record hash_state =
  fed :: str
  opened :: bool

definition os_join :: "str \<Rightarrow> str \<Rightarrow> str" where
  "os_join a b =
     (if starts_with ''/'' b then b
      else if a = [] \<or> ends_with ''/'' a then a @ b
      else a @ ''/'' @ b)"

definition full_path :: "str \<Rightarrow> str \<Rightarrow> str" where
  "full_path rel f = replace_sub [CHR 0x5C] ''/'' (os_join rel f)"

definition file_md5 :: "world \<Rightarrow> str \<times> str \<Rightarrow> hash_state \<Rightarrow> (str \<times> hash_state) res" where
  "file_md5 w ff st =
     (if fst ff = ''D '' then Inr (''0'', st)
      else case w_read w (snd ff) of
        None \<Rightarrow> if opened st then Inr (''0'', st) else Inl (RuntimeError ''UnboundLocalError'')
      | Some c \<Rightarrow>
          (let st' = \<lparr>fed = fed st @ strip c, opened = True\<rparr> in Inr (w_md5 w (fed st'), st')))"

fun md5_rows :: "world \<Rightarrow> str \<Rightarrow> (str \<times> str) list \<Rightarrow> hash_state \<Rightarrow> (str \<times> str) list res" where
  "md5_rows w rel [] st = Inr []"
| "md5_rows w rel (ff # fs) st =
     rbind (file_md5 w ff st) (\<lambda>(v, st').
     rbind (md5_rows w rel fs st') (\<lambda>rs. Inr ((full_path rel (snd ff), v) # rs)))"

definition get_files_md5_list :: "world \<Rightarrow> str \<Rightarrow> (str \<times> str) list \<Rightarrow> (str \<times> str) list res" where
  "get_files_md5_list w rel fs = md5_rows w rel fs \<lparr>fed = [], opened = False\<rparr>"

subsection \<open>Posting a review: \<open>svnr pr\<close>\<close>

definition sql_lines :: "str list \<Rightarrow> str" where
  "sql_lines ls = concat (map (\<lambda>l. NLS 20 @ l) ls) @ NLS 18"

definition sql_find_review :: "world \<Rightarrow> str option \<Rightarrow> str \<Rightarrow> str" where
  "sql_find_review w u name =
     sql_lines [''select review_request_id'', ''from '' @ t_review w,
       ''where username = '' @ in_quotes (show_user u) @ '' and change_list_name = '' @ in_quotes name]"

definition sql_drop_review :: "world \<Rightarrow> str option \<Rightarrow> str \<Rightarrow> str" where
  "sql_drop_review w u name =
     sql_lines [''delete'', ''from '' @ t_review w,
       ''where change_list_name = '' @ in_quotes name @ '' and username = '' @ in_quotes (show_user u)]"

definition sql_add_review :: "world \<Rightarrow> str option \<Rightarrow> str \<Rightarrow> str \<Rightarrow> str" where
  "sql_add_review w u name rid =
     sql_lines [''insert'', ''into '' @ t_review w @ ''(review_request_id, change_list_name, username)'',
       ''values('' @ in_quotes rid @ '', '' @ in_quotes name @ '', '' @ in_quotes (show_user u) @ '')'']"

definition sql_drop_md5 :: "world \<Rightarrow> str \<Rightarrow> str" where
  "sql_drop_md5 w rid =
     sql_lines [''delete'', ''from '' @ t_md5 w, ''where review_request_id = '' @ in_quotes rid @ '' '']"

definition sql_add_md5 :: "world \<Rightarrow> str \<Rightarrow> str \<times> str \<Rightarrow> str" where
  "sql_add_md5 w rid fv =
     ''insert into '' @ t_md5 w @ ''(review_request_id, file_name, md5) '' @
     ''values('' @ in_quotes rid @ '', '' @ in_quotes (fst fv) @ '', '' @ in_quotes (snd fv) @ '')''"

definition sql_unship :: "str \<Rightarrow> str" where
  "sql_unship rid =
     sql_lines [''update reviews_review'', ''set ship_it = 0'', ''where review_request_id = '' @ in_quotes rid]"

definition update_md5_to_db :: "world \<Rightarrow> str \<Rightarrow> (str \<times> str) list \<Rightarrow> str \<Rightarrow> unit prog" where
  "update_md5_to_db w rel fs rid =
     pbind (plift (get_files_md5_list w rel fs)) (\<lambda>rs.
     pbind (execute w (sql_drop_md5 w rid)) (\<lambda>_.
     pbind (for_each (\<lambda>r. pbind (execute w (sql_add_md5 w rid r)) (\<lambda>_. pret ())) rs) (\<lambda>_.
     pbind (execute w (sql_unship rid)) (\<lambda>_. pret ()))))"

definition update_review_quest_to_db :: "world \<Rightarrow> str option \<Rightarrow> str \<Rightarrow> str \<Rightarrow> unit prog" where
  "update_review_quest_to_db w u name rid =
     pbind (execute w (sql_drop_review w u name)) (\<lambda>_.
     pbind (execute w (sql_add_review w u name rid)) (\<lambda>_. pret ()))"

text \<open>A new review, or another version of the one the database knows for this user and changelist.\<close>

definition first_cell :: "db_cell list list \<Rightarrow> db_cell option res" where
  "first_cell rows = (case rows of [] \<Rightarrow> Inr None | r # _ \<Rightarrow> rbind (nth_res r 0) (\<lambda>c. Inr (Some c)))"

definition post_command :: "(str \<times> str) \<Rightarrow> str \<Rightarrow> db_cell option \<Rightarrow> str list \<Rightarrow> str" where
  "post_command up name old fs =
     ''rbt post -d --username='' @ fst up @ '' --password='' @ snd up @ '' --summary='' @ strip name @ '' '' @
     (case old of None \<Rightarrow> [] | Some c \<Rightarrow> ''-r '' @ show_cell c @ '' '') @
     concat (map (\<lambda>f. ''-I '' @ f @ '' '') fs)"

definition get_post_request_cmd :: "world \<Rightarrow> (str \<times> str) option \<Rightarrow> str \<Rightarrow> (str \<times> str) list \<Rightarrow> str prog" where
  "get_post_request_cmd w u name fs =
     (case u of
        None \<Rightarrow> plift (Inl TypeError)
      | Some up \<Rightarrow>
          pbind (execute w (sql_find_review w (Some (fst up)) name)) (\<lambda>rows.
          pbind (plift (first_cell rows)) (\<lambda>old. pret (post_command up name old (map snd fs)))))"

text \<open>The number after the last \<open>/r/\<close> of the output, or the third part from its end.\<close>

definition slice_to :: "nat option \<Rightarrow> str \<Rightarrow> str" where
  "slice_to e s = (case e of None \<Rightarrow> butlast s | Some n \<Rightarrow> take n s)"

definition request_id :: "str \<Rightarrow> str res" where
  "request_id out =
     (let a = (case rfind_sub ''/r/'' out of None \<Rightarrow> 2 | Some i \<Rightarrow> i + 3);
          t = drop a out;
          rid = slice_to (find_sub ''/'' t) t
      in if parse_int rid \<noteq> None then Inr rid
         else let ps = split_on ''/'' (strip out) in
           if length ps < 3 then Inl IndexError else Inr (ps ! (length ps - 3)))"

definition post_run :: "world \<Rightarrow> (str \<times> str) option \<Rightarrow> str \<Rightarrow> str \<Rightarrow> unit prog" where
  "post_run w u rel name =
     pbind (get_change_list_files w name) (\<lambda>fs.
       if fs = [] then pret ()
       else pbind (check_release_or_trunk w name) (\<lambda>ok.
         if \<not> ok then pret ()
         else pbind (get_post_request_cmd w u name fs) (\<lambda>cmd.
              pbind (run_command w cmd) (\<lambda>out.
              pbind (plift (request_id out)) (\<lambda>rid.
              pbind (update_md5_to_db w rel fs rid) (\<lambda>_.
              update_review_quest_to_db w (map_option fst u) name rid))))))"

text \<open>
  \<open>OptionParser\<close> with \<open>-d VALUE\<close>, \<open>--debug VALUE\<close> and the help options: the arguments that are no options,
  or the exit code of the program. Long options may be shortened.
\<close>

definition long_of :: "str \<Rightarrow> (str \<times> str) list" where
  "long_of p = filter (\<lambda>(l, k). starts_with p l) [(''--debug'', ''d''), (''--help'', ''h'')]"

function parse_args :: "str list \<Rightarrow> str list \<Rightarrow> int + str list" where
  "parse_args [] acc = Inr acc"
| "parse_args (a # as) acc =
     (if a = ''--'' then Inr (acc @ as)
      else if starts_with ''--'' a then
        (let p = takeWhile (\<lambda>c. c \<noteq> CHR ''='') a in
         case long_of p of
           [(_, k)] \<Rightarrow>
             if k = ''h'' then Inl (if p = a then 0 else 2)
             else if p \<noteq> a then parse_args as acc
             else if as = [] then Inl 2 else parse_args (tl as) acc
         | _ \<Rightarrow> Inl 2)
      else if starts_with ''-'' a \<and> a \<noteq> ''-'' then
        (if a ! 1 = CHR ''h'' then Inl 0
         else if a ! 1 = CHR ''d'' then
           (if length a > 2 then parse_args as acc
            else if as = [] then Inl 2 else parse_args (tl as) acc)
         else Inl 2)
      else parse_args as (acc @ [a]))"
  by pat_completeness auto
termination by (relation "measure (\<lambda>(as, acc). length as)") (auto simp: less_Suc_eq_le)

definition post_request :: "world \<Rightarrow> str list \<Rightarrow> int prog" where
  "post_request w argv =
     pbind (init_all w) (\<lambda>(u, rel).
       if argv = [] then pret 0
       else case parse_args argv [] of
         Inl code \<Rightarrow> pret code
       | Inr as \<Rightarrow> pbind (plift (nth_res as 0)) (\<lambda>name. pbind (post_run w u rel name) (\<lambda>_. pret 0)))"

subsection \<open>Committing: \<open>svnr ci\<close>\<close>

definition sql_forbid :: "world \<Rightarrow> str option \<Rightarrow> str" where
  "sql_forbid w u = sql_lines [''delete'', ''from '' @ t_list w, ''where username = '' @ in_quotes (show_user u)]"

definition sql_permit :: "world \<Rightarrow> str option \<Rightarrow> str \<Rightarrow> str" where
  "sql_permit w u name =
     sql_lines [''insert'', ''into '' @ t_list w @ ''(changelist, username, isdir, version)'',
       ''values('' @ in_quotes name @ '', '' @ in_quotes (show_user u) @ '', 0, '' @ int_str (review_version w) @ '')'']"

definition sql_description :: "world \<Rightarrow> str option \<Rightarrow> str \<Rightarrow> str" where
  "sql_description w u name =
     NLS 20 @ ''select description'' @ NLS 20 @ ''from reviews_reviewrequest'' @ NLS 20 @ ''where id in('' @
     NLS 26 @ ''select review_request_id'' @ NLS 26 @ ''from '' @ t_review w @
     NLS 26 @ ''where change_list_name = '' @ in_quotes name @ '' and username = '' @ in_quotes (show_user u) @
     NLS 24 @ '')'' @ NLS 18"

definition description_of :: "db_cell list list \<Rightarrow> str res" where
  "description_of rows =
     rbind (first_cell rows) (\<lambda>c. case c of None \<Rightarrow> Inr [] | Some (CText t) \<Rightarrow> Inr t | _ \<Rightarrow> Inl TypeError)"

definition ci_command :: "str \<Rightarrow> str \<Rightarrow> str" where
  "ci_command name desc = ''svn ci --changelist '' @ name @ '' -m '' @ [CHR 0x22] @ desc @ [CHR 0x22]"

definition commit :: "world \<Rightarrow> str option \<Rightarrow> str \<Rightarrow> unit prog" where
  "commit w u name =
     pbind (execute w (sql_forbid w u)) (\<lambda>_.
     pbind (execute w (sql_permit w u name)) (\<lambda>_.
     pbind (execute w (sql_description w u name)) (\<lambda>rows.
     pbind (plift (description_of rows)) (\<lambda>desc.
     pbind (emit (Sys (ci_command name desc))) (\<lambda>_.
     pbind (execute w (sql_forbid w u)) (\<lambda>_. pret ()))))))"

definition commit_request :: "world \<Rightarrow> str list \<Rightarrow> int prog" where
  "commit_request w argv =
     pbind (init_all w) (\<lambda>(u, rel).
     pbind (plift (nth_res argv 0)) (\<lambda>name.
     pbind (commit w (map_option fst u) name) (\<lambda>_. pret 0)))"
subsection \<open>The command line\<close>

definition config_text :: "str \<Rightarrow> str \<Rightarrow> str" where
  "config_text u p = u @ [CHR 0x0A] @ p @ [CHR 0x0A]"

definition config_run :: "world \<Rightarrow> unit prog" where
  "config_run w =
     pbind (emit (Sys (''rbt setup-repo --server '' @ review_url w))) (\<lambda>_.
     pbind (run_command w (''svn propset reviewboard:url '' @ review_url w @ '' .'')) (\<lambda>_.
       if w_writable w then emit (Put (w_cfg_path w) (config_text (w_input w) (w_secret w)))
       else plift (Inl (RuntimeError ''UnboundLocalError''))))"

definition svn_args :: "str list \<Rightarrow> str" where
  "svn_args as = concat (map (\<lambda>a. if contains '' '' a then [CHR 0x22] @ a @ [CHR 0x22] @ '' '' else a @ '' '') as)"

definition svnr_run :: "world \<Rightarrow> str list \<Rightarrow> int prog" where
  "svnr_run w argv =
     (if argv = [] then plift (Inl IndexError)
      else if length argv = 1 \<or> last argv = [] then pret 0
      else if argv ! 1 \<notin> {''config'', ''pr'', ''ci''}
        then pbind (emit (Sys (''svn '' @ svn_args (drop 1 argv) @ '' ''))) (\<lambda>_. pret 0)
      else if argv ! 1 = ''config'' then pbind (config_run w) (\<lambda>_. pret 0)
      else if argv ! 1 = ''pr'' then post_request w (drop 2 argv)
      else commit_request w (drop 2 argv))"

text \<open>Every exception is printed and forgotten.\<close>

definition svnr_main :: "world \<Rightarrow> str list \<Rightarrow> int prog" where
  "svnr_main w argv h =
     (case svnr_run w argv h of Some (Inl e, h') \<Rightarrow> Some (Inr 0, h') | r \<Rightarrow> r)"
subsection \<open>The recorded sums\<close>

text \<open>
  What a file gives to the hash, everything the hash was given by a list of files, and the sum recorded for
  the file \<open>i\<close> of a changelist.
\<close>

definition sum_text :: "world \<Rightarrow> str \<times> str \<Rightarrow> str option" where
  "sum_text w ff = (if fst ff = ''D '' then None else map_option strip (w_read w (snd ff)))"

definition texts :: "world \<Rightarrow> (str \<times> str) list \<Rightarrow> str" where
  "texts w fs = concat (map (\<lambda>ff. case sum_text w ff of None \<Rightarrow> [] | Some c \<Rightarrow> c) fs)"

definition sum_after :: "world \<Rightarrow> str \<Rightarrow> (str \<times> str) list \<Rightarrow> str \<times> str \<Rightarrow> str" where
  "sum_after w before fs ff =
     (case sum_text w ff of None \<Rightarrow> ''0'' | Some c \<Rightarrow> w_md5 w (before @ texts w fs @ c))"

lemma texts_simps: "texts w [] = []" "texts w (ff # fs) = (case sum_text w ff of None \<Rightarrow> [] | Some c \<Rightarrow> c) @ texts w fs"
  by (simp_all add: texts_def)

definition first_opens :: "world \<Rightarrow> (str \<times> str) list \<Rightarrow> bool" where
  "first_opens w fs = (case filter (\<lambda>ff. fst ff \<noteq> ''D '') fs of [] \<Rightarrow> True | ff # _ \<Rightarrow> w_read w (snd ff) \<noteq> None)"

definition sum_of :: "world \<Rightarrow> (str \<times> str) list \<Rightarrow> nat \<Rightarrow> str" where
  "sum_of w fs i = (case sum_text w (fs ! i) of None \<Rightarrow> ''0'' | Some c \<Rightarrow> w_md5 w (texts w (take i fs) @ c))"

lemma md5_rows_eq:
  "md5_rows w rel fs st =
     (if opened st \<or> first_opens w fs
      then Inr (map (\<lambda>i. (full_path rel (snd (fs ! i)), sum_after w (fed st) (take i fs) (fs ! i))) [0..<length fs])
      else Inl (RuntimeError ''UnboundLocalError''))"
proof (induction fs arbitrary: st)
  case Nil
  then show ?case by (simp add: first_opens_def)
next
  case (Cons ff fs)
  have idx: "map f [0..<Suc n] = f 0 # map (\<lambda>i. f (Suc i)) [0..<n]" for f :: "nat \<Rightarrow> 'a" and n
    by (simp add: map_upt_Suc del: upt_Suc cong: option.case_cong)
  show ?case
  proof (cases "fst ff = ''D ''")
    case True
    then have "sum_text w ff = None" "first_opens w (ff # fs) = first_opens w fs"
      by (simp_all add: sum_text_def first_opens_def)
    with True show ?thesis
      by (simp add: Cons idx file_md5_def sum_after_def texts_simps del: upt_Suc cong: option.case_cong)
  next
    case live: False
    show ?thesis
    proof (cases "w_read w (snd ff)")
    case None
    with live have "sum_text w ff = None" "\<not> first_opens w (ff # fs)"
      by (simp_all add: sum_text_def first_opens_def)
    with None live show ?thesis
      by (simp add: Cons idx file_md5_def sum_after_def texts_simps del: upt_Suc cong: option.case_cong)
  next
    case (Some c)
    with live have "sum_text w ff = Some (strip c)" "first_opens w (ff # fs)"
      by (simp_all add: sum_text_def first_opens_def)
    with Some live show ?thesis
      by (simp add: Cons idx file_md5_def sum_after_def texts_simps Let_def del: upt_Suc cong: option.case_cong)
    qed
  qed
qed

text \<open>
  The sum recorded for a file is not that of its content: it is the sum of the contents of all readable files
  up to it, one after the other, since the hash object is never reset. Deleted and later unreadable files have
  the sum 0; a first file that cannot be read ends the program, because the handler closes a file that was
  never opened.
\<close>

theorem md5_cumulative:
  "get_files_md5_list w rel fs =
     (if first_opens w fs
      then Inr (map (\<lambda>i. (full_path rel (snd (fs ! i)), sum_of w fs i)) [0..<length fs])
      else Inl (RuntimeError ''UnboundLocalError''))"
  by (simp add: get_files_md5_list_def md5_rows_eq sum_of_def sum_after_def cong: option.case_cong)

subsection \<open>The run of \<open>svnr pr\<close>\<close>

text \<open>The number of the review is the one of the last address in the output of \<open>rbt post\<close>.\<close>

lemma request_id_last:
  assumes d: "isdigit rid" and none: "\<not> contains ''/r/'' (''r/'' @ rid @ ''/'' @ b)"
  shows "request_id (a @ ''/r/'' @ rid @ ''/'' @ b) = Inr rid"
proof -
  let ?out = "a @ ''/r/'' @ rid @ ''/'' @ b"
  have r: "rfind_sub ''/r/'' ?out = Some (length a)"
    by (rule rfind_sub_last) (use none in simp_all)
  have "CHR ''/'' \<notin> set rid" using d by (auto simp: isdigit_def is_digit_def)
  then have "find_sub ''/'' (rid @ ''/'' @ b) = Some (length rid)"
    using find_sub_single_append [of "CHR ''/''" rid b] by simp
  moreover have "parse_int rid \<noteq> None"
  proof -
    have "strip rid = rid" using d by (intro strip_no_ws) (auto simp: isdigit_def dest: is_digit_not_ws)
    moreover obtain c u where "rid = c # u" using d by (cases rid) (auto simp: isdigit_def)
    moreover have "c \<noteq> CHR ''-'' \<and> c \<noteq> CHR ''+''" using d calculation by (auto simp: isdigit_def is_digit_def)
    ultimately show ?thesis using d by (simp add: parse_int_def)
  qed
  ultimately show ?thesis using r by (auto simp: request_id_def slice_to_def Let_def)
qed

lemma for_each_execute:
  "for_each (\<lambda>r. pbind (execute w (k r)) (\<lambda>_. pret ())) xs h = Some (Inr (), h') \<Longrightarrow> h' = h @ map (\<lambda>r. Sql (k r)) xs"
proof (induction xs arbitrary: h)
  case (Cons r xs)
  from Cons.prems have "for_each (\<lambda>r. pbind (execute w (k r)) (\<lambda>_. pret ())) xs (h @ [Sql (k r)]) = Some (Inr (), h')"
    by (auto simp: run_some execute_def)
  from Cons.IH [OF this] show ?case by simp
qed (simp add: prog_simps)

definition demo :: world where
  "demo = \<lparr>w_run = (\<lambda>h c. if c = ''svn st'' then list_header ''a_trunk'' @ [CHR 0x0A] @ ''M       f'' else if c = ''svn info'' then ''URL: x'' else ''/r/7/''),
     w_sql = (\<lambda>h q. Inr []), w_read = (\<lambda>f. Some f), w_md5 = id, w_cfg = Missing, w_input = [], w_secret = [],
     w_writable = True, w_cfg_path = [], t_review = ''review'', t_md5 = ''md5'', t_list = ''list'',
     review_version = 3, review_url = []\<rparr>"


subsection \<open>The permission to commit\<close>

text \<open>
  The permission of the commit hook: a row of the user in the changelist table. A statement that raises changes
  nothing.
\<close>

fun permitted :: "world \<Rightarrow> str option \<Rightarrow> str \<Rightarrow> event list \<Rightarrow> event list \<Rightarrow> bool \<Rightarrow> bool" where
  "permitted w u name h [] b = b"
| "permitted w u name h (e # t) b =
     permitted w u name (h @ [e]) t
       (case e of
          Sql q \<Rightarrow>
            (case w_sql w h q of
               Inl _ \<Rightarrow> b
             | Inr _ \<Rightarrow> if q = sql_forbid w u then False else if q = sql_permit w u name then True else b)
        | _ \<Rightarrow> b)"

lemma statements_differ:
  "sql_forbid w u \<noteq> sql_permit w u' name" "sql_permit w u' name \<noteq> sql_forbid w u" "sql_description w u name \<noteq> sql_forbid w u'"
  "sql_description w u name \<noteq> sql_permit w u' name'"
  by (simp_all add: sql_forbid_def sql_permit_def sql_description_def sql_lines_def)

lemma commit_returns:
  "commit w u name h =
     (let a = Sql (sql_forbid w u); b = Sql (sql_permit w u name); c = Sql (sql_description w u name) in
      case w_sql w h (sql_forbid w u) of Inl e \<Rightarrow> Some (Inl e, h @ [a]) | Inr _ \<Rightarrow>
      case w_sql w (h @ [a]) (sql_permit w u name) of Inl e \<Rightarrow> Some (Inl e, h @ [a, b]) | Inr _ \<Rightarrow>
      case rbind (w_sql w (h @ [a, b]) (sql_description w u name)) description_of of
        Inl e \<Rightarrow> Some (Inl e, h @ [a, b, c])
      | Inr d \<Rightarrow>
          (let t = h @ [a, b, c, Sys (ci_command name d)] in
           Some (map_sum id (\<lambda>_. ()) (w_sql w t (sql_forbid w u)), t @ [a])))"
  by (simp add: commit_def pbind_def execute_def ask_def emit_def plift_def pret_def rbind_def Let_def split: sum.splits)
text \<open>
  C31. The commit runs only while the row that permits it is in the table, and a run that returns has committed
  and removed the row. A run that fails after the row was made leaves it there: whatever else the user commits
  by hand is then permitted, until the next run.
\<close>

theorem commit_permission:
  assumes ret: "commit w u name h = Some (r, h @ t)"
  shows "(\<forall>a c b. t = a @ Sys c # b \<longrightarrow> permitted w u name h a False \<and> (\<exists>d. c = ci_command name d)) \<and>
         (r = Inr () \<longrightarrow> (\<exists>d. Sys (ci_command name d) \<in> set t)) \<and>
         (permitted w u name h t False \<longleftrightarrow> r \<noteq> Inr () \<and> 3 \<le> length t)"
proof -
  let ?a = "Sql (sql_forbid w u)" and ?b = "Sql (sql_permit w u name)" and ?c = "Sql (sql_description w u name)"
  note defs = commit_returns Let_def statements_differ
  show ?thesis
  proof (cases "w_sql w h (sql_forbid w u)")
    case (Inl e)
    with ret have "t = [?a]" "r = Inl e" by (simp_all add: defs)
    then show ?thesis by (auto simp: Inl Cons_eq_append_conv)
  next
    case A: (Inr x)
    show ?thesis
    proof (cases "w_sql w (h @ [?a]) (sql_permit w u name)")
      case (Inl e)
      with ret A have "t = [?a, ?b]" "r = Inl e" by (simp_all add: defs)
      then show ?thesis using A Inl by (auto simp: Cons_eq_append_conv)
    next
      case B: (Inr y)
      show ?thesis
      proof (cases "rbind (w_sql w (h @ [?a, ?b]) (sql_description w u name)) description_of")
        case (Inl e)
        with ret A B have "t = [?a, ?b, ?c]" "r = Inl e" by (simp_all add: defs)
        then show ?thesis using A B by (auto simp: Cons_eq_append_conv statements_differ split: sum.splits)
      next
        case C: (Inr d)
        let ?z = "w_sql w (h @ [?a, ?b, ?c, Sys (ci_command name d)]) (sql_forbid w u)"
        from ret A B C have t: "t = [?a, ?b, ?c, Sys (ci_command name d), ?a]" "r = map_sum id (\<lambda>_. ()) ?z"
          by (simp_all add: defs)
        then show ?thesis using A B
          by (cases ?z) (auto simp: Cons_eq_append_conv statements_differ split: sum.splits)
      qed
    qed
  qed
qed

definition silent :: world where
  "silent = \<lparr>w_run = (\<lambda>h c. []), w_sql = (\<lambda>h q. Inr (if length h = 2 then [[CNull]] else [])), w_read = (\<lambda>f. None),
     w_md5 = id, w_cfg = Missing, w_input = [], w_secret = [], w_writable = True, w_cfg_path = [],
     t_review = ''review'', t_md5 = ''md5'', t_list = ''list'', review_version = 3, review_url = []\<rparr>"

theorem commit_permission_witness:
  "\<exists>t. commit silent None ''a_trunk'' [] = Some (Inl TypeError, t) \<and> permitted silent None ''a_trunk'' [] t False"
proof -
  have "\<exists>t. commit silent None ''a_trunk'' [] = Some (Inl TypeError, [] @ t) \<and> length t = 3"
    by (simp add: commit_returns silent_def Let_def description_of_def first_cell_def nth_res_def)
  then obtain t where t: "commit silent None ''a_trunk'' [] = Some (Inl TypeError, [] @ t)" "length t = 3" by blast
  from commit_permission [OF t(1)] t show ?thesis by auto
qed

end
