(* ===== verification/Svn_Help.thy ===== *)
theory Svn_Help
  imports Svn_Review Py_Time
begin

text \<open>
  The wrapper around svn and svnr, \<^verbatim>\<open>svnhelp.py\<close>: changelists are made and emptied by parts of names, and
  reviews and commits are started by a part of the changelist name. The output of svn, the regular expressions
  and the day are arguments. The last part says what \<open>svn st\<close> prints and that both scripts then read the same
  changelist from it.
\<close>

record helper =
  h_call :: "event list \<Rightarrow> str list \<Rightarrow> str res"
  h_search :: "str \<Rightarrow> (str \<Rightarrow> bool) res"
  h_day :: int
  h_svnr :: str

definition call :: "helper \<Rightarrow> str list \<Rightarrow> str prog" where
  "call w = ask (h_call w) Call"

definition svn_status :: "helper \<Rightarrow> str list prog" where
  "svn_status w = pbind (call w [''svn'', ''st'']) (\<lambda>s. pret (split_on [CHR 0x0A] s))"

definition is_header :: "str \<Rightarrow> bool" where
  "is_header l \<longleftrightarrow> starts_with ''--- Changelist'' l"

text \<open>\<open>line[start:end]\<close>, where \<open>end\<close> is \<open>-1\<close> if there is no second quote.\<close>

definition get_clname :: "str \<Rightarrow> str" where
  "get_clname l =
     (if \<not> is_header l then []
      else let t = drop (case find_sub QT l of None \<Rightarrow> 0 | Some i \<Rightarrow> i + 1) l in slice_to (find_sub QT t) t)"

definition get_filename_from_line :: "str \<Rightarrow> str" where
  "get_filename_from_line l = strip (drop 3 l)"

definition key_in :: "str list \<Rightarrow> str \<Rightarrow> bool" where
  "key_in ks l \<longleftrightarrow> ks = [] \<or> list_ex (\<lambda>k. contains k l) ks"

definition touched :: "str \<Rightarrow> bool" where
  "touched l \<longleftrightarrow> starts_with ''M  '' l \<or> starts_with ''D  '' l \<or> starts_with ''A  '' l"

definition mmdd :: "int \<Rightarrow> str" where
  "mmdd n = (let (y, m, d) = civil n in pad 2 m @ pad 2 d)"

definition matching_header :: "str \<Rightarrow> str list \<Rightarrow> str option" where
  "matching_header clname ls = find (\<lambda>l. is_header l \<and> contains clname l) ls"

definition cl_files :: "str list \<Rightarrow> str list \<Rightarrow> str list" where
  "cl_files ks ls =
     map get_filename_from_line (filter (\<lambda>l. touched l \<and> key_in ks l) (takeWhile (\<lambda>l. \<not> is_header l) ls))"

definition cl_name :: "helper \<Rightarrow> str \<Rightarrow> str list \<Rightarrow> str" where
  "cl_name w clname ls =
     (case matching_header clname ls of
        Some l \<Rightarrow> get_clname l
      | None \<Rightarrow> clname @ mmdd (h_day w) @ ''_trunk'')"

definition cl :: "helper \<Rightarrow> str \<Rightarrow> str list \<Rightarrow> unit prog" where
  "cl w clname ks =
     pbind (svn_status w) (\<lambda>ls.
       if cl_files ks ls = [] then pret ()
       else pbind (call w ([''svn'', ''cl'', cl_name w clname ls] @ cl_files ks ls)) (\<lambda>_.
            pbind (call w [''svn'', ''st'']) (\<lambda>_. pret ())))"

fun clremove_files :: "str \<Rightarrow> str list \<Rightarrow> str list \<Rightarrow> bool \<Rightarrow> str list" where
  "clremove_files clname ks [] begun = []"
| "clremove_files clname ks (l # ls) begun =
     (if is_header l then (if begun then [] else clremove_files clname ks ls (contains clname l))
      else if begun \<and> key_in ks l then get_filename_from_line l # clremove_files clname ks ls begun
      else clremove_files clname ks ls begun)"

definition clremove :: "helper \<Rightarrow> str \<Rightarrow> str list \<Rightarrow> unit prog" where
  "clremove w clname ks =
     pbind (svn_status w) (\<lambda>ls.
       let fs = clremove_files clname ks ls False in
       if fs = [] then pret ()
       else pbind (call w ([''svn'', ''cl'', ''--remove''] @ fs)) (\<lambda>_.
            pbind (call w [''svn'', ''st'']) (\<lambda>_. pret ())))"

definition full_name :: "str \<Rightarrow> str list \<Rightarrow> str" where
  "full_name clname ls = (case matching_header clname ls of None \<Rightarrow> [] | Some l \<Rightarrow> get_clname l)"

definition pr :: "helper \<Rightarrow> str \<Rightarrow> unit prog" where
  "pr w clname =
     pbind (svn_status w) (\<lambda>ls.
       if full_name clname ls = [] then pret ()
       else emit (Sys (''python '' @ h_svnr w @ '' pr '' @ full_name clname ls)))"

definition ci :: "helper \<Rightarrow> str \<Rightarrow> str list \<Rightarrow> unit prog" where
  "ci w clname as =
     pbind (svn_status w) (\<lambda>ls.
       if full_name clname ls = [] then pret ()
       else emit (Sys (''python '' @ h_svnr w @ '' ci '' @ full_name clname ls @ '' '' @ join '' '' as)))"

definition svndiff :: "helper \<Rightarrow> str \<Rightarrow> unit prog" where
  "svndiff w pattern =
     pbind (plift (h_search w pattern)) (\<lambda>search.
     pbind (svn_status w) (\<lambda>ls.
       let fs = map get_filename_from_line (filter (\<lambda>l. touched l \<and> search l) ls) in
       if fs = [] then pret ()
       else pbind (call w ([''svn'', ''diff''] @ fs)) (\<lambda>_. pret ())))"

text \<open>
  \<open>globals()[op](*args)\<close>: the commands, but also the other functions of the module, and a \<open>main\<close> that calls
  itself for ever; a wrong number of arguments and a global that is no function are a \<open>TypeError\<close>.
\<close>

definition other_globals :: "str list" where
  "other_globals = [''sys'', ''subprocess'', ''datetime'', ''re'', ''os'', ''this_dir'', ''svnr_path'',
     ''__name__'', ''__doc__'', ''__file__'', ''__package__'', ''__builtins__'']"

definition svnhelp_main :: "helper \<Rightarrow> str list \<Rightarrow> unit prog" where
  "svnhelp_main w argv =
     (case drop 1 argv of
        [] \<Rightarrow> pret ()
      | opr # as \<Rightarrow>
          if opr = ''cl'' then (case as of [] \<Rightarrow> plift (Inl TypeError) | c # ks \<Rightarrow> cl w c ks)
          else if opr = ''clremove'' then (case as of [] \<Rightarrow> plift (Inl TypeError) | c # ks \<Rightarrow> clremove w c ks)
          else if opr = ''pr'' then (case as of [c] \<Rightarrow> pr w c | _ \<Rightarrow> plift (Inl TypeError))
          else if opr = ''ci'' then (case as of [] \<Rightarrow> plift (Inl TypeError) | c # r \<Rightarrow> ci w c r)
          else if opr = ''svndiff'' then
            (case as of [] \<Rightarrow> svndiff w [] | [p] \<Rightarrow> svndiff w p | _ \<Rightarrow> plift (Inl TypeError))
          else if opr = ''get_clname'' \<or> opr = ''get_filename_from_line'' then
            (case as of [x] \<Rightarrow> pret () | _ \<Rightarrow> plift (Inl TypeError))
          else if opr = ''main'' then
            plift (Inl (if as = [] then RuntimeError ''maximum recursion depth exceeded'' else TypeError))
          else if opr \<in> set other_globals then plift (Inl TypeError)
          else plift (Inl KeyError))"

subsection \<open>What \<open>svn st\<close> prints\<close>

text \<open>
  First the lines of the files in no changelist, then for each changelist an empty line, its header and its
  lines; every line ends with a newline.
\<close>

record status =
  loose :: "str list"
  lists :: "(str \<times> str list) list"

definition block :: "str \<times> str list \<Rightarrow> str list" where
  "block b = [] # list_header (fst b) # snd b"

definition status_lines :: "status \<Rightarrow> str list" where
  "status_lines s = loose s @ concat (map block (lists s)) @ [[]]"

definition status_text :: "status \<Rightarrow> str" where
  "status_text s = join [CHR 0x0A] (status_lines s)"

definition file_line :: "str \<Rightarrow> bool" where
  "file_line l \<longleftrightarrow> l \<noteq> [] \<and> CHR 0x0A \<notin> set l \<and> \<not> starts_with ''--- '' l"

definition list_name_ok :: "str \<Rightarrow> bool" where
  "list_name_ok n \<longleftrightarrow> n \<noteq> [] \<and> CHR 0x0A \<notin> set n \<and> CHR 0x27 \<notin> set n"

definition status_ok :: "status \<Rightarrow> bool" where
  "status_ok s \<longleftrightarrow> list_all file_line (loose s) \<and> distinct (map fst (lists s)) \<and>
     list_all (\<lambda>(n, ls). list_name_ok n \<and> list_all file_line ls) (lists s)"

lemma letter_C: "CHR ''C'' \<noteq> char_of (228 :: nat)"
  by code_simp

lemma header_shape:
  "is_header (list_header n)" "list_header n \<noteq> []" "list_header n \<noteq> list_header_cn m"
  "list_header n = list_header m \<longleftrightarrow> n = m" "starts_with ''--- '' (list_header n)" "starts_with ''--- '' (list_header_cn n)"
  by (auto simp: is_header_def list_header_def list_header_cn_def in_quotes_def QT_def starts_with_def utf8_def letter_C)

lemma file_line_no_header: "file_line l \<Longrightarrow> \<not> is_header l \<and> l \<noteq> list_header n \<and> l \<noteq> list_header_cn n \<and> l \<noteq> []"
proof -
  assume l: "file_line l"
  have "starts_with ''--- '' l" if "is_header l"
    using that by (auto simp: is_header_def starts_with_split)
  then show ?thesis using l header_shape(5,6) by (auto simp: file_line_def)
qed

lemma empty_no_header: "\<not> is_header []"
  by (simp add: is_header_def starts_with_def)

lemma split_status: "status_ok s \<Longrightarrow> split_on [CHR 0x0A] (status_text s) = status_lines s"
  unfolding status_text_def
  by (rule split_join_single)
    (auto simp: status_lines_def block_def status_ok_def list_all_iff file_line_def list_header_def in_quotes_def QT_def
      list_name_ok_def)

lemma list_files_plain:
  "list_all file_line ls \<Longrightarrow>
   list_files n (ls @ rest) b = (if b then concat (map list_entry ls) else []) @ list_files n rest b"
proof (induction ls)
  case (Cons l ls)
  then have "list_files n ((l # ls) @ rest) b = (if b then list_entry l else []) @ list_files n (ls @ rest) b"
    using file_line_no_header [of l n] by (cases b) simp_all
  with Cons show ?case by (cases b) simp_all
qed simp

text \<open>The files of the changelists with one name, in order.\<close>

lemma list_files_blocks:
  "list_all (\<lambda>(m, ls). list_name_ok m \<and> list_all file_line ls) bs \<Longrightarrow>
   list_files n (concat (map block bs) @ [[]]) b =
     concat (map (\<lambda>(m, ls). if m = n then concat (map list_entry ls) else []) bs)"
proof (induction bs arbitrary: b)
  case Nil
  then show ?case using header_shape(2) [of n] by (auto simp: list_header_cn_def)
next
  case (Cons x bs)
  obtain m ls where x: "x = (m, ls)" by (cases x)
  have no: "list_header_cn n \<noteq> []" by (simp add: list_header_cn_def)
  have "list_files n (list_header m # ls @ concat (map block bs) @ [[]]) False =
      list_files n (ls @ concat (map block bs) @ [[]]) (m = n)"
    using header_shape(3) [of m n] by (auto simp: header_shape(4))
  then show ?case
    using Cons header_shape(2) [of n] header_shape(3) [of m n] no
    by (auto simp: x block_def list_files_plain header_shape(4))
qed

lemma list_files_status:
  assumes "status_ok s"
  shows "list_files n (split_on [CHR 0x0A] (status_text s)) False =
     (case map_of (lists s) n of None \<Rightarrow> [] | Some ls \<Rightarrow> concat (map list_entry ls))"
proof -
  have "concat (map (\<lambda>(m, ls). if m = n then concat (map list_entry ls) else []) bs) =
      (case map_of bs n of None \<Rightarrow> [] | Some ls \<Rightarrow> concat (map list_entry ls))"
    if "distinct (map fst bs)" for bs
    using that
  proof (induction bs)
    case (Cons x bs)
    have "n \<notin> fst ` set bs \<Longrightarrow> map_of bs n = None" by (simp add: map_of_eq_None_iff)
    with Cons show ?case by (cases x) auto
  qed simp
  then show ?thesis using assms
    by (simp add: split_status status_lines_def status_ok_def list_files_plain list_files_blocks)
qed

subsection \<open>The wrapper and the client read the same changelist\<close>

lemma find_none: "list_all (\<lambda>x. \<not> P x) xs \<Longrightarrow> find P xs = None"
  by (induction xs) auto

definition matching_list :: "str \<Rightarrow> status \<Rightarrow> (str \<times> str list) option" where
  "matching_list key s = find (\<lambda>b. contains key (list_header (fst b))) (lists s)"

lemma matching_header_status:
  assumes "status_ok s"
  shows "matching_header key (status_lines s) = map_option (\<lambda>b. list_header (fst b)) (matching_list key s)"
proof -
  let ?P = "\<lambda>l. is_header l \<and> contains key l"
  have plain: "find ?P ls = None" if "list_all file_line ls" for ls
    using that by (intro find_none) (auto simp: list_all_iff dest: file_line_no_header)
  have "find ?P (concat (map block bs) @ [[]]) =
      map_option (\<lambda>b. list_header (fst b)) (find (\<lambda>b. contains key (list_header (fst b))) bs)"
    if "list_all (\<lambda>(m, ls). list_name_ok m \<and> list_all file_line ls) bs" for bs
    using that
    by (induction bs) (auto simp: empty_no_header block_def header_shape(1) find_append plain split: option.split)
  then show ?thesis using assms
    by (simp add: matching_header_def matching_list_def status_lines_def find_append plain status_ok_def)
qed

lemma get_clname_header: "list_name_ok n \<Longrightarrow> get_clname (list_header n) = n"
proof -
  assume n: "list_name_ok n"
  have "find_sub QT (list_header n) = Some (length ''--- Changelist '')"
    unfolding list_header_def in_quotes_def QT_def
    using find_sub_single_append [of "CHR 0x27" "''--- Changelist ''" "n @ CHR 0x27 # '':''"] by simp
  moreover have "find_sub QT (n @ QT @ '':'') = Some (length n)"
    unfolding QT_def using n find_sub_single_append [of "CHR 0x27" n "'':''"] by (simp add: list_name_ok_def)
  ultimately show ?thesis
    by (simp add: get_clname_def header_shape(1) slice_to_def) (simp add: list_header_def in_quotes_def QT_def)
qed

lemma matching_list_entry:
  assumes ok: "status_ok s" and m: "matching_list key s = Some (n, ls)"
  shows "map_of (lists s) n = Some ls" "list_name_ok n" "list_all file_line ls"
proof -
  have "(n, ls) \<in> set (lists s)" using m unfolding matching_list_def by (auto simp: find_Some_iff)
  then show "map_of (lists s) n = Some ls" "list_name_ok n" "list_all file_line ls"
    using ok by (auto simp: status_ok_def list_all_iff map_of_eq_Some_iff)
qed


definition two_lists :: status where
  "two_lists = \<lparr>loose = [''?       x''], lists = [(''fix_trunk'', [''M       a.lua'', ''A       b.lua'']), (''ui_trunk'', [''M       c.lua''])]\<rparr>"


text \<open>A changelist that \<open>cl\<close> makes can be posted from the trunk only: its name always ends with \<open>_trunk\<close>.\<close>

theorem cl_name_fits:
  assumes "status_ok s" "matching_list key s = None"
  shows "release_or_trunk info (cl_name w key (status_lines s)) \<longleftrightarrow>
    \<not> contains ''release_'' info \<and> \<not> contains ''branch_'' info"
proof -
  have n: "cl_name w key (status_lines s) = (key @ mmdd (h_day w)) @ ''_trunk''"
    using assms by (simp add: cl_name_def matching_header_status)
  show ?thesis unfolding n by (simp add: release_or_trunk_def ends_with_def starts_with_def)
qed

text \<open>\<open>cl\<close> takes files that are in no changelist only.\<close>

lemma cl_files_status:
  assumes "status_ok s"
  shows "cl_files ks (status_lines s) = map get_filename_from_line (filter (\<lambda>l. touched l \<and> key_in ks l) (loose s))"
proof -
  have "takeWhile (\<lambda>l. \<not> is_header l) (loose s @ r) = loose s @ takeWhile (\<lambda>l. \<not> is_header l) r" for r
    using assms by (intro takeWhile_append2) (auto simp: status_ok_def list_all_iff dest: file_line_no_header)
  moreover have "takeWhile (\<lambda>l. \<not> is_header l) (concat (map block (lists s)) @ [[]]) = [[]]"
    by (cases "lists s") (simp_all add: empty_no_header block_def header_shape(1))
  moreover have "\<not> touched []" by (simp add: touched_def starts_with_def)
  ultimately show ?thesis by (simp add: cl_files_def status_lines_def)
qed

text \<open>
  \<open>clremove\<close> without keys also takes the empty line behind the changelist for a file: svn is called with an
  empty file name besides the files of the list.
\<close>

lemma clremove_plain:
  "list_all file_line ls \<Longrightarrow>
   clremove_files key [] (ls @ r) b = (if b then map get_filename_from_line ls else []) @ clremove_files key [] r b"
proof (induction ls)
  case (Cons l ls)
  then show ?case using file_line_no_header [of l] by (cases b) (auto simp: key_in_def)
qed simp

theorem clremove_empty_name:
  assumes "status_ok s"
  shows "clremove_files key [] (status_lines s) False =
    (case matching_list key s of None \<Rightarrow> [] | Some (n, ls) \<Rightarrow> map get_filename_from_line ls @ [[]])"
proof -
  have e: "get_filename_from_line [] = []" by (simp add: get_filename_from_line_def strip_def)
  have stop: "clremove_files key [] (concat (map block bs) @ [[]]) True = [[]]" for bs
    by (cases bs) (simp_all add: empty_no_header block_def header_shape(1) key_in_def e)
  have "clremove_files key [] (concat (map block bs) @ [[]]) False =
      (case find (\<lambda>b. contains key (list_header (fst b))) bs of None \<Rightarrow> [] | Some (n, ls) \<Rightarrow> map get_filename_from_line ls @ [[]])"
    if "list_all (\<lambda>(m, ls). list_name_ok m \<and> list_all file_line ls) bs" for bs
    using that
    by (induction bs) (auto simp: empty_no_header block_def header_shape(1) clremove_plain stop)
  then show ?thesis using assms
    by (simp add: matching_list_def status_lines_def clremove_plain status_ok_def)
qed
end
