(* ===== verification/Server_Run.thy ===== *)
theory Server_Run
  imports Py_Shell
begin

text \<open>
  The scripts that start and stop the nodes: \<^verbatim>\<open>_shut_utils.py\<close>, \<^verbatim>\<open>shutdown_all.py\<close>, \<^verbatim>\<open>start_all.py\<close>,
  \<^verbatim>\<open>shutdown_server.py\<close>, \<^verbatim>\<open>start_server.py\<close>, \<^verbatim>\<open>server_mgr.py\<close>, and the two for one process,
  \<^verbatim>\<open>tools/deploy/check_skynet.py\<close> and \<^verbatim>\<open>tools/deploy/check_py_process.py\<close>. What \<open>check_output\<close> and
  \<open>os.path.isfile\<close> answer is an argument that depends on all that happened before, so that processes end and
  appear as they like. A loop that waits is \<open>None\<close> when it waits for ever. A script that another one runs with
  \<open>os.system\<close> is run in place, and its failure is not noticed. Messages on the terminal are left out.
\<close>

record host =
  check :: "event list \<Rightarrow> str \<Rightarrow> str res"
  isfile :: "event list \<Rightarrow> str \<Rightarrow> bool"

definition check_output :: "host \<Rightarrow> str \<Rightarrow> str prog" where
  "check_output w = ask (check w) Out"

definition os_system :: "str \<Rightarrow> unit prog" where
  "os_system c = emit (Sys c)"

definition out_lines :: "str \<Rightarrow> str list" where
  "out_lines s = split_on [CHR 0x0A] s"

subsection \<open>Waiting\<close>

text \<open>Ask the same question until the answer is good, with a pause after each bad answer.\<close>

partial_function (option) poll :: "host \<Rightarrow> str \<Rightarrow> (str \<Rightarrow> bool) \<Rightarrow> unit prog" where
  "poll w c good h =
     (case check w h c of
        Inl e \<Rightarrow> Some (Inl e, h @ [Out c])
      | Inr s \<Rightarrow> if good s then Some (Inr (), h @ [Out c]) else poll w c good (h @ [Out c, Sleep]))"

definition waited :: "str \<Rightarrow> nat \<Rightarrow> event list" where
  "waited c n = concat (replicate n [Out c, Sleep])"

lemma waited_simps: "waited c 0 = []" "waited c (Suc n) = [Out c, Sleep] @ waited c n"
  by (simp_all add: waited_def)

text \<open>The run that ends with the bad answers before it.\<close>

definition poll_ends :: "host \<Rightarrow> str \<Rightarrow> (str \<Rightarrow> bool) \<Rightarrow> event list \<Rightarrow> unit res \<times> event list \<Rightarrow> bool" where
  "poll_ends w c good h q \<longleftrightarrow>
     (\<exists>n. snd q = h @ waited c n @ [Out c] \<and>
        (case check w (h @ waited c n) c of Inl e \<Rightarrow> fst q = Inl e | Inr s \<Rightarrow> fst q = Inr () \<and> good s))"

lemma poll_ends_0:
  "(case check w h c of Inl e \<Rightarrow> fst q = Inl e | Inr s \<Rightarrow> fst q = Inr () \<and> good s) \<Longrightarrow> snd q = h @ [Out c] \<Longrightarrow> poll_ends w c good h q"
  unfolding poll_ends_def by (rule exI [of _ 0]) (simp add: waited_simps)

lemma poll_ends_Suc: "poll_ends w c good (h @ [Out c, Sleep]) q \<Longrightarrow> poll_ends w c good h q"
  unfolding poll_ends_def
proof (elim exE)
  fix n
  assume "snd q = (h @ [Out c, Sleep]) @ waited c n @ [Out c] \<and>
      (case check w ((h @ [Out c, Sleep]) @ waited c n) c of Inl e \<Rightarrow> fst q = Inl e | Inr s \<Rightarrow> fst q = Inr () \<and> good s)"
  then have "snd q = h @ waited c (Suc n) @ [Out c] \<and>
      (case check w (h @ waited c (Suc n)) c of Inl e \<Rightarrow> fst q = Inl e | Inr s \<Rightarrow> fst q = Inr () \<and> good s)"
    by (simp only: waited_simps append_assoc)
  then show "\<exists>n. snd q = h @ waited c n @ [Out c] \<and>
      (case check w (h @ waited c n) c of Inl e \<Rightarrow> fst q = Inl e | Inr s \<Rightarrow> fst q = Inr () \<and> good s)" by blast
qed

lemma poll_result: "poll w c good h = Some q \<Longrightarrow> poll_ends w c good h q"
proof (rule poll.raw_induct [where P = poll_ends])
  fix f w c good h q
  assume IH: "\<And>w c good h q. f w c good h = Some q \<Longrightarrow> poll_ends w c good h q"
    and eq: "(case check w h c of Inl e \<Rightarrow> Some (Inl e, h @ [Out c])
      | Inr s \<Rightarrow> if good s then Some (Inr (), h @ [Out c]) else f w c good (h @ [Out c, Sleep])) = Some q"
  show "poll_ends w c good h q"
  proof (cases "\<exists>s. check w h c = Inr s \<and> \<not> good s")
    case True
    then obtain s where s: "check w h c = Inr s" "\<not> good s" by blast
    from eq have "f w c good (h @ [Out c, Sleep]) = Some q" unfolding s(1) using s(2) by simp
    then show ?thesis by (rule poll_ends_Suc [OF IH])
  next
    case False
    show ?thesis
    proof (cases "check w h c")
      case (Inl e)
      with eq have "q = (Inl e, h @ [Out c])" by simp
      with Inl show ?thesis by (intro poll_ends_0) simp_all
    next
      case (Inr s)
      with False have "good s" by blast
      with eq Inr have "q = (Inr (), h @ [Out c])" by simp
      with Inr \<open>good s\<close> show ?thesis by (intro poll_ends_0) simp_all
    qed
  qed
qed

lemma poll_success:
  assumes "poll w c good h = Some (Inr (), h')"
  obtains n s where "h' = h @ waited c n @ [Out c]" "check w (h @ waited c n) c = Inr s" "good s"
proof -
  from poll_result [OF assms] obtain n where n: "h' = h @ waited c n @ [Out c]"
      "case check w (h @ waited c n) c of Inl e \<Rightarrow> (Inr () :: unit res) = Inl e | Inr s \<Rightarrow> (Inr () :: unit res) = Inr () \<and> good s"
    unfolding poll_ends_def fst_conv snd_conv by (elim exE conjE) (rule that)
  show thesis
  proof (cases "check w (h @ waited c n) c")
    case (Inl e)
    with n(2) show thesis by simp
  next
    case (Inr s)
    with n(2) have "good s" by simp
    from that [OF n(1) Inr this] show thesis .
  qed
qed

lemma poll_enough:
  "(case check w (h @ waited c n) c of Inl e \<Rightarrow> True | Inr s \<Rightarrow> good s) \<Longrightarrow> \<exists>q. poll w c good h = Some q"
proof (induction n arbitrary: h)
  case 0
  then show ?case by (subst poll.simps) (auto simp: waited_simps split: sum.splits)
next
  case (Suc n)
  then have "\<exists>q. poll w c good (h @ [Out c, Sleep]) = Some q" by (simp add: waited_simps)
  then show ?case by (subst poll.simps) (auto split: sum.splits)
qed

text \<open>The loop returns exactly when some answer is good or the question fails.\<close>

lemma poll_returns:
  "poll w c good h \<noteq> None \<longleftrightarrow> (\<exists>n. case check w (h @ waited c n) c of Inl e \<Rightarrow> True | Inr s \<Rightarrow> good s)"
proof
  assume "poll w c good h \<noteq> None"
  then obtain q where "poll w c good h = Some q" by blast
  from poll_result [OF this] show "\<exists>n. case check w (h @ waited c n) c of Inl e \<Rightarrow> True | Inr s \<Rightarrow> good s"
    by (auto simp: poll_ends_def split: sum.splits)
next
  assume "\<exists>n. case check w (h @ waited c n) c of Inl e \<Rightarrow> True | Inr s \<Rightarrow> good s"
  then show "poll w c good h \<noteq> None" using poll_enough by fastforce
qed

subsection \<open>One node\<close>

definition grep_pid :: "str \<Rightarrow> str" where
  "grep_pid p = p @ '' | grep -v grep | awk '' @ [CHR 0x27] @ ''{print $2}'' @ [CHR 0x27]"

definition skynet_ps :: "str \<Rightarrow> str" where
  "skynet_ps config = grep_pid (''ps aux | grep skynet | grep '' @ config)"

definition basename :: "str \<Rightarrow> str" where
  "basename p = last (split_on ''/'' p)"

text \<open>\<open>name[:-4]\<close> and \<open>name[:-3]\<close>.\<close>

definition cut :: "nat \<Rightarrow> str \<Rightarrow> str" where
  "cut n s = take (length s - n) s"

definition shutdown_skynet :: "host \<Rightarrow> str \<Rightarrow> bool \<Rightarrow> unit prog" where
  "shutdown_skynet w config kill =
     pbind (check_output w (skynet_ps config)) (\<lambda>pid.
       if strip pid = [] then pret ()
       else if kill then os_system (''kill '' @ strip pid)
       else pbind (os_system (''touch status/'' @ cut 4 (basename config) @ ''.shuting'')) (\<lambda>_.
            poll w (skynet_ps config) (\<lambda>s. s = [])))"

definition launch :: "str \<Rightarrow> str" where
  "launch config =
     ''LD_PRELOAD=build/libtcmalloc.so.4.4.5 bin/skynet config/'' @ config @ '' >> log/'' @ cut 4 config @ ''.log 2>&1 &''"

definition start_node :: "str \<Rightarrow> unit prog" where
  "start_node config =
     pbind (os_system (''touch status/'' @ cut 4 config @ ''.starting'')) (\<lambda>_. os_system (launch config))"

definition starting_files :: "str \<Rightarrow> str list" where
  "starting_files s = filter (ends_with ''.starting'') (out_lines s)"

text \<open>\<open>ls\<close> is the command with which the script lists the status directory.\<close>

definition wait_started :: "host \<Rightarrow> str \<Rightarrow> unit prog" where
  "wait_started w ls = poll w ls (\<lambda>s. starting_files s = [])"

definition touch_reload :: "host \<Rightarrow> unit prog" where
  "touch_reload w =
     pbind (peek (\<lambda>h. isfile w h ''status/reload.txt'')) (\<lambda>b.
       if b then pret () else os_system ''touch status/reload.txt'')"

definition kill_found :: "host \<Rightarrow> str \<Rightarrow> unit prog" where
  "kill_found w c =
     pbind (check_output w c) (\<lambda>pid. if pid = [] then pret () else os_system (''kill '' @ pid))"

text \<open>A script run by \<open>os.system\<close>: the exception it ends with only shows in the exit code.\<close>

definition run_script :: "str \<Rightarrow> unit prog \<Rightarrow> unit prog" where
  "run_script c m = pbind (os_system c) (\<lambda>_ h. map_option (\<lambda>(r, h'). (Inr (), h')) (m h))"

subsection \<open>The shared nodes\<close>

definition shared_stop :: "str list" where
  "shared_stop = [''s70_cross.lua'', ''s2810_login.lua'', ''s2803_gm_router.lua'', ''s2801_world.lua'', ''s2800_cluster_router.lua'']"

definition py_ps :: "str \<Rightarrow> str" where
  "py_ps p = grep_pid (''ps aux | grep python | '' @ p)"

definition shutdown_all :: "host \<Rightarrow> bool \<Rightarrow> str list \<Rightarrow> unit prog" where
  "shutdown_all w in_dir argv =
     (if \<not> in_dir then plift (Inl AssertionError)
      else let kill = ''--kill'' \<in> set argv in
        pbind (kill_found w (py_ps ''grep auto_reload.py | grep global_reload'')) (\<lambda>_.
        pbind (kill_found w (py_ps ''grep notice_http'')) (\<lambda>_.
        pbind (kill_found w (py_ps ''grep version_http'')) (\<lambda>_.
          for_each (\<lambda>n. shutdown_skynet w (''config/'' @ n) kill) shared_stop))))"

definition shared_start :: "str list" where
  "shared_start = [''s2801_world.lua'', ''s2803_gm_router.lua'', ''s2810_login.lua'', ''s70_cross.lua'']"

definition start_all :: "host \<Rightarrow> bool \<Rightarrow> unit prog" where
  "start_all w in_dir =
     (if \<not> in_dir then plift (Inl AssertionError)
      else
        pbind (run_script ''python shutdown_all.py'' (shutdown_all w in_dir [''shutdown_all.py''])) (\<lambda>_.
        pbind (touch_reload w) (\<lambda>_.
        pbind (os_system ''python tools/notice_http/main.py >> log/notice_http.log 2>&1 &'') (\<lambda>_.
        pbind (os_system ''python tools/version_http/main.py >> log/version_http.log 2>&1 &'') (\<lambda>_.
        pbind (os_system ''chmod +x bin/skynet'') (\<lambda>_.
        pbind (start_node ''s2800_cluster_router.lua'') (\<lambda>_.
        pbind (os_system ''sleep 3'') (\<lambda>_.
        pbind (for_each start_node shared_start) (\<lambda>_.
        pbind (wait_started w ''cd status && ls'') (\<lambda>_.
          os_system ''python tools/auto_reload.py global_reload >> log/auto_reload.log 2>&1 &''))))))))))"

subsection \<open>The nodes of one game server\<close>

definition node_config :: "int \<Rightarrow> str \<Rightarrow> str" where
  "node_config i name = ''s'' @ int_str i @ ''_'' @ name @ ''.lua''"

definition reload_ps :: "int \<Rightarrow> str" where
  "reload_ps i = py_ps (''grep auto_reload.py | grep s'' @ int_str i @ ''_reload'')"

definition start_reload :: "int \<Rightarrow> unit prog" where
  "start_reload i =
     pbind (os_system (''python tools/auto_reload.py s'' @ int_str i @ ''_reload >> log/auto_reload.log 2>&1 &'')) (\<lambda>_.
       os_system (''ps aux | grep s'' @ int_str i @ ''_ | grep -v grep''))"

text \<open>\<^verbatim>\<open>server_mgr.py\<close> names the server.\<close>

definition mgr_start :: "host \<Rightarrow> str \<Rightarrow> unit prog" where
  "mgr_start w sid =
     pbind (plift (int_of sid)) (\<lambda>i.
     pbind (os_system ''chmod +x bin/skynet'') (\<lambda>_.
     pbind (touch_reload w) (\<lambda>_.
     pbind (for_each start_node (map (node_config i) [''game'', ''chat'', ''dynasty''])) (\<lambda>_.
     pbind (wait_started w ''cd status/ && ls'') (\<lambda>_. start_reload i)))))"

definition stop_nodes :: "host \<Rightarrow> int \<Rightarrow> bool \<Rightarrow> str list \<Rightarrow> unit prog" where
  "stop_nodes w i kill configs =
     pbind (kill_found w (reload_ps i)) (\<lambda>_.
     pbind (for_each (\<lambda>c. shutdown_skynet w (''config/'' @ c) kill) configs) (\<lambda>_.
       os_system (''ps aux | grep skynet | grep s'' @ int_str i @ ''_ | grep -v grep'')))"

definition mgr_shutdown :: "host \<Rightarrow> bool \<Rightarrow> str \<Rightarrow> unit prog" where
  "mgr_shutdown w kill sid =
     pbind (plift (int_of sid)) (\<lambda>i.
       stop_nodes w i kill (map (node_config i) (if kill then [''game'', ''chat'', ''dynasty''] else [''game''])))"

definition server_mgr :: "host \<Rightarrow> bool \<Rightarrow> str list \<Rightarrow> unit prog" where
  "server_mgr w in_dir argv =
     (if \<not> in_dir then plift (Inl AssertionError)
      else case drop 1 argv of
        [] \<Rightarrow> pret ()
      | c # ids \<Rightarrow>
          if c = ''start'' then pbind (for_each (mgr_shutdown w False) ids) (\<lambda>_. for_each (mgr_start w) ids)
          else if c = ''shutdown'' then for_each (mgr_shutdown w False) ids
          else if c = ''shutdown_kill'' then for_each (mgr_shutdown w True) ids
          else pret ())"

text \<open>
  \<^verbatim>\<open>start_server.py\<close> and \<^verbatim>\<open>shutdown_server.py\<close> take the server of the fourth game configuration that
  \<open>ls\<close> lists.
\<close>

definition game_configs :: "str \<Rightarrow> str list" where
  "game_configs s = filter (\<lambda>x. x \<noteq> []) (map strip (out_lines s))"

definition the_game :: "str \<Rightarrow> (str \<times> int) res" where
  "the_game s =
     rbind (nth_res (game_configs s) 3) (\<lambda>c.
     rbind (of_option ValueError (find_sub ''_'' c)) (\<lambda>k.
     rbind (int_of (drop 1 (take k c))) (\<lambda>i. Inr (c, i))))"

definition LS_GAME :: str where "LS_GAME = ''cd config/ && ls s*_game.lua''"

definition shutdown_server_main :: "host \<Rightarrow> bool \<Rightarrow> str list \<Rightarrow> unit prog" where
  "shutdown_server_main w in_dir argv =
     (if \<not> in_dir then plift (Inl AssertionError)
      else let kill = ''--kill'' \<in> set argv in
        pbind (check_output w LS_GAME) (\<lambda>s.
        pbind (plift (the_game s)) (\<lambda>(c, i).
          stop_nodes w i kill (c # (if kill then map (node_config i) [''dynasty'', ''chat''] else [])))))"

definition start_server_main :: "host \<Rightarrow> bool \<Rightarrow> unit prog" where
  "start_server_main w in_dir =
     (if \<not> in_dir then plift (Inl AssertionError)
      else
        pbind (check_output w LS_GAME) (\<lambda>s.
        pbind (plift (the_game s)) (\<lambda>(c, i).
        pbind (run_script ''python -u shutdown_server.py'' (shutdown_server_main w in_dir [''shutdown_server.py''])) (\<lambda>_.
        pbind (os_system ''chmod +x bin/skynet'') (\<lambda>_.
        pbind (touch_reload w) (\<lambda>_.
        pbind (for_each start_node (c # map (node_config i) [''chat'', ''dynasty''])) (\<lambda>_.
        pbind (wait_started w ''cd status/ && ls'') (\<lambda>_. start_reload i))))))))"

subsection \<open>One process\<close>

text \<open>The exit code: every exception ends the program with 1.\<close>

definition exit_code :: "unit prog \<Rightarrow> int prog" where
  "exit_code m h = map_option (\<lambda>(r, h'). (Inr (case r of Inl _ \<Rightarrow> 1 | Inr _ \<Rightarrow> 0), h')) (m h)"

definition find_pid :: "host \<Rightarrow> str \<Rightarrow> str \<Rightarrow> str prog" where
  "find_pid w prg path =
     check_output w (grep_pid (''ps aux | grep '' @ [CHR 0x27] @ prg @ '' '' @ path @ [CHR 0x27]))"

definition skynet_stop :: "host \<Rightarrow> str \<Rightarrow> unit prog" where
  "skynet_stop w path =
     pbind (find_pid w ''skynet'' path) (\<lambda>pid.
       if pid = [] then pret ()
       else pbind (os_system (''touch status/'' @ basename (cut 4 path) @ ''.shuting'')) (\<lambda>_.
            poll w (grep_pid (''ps aux | grep '' @ [CHR 0x27] @ ''skynet '' @ path @ [CHR 0x27])) (\<lambda>s. s = [])))"

definition skynet_start :: "host \<Rightarrow> str \<Rightarrow> str list \<Rightarrow> unit prog" where
  "skynet_start w path as =
     pbind (find_pid w ''skynet'' path) (\<lambda>pid.
       if pid \<noteq> [] then pret ()
       else let node = basename (cut 4 path) in
         pbind (os_system (''touch status/'' @ node @ ''.starting'')) (\<lambda>_.
         pbind (touch_reload w) (\<lambda>_.
         pbind (check_output w (''LD_PRELOAD=build/libtcmalloc.so.4.4.5 nohup bin/skynet '' @ path @ '' '' @ join '' '' as @
             '' >> log/'' @ node @ ''.log 2>&1 &'')) (\<lambda>_. pret ()))))"

definition check_skynet :: "host \<Rightarrow> str list \<Rightarrow> int prog" where
  "check_skynet w argv =
     exit_code (case argv of
       _ # c # path # as \<Rightarrow>
         if c = ''stop'' then skynet_stop w path
         else if c = ''start'' then skynet_start w path as
         else plift (Inl (RuntimeError ''stop|start''))
     | _ \<Rightarrow> plift (Inl (RuntimeError ''arguments'')))"

definition py_stop :: "host \<Rightarrow> str \<Rightarrow> unit prog" where
  "py_stop w path =
     pbind (find_pid w ''python'' path) (\<lambda>pid.
       if pid = [] then pret () else pbind (check_output w (''kill '' @ pid)) (\<lambda>_. pret ()))"

text \<open>The exception for a process that did not come up is made, but not raised.\<close>

definition py_start :: "host \<Rightarrow> str \<Rightarrow> str list \<Rightarrow> unit prog" where
  "py_start w path as =
     pbind (find_pid w ''python'' path) (\<lambda>pid.
       if pid \<noteq> [] then pret ()
       else pbind (check_output w (''nohup python '' @ path @ '' '' @ join '' '' as @
              '' >> log/'' @ cut 3 (replace_sub ''/'' ''_'' path) @ ''.log 2>&1 &'')) (\<lambda>_.
            pbind (find_pid w ''python'' path) (\<lambda>_. pret ())))"

definition check_py_process :: "host \<Rightarrow> str list \<Rightarrow> int prog" where
  "check_py_process w argv =
     exit_code (case argv of
       _ # c # path # as \<Rightarrow>
         if c = ''stop'' then py_stop w path
         else if c = ''start'' then py_start w path as
         else plift (Inl (RuntimeError ''stop|start''))
     | _ \<Rightarrow> plift (Inl (RuntimeError ''arguments'')))"
end
