(* ===== verification/Server_Run_Proofs.thy ===== *)
theory Server_Run_Proofs
  imports Server_Run
begin

text \<open>
  What the start and stop scripts guarantee: the shared nodes are started after the old ones are gone and in
  the reverse order of stopping, stopping ends exactly when the process does, the start of a game server does
  not look for its chat and dynasty nodes, and two failures that nobody notices.
\<close>

subsection \<open>Nodes are started when the old ones are gone\<close>

text \<open>The node launches among the events.\<close>

definition launches :: "event list \<Rightarrow> str list" where
  "launches t = concat (map (\<lambda>e. case e of Sys c \<Rightarrow> if starts_with ''LD_PRELOAD'' c then [c] else [] | _ \<Rightarrow> []) t)"

text \<open>After \<open>h\<close>, among the events \<open>t\<close>, the process list that \<open>c\<close> asks for was empty once.\<close>

definition cleared :: "host \<Rightarrow> event list \<Rightarrow> event list \<Rightarrow> str \<Rightarrow> bool" where
  "cleared w h t c \<longleftrightarrow> (\<exists>a b s. t = a @ Out c # b \<and> check w (h @ a) c = Inr s \<and> strip s = [])"

lemma launches_simps [simp]:
  "launches [] = []" "launches (t @ u) = launches t @ launches u" "launches (Out c # t) = launches t"
  "launches (Sleep # t) = launches t"
  "launches (Sys c # t) = (if starts_with ''LD_PRELOAD'' c then [c] else []) @ launches t"
  by (simp_all add: launches_def)

lemma launches_waited [simp]: "launches (waited c n) = []"
  by (induction n) (simp_all add: waited_simps)

text \<open>The commands whose output was read.\<close>

definition asked :: "event list \<Rightarrow> str list" where
  "asked t = concat (map (\<lambda>e. case e of Out c \<Rightarrow> [c] | _ \<Rightarrow> []) t)"

lemma asked_simps [simp]:
  "asked [] = []" "asked (t @ u) = asked t @ asked u" "asked (Out c # t) = c # asked t" "asked (Sys c # t) = asked t"
  "asked (Sleep # t) = asked t"
  by (simp_all add: asked_def)

lemma asked_waited: "set (asked (waited c n)) \<subseteq> {c}"
  by (induction n) (auto simp: waited_simps)

lemma cleared_left: "cleared w h t c \<Longrightarrow> cleared w h (t @ u) c"
  unfolding cleared_def by (metis append.assoc append_Cons)

lemma cleared_right: "cleared w (h @ t) u c \<Longrightarrow> cleared w h (t @ u) c"
  unfolding cleared_def by (metis append.assoc)

lemma cleared_Cons: "cleared w (h @ [e]) u c \<Longrightarrow> cleared w h (e # u) c"
  using cleared_right [of w h "[e]" u c] by simp

lemma starts_with_step [simp]: "starts_with (c # p) (d # t) \<longleftrightarrow> c = d \<and> starts_with p t" "\<not> starts_with (c # p) []"
  by (auto simp: starts_with_def)

lemma starts_with_launch [simp]: "starts_with ''LD_PRELOAD'' (launch c)"
  by (simp add: launch_def)


lemma shutdown_clears:
  assumes "shutdown_skynet w config False h = Some (Inr (), h')"
  shows "\<exists>t. h' = h @ t \<and> cleared w h t (skynet_ps config) \<and> launches t = []"
proof -
  let ?c = "skynet_ps config" and ?k = "Sys (''touch status/'' @ cut 4 (basename config) @ ''.shuting'')"
  have now: "cleared w h' [Out ?c] ?c" if "check w h' ?c = Inr s" "strip s = []" for s h'
    unfolding cleared_def using that by (intro exI [of _ "[]"] exI [of _ s]) auto
  have blank: "strip [] = []" by (simp add: strip_def)
  from assms obtain s where s: "check w h ?c = Inr s"
    "h' = h @ [Out ?c] \<and> strip s = [] \<or>
     poll w ?c (\<lambda>s. s = []) (h @ [Out ?c, ?k]) = Some (Inr (), h')"
    by (auto simp: shutdown_skynet_def check_output_def os_system_def run_some split: if_splits)
  from s(2) show ?thesis
  proof
    assume "h' = h @ [Out ?c] \<and> strip s = []"
    then show ?thesis using now s(1) by auto
  next
    assume "poll w ?c (\<lambda>s. s = []) (h @ [Out ?c, ?k]) = Some (Inr (), h')"
    then obtain n s where
        n: "h' = (h @ [Out ?c, ?k]) @ waited ?c n @ [Out ?c]" "check w ((h @ [Out ?c, ?k]) @ waited ?c n) ?c = Inr s" "s = []"
      by (rule poll_success)
    have "cleared w (h @ ([Out ?c, ?k] @ waited ?c n)) [Out ?c] ?c" by (rule now) (use n(2,3) blank in simp_all)
    from cleared_right [OF this] n(1) show ?thesis
      by (intro exI [of _ "[Out ?c, ?k] @ waited ?c n @ [Out ?c]"]) simp
  qed
qed

lemma shutdowns_clear:
  "for_each (\<lambda>c. shutdown_skynet w (f c) False) cs h = Some (Inr (), h') \<Longrightarrow>
   \<exists>t. h' = h @ t \<and> (\<forall>c \<in> set cs. cleared w h t (skynet_ps (f c))) \<and> launches t = []"
proof (induction cs arbitrary: h)
  case (Cons c cs)
  from Cons.prems obtain h1 where h1: "shutdown_skynet w (f c) False h = Some (Inr (), h1)"
      "for_each (\<lambda>c. shutdown_skynet w (f c) False) cs h1 = Some (Inr (), h')"
    by (auto simp: pbind_returns)
  from shutdown_clears [OF h1(1)] obtain t where
      t: "h1 = h @ t" "cleared w h t (skynet_ps (f c))" "launches t = []" by blast
  from Cons.IH [OF h1(2)] t(1) obtain u where
      u: "h' = h @ t @ u" "\<forall>c \<in> set cs. cleared w (h @ t) u (skynet_ps (f c))" "launches u = []" by auto
  then show ?case using t(2,3)
    by (intro exI [of _ "t @ u"]) (auto intro: cleared_left cleared_right)
qed (auto simp: prog_simps)

lemma start_node_some: "start_node c h = Some (r, h') \<longleftrightarrow>
    r = Inr () \<and> h' = h @ [Sys (''touch status/'' @ cut 4 c @ ''.starting''), Sys (launch c)]"
  by (auto simp: run_some start_node_def os_system_def)

lemma start_nodes:
  "for_each start_node cs h = Some (r, h') \<Longrightarrow> r = Inr () \<and> (\<exists>t. h' = h @ t \<and> launches t = map launch cs \<and> asked t = [])"
proof (induction cs arbitrary: h)
  case (Cons c cs)
  from Cons.prems have "for_each start_node cs (h @ [Sys (''touch status/'' @ cut 4 c @ ''.starting''), Sys (launch c)]) = Some (r, h')"
    by (auto simp: pbind_some start_node_some)
  from Cons.IH [OF this] obtain t where
      t: "r = Inr ()" "h' = (h @ [Sys (''touch status/'' @ cut 4 c @ ''.starting''), Sys (launch c)]) @ t" "launches t = map launch cs" "asked t = []"
    by blast
  have "launches ([Sys (''touch status/'' @ cut 4 c @ ''.starting''), Sys (launch c)] @ t) = map launch (c # cs)"
      "asked ([Sys (''touch status/'' @ cut 4 c @ ''.starting''), Sys (launch c)] @ t) = []"
    by (simp_all add: t(3,4))
  then show ?case using t(1,2) by (metis append.assoc)
qed (auto simp: prog_simps)

lemma kill_found_quiet: "kill_found w c h = Some (r, h') \<Longrightarrow> \<exists>t. h' = h @ t \<and> launches t = [] \<and> set (asked t) = {c}"
  by (auto simp: kill_found_def check_output_def os_system_def run_some split: if_splits)

text \<open>No command fails.\<close>

definition answers :: "host \<Rightarrow> bool" where
  "answers w \<longleftrightarrow> (\<forall>h c. \<exists>s. check w h c = Inr s)"

lemma answersD: "answers w \<Longrightarrow> check w h c \<noteq> Inl e"
  by (metis Inl_Inr_False answers_def)

lemma poll_ok: "answers w \<Longrightarrow> poll w c good h = Some (r, h') \<Longrightarrow> r = Inr ()"
proof -
  assume ok: "answers w" and p: "poll w c good h = Some (r, h')"
  from poll_result [OF p] obtain n where
      n: "case check w (h @ waited c n) c of Inl e \<Rightarrow> r = Inl e | Inr s \<Rightarrow> r = Inr () \<and> good s"
    unfolding poll_ends_def fst_conv snd_conv by (elim exE conjE) (rule that)
  obtain s where "check w (h @ waited c n) c = Inr s" using ok unfolding answers_def by blast
  with n show "r = Inr ()" by simp
qed

lemma then_some:
  assumes "pbind m f h = Some (r, h')" "\<And>q h1. m h = Some (q, h1) \<Longrightarrow> q = Inr ()"
  obtains h1 where "m h = Some (Inr (), h1)" "f () h1 = Some (r, h')"
  using assms by (auto simp: pbind_some)

lemma kill_found_ok: "answers w \<Longrightarrow> kill_found w c h = Some (r, h') \<Longrightarrow> r = Inr ()"
  by (auto simp: kill_found_def check_output_def os_system_def run_some answersD split: if_splits)

lemma shutdown_ok: "answers w \<Longrightarrow> shutdown_skynet w c k h = Some (r, h') \<Longrightarrow> r = Inr ()"
  by (auto simp: shutdown_skynet_def check_output_def os_system_def run_some answersD dest: poll_ok split: if_splits)

lemma for_each_ok:
  "(\<And>c h r h'. f c h = Some (r, h') \<Longrightarrow> r = Inr ()) \<Longrightarrow> for_each f cs h = Some (r, h') \<Longrightarrow> r = Inr ()"
  by (induction cs arbitrary: h) (auto simp: run_some)

lemma run_script_some: "run_script c m h = Some (r, h') \<longleftrightarrow> r = Inr () \<and> (\<exists>q. m (h @ [Sys c]) = Some (q, h'))"
  by (auto simp: run_script_def os_system_def run_some)

lemma touch_reload_quiet: "touch_reload w h = Some (r, h') \<Longrightarrow> r = Inr () \<and> (\<exists>t. h' = h @ t \<and> launches t = [] \<and> asked t = [])"
  by (auto simp: touch_reload_def os_system_def run_some split: if_splits)

lemma shutdown_all_clears:
  assumes ok: "answers w" and run: "shutdown_all w True as h = Some (r, h')" and kill: "''--kill'' \<notin> set as"
  shows "\<exists>t. h' = h @ t \<and> (\<forall>c \<in> set shared_stop. cleared w h t (skynet_ps (''config/'' @ c))) \<and> launches t = []"
proof -
  have "''--kill'' \<in> set as \<longleftrightarrow> False" using kill by simp
  note run = run [unfolded shutdown_all_def this Let_def simp_thms if_False]
  note step = then_some [OF _ kill_found_ok [OF ok]]
  from run obtain h1 where k1: "kill_found w (py_ps ''grep auto_reload.py | grep global_reload'') h = Some (Inr (), h1)"
      and run: "pbind (kill_found w (py_ps ''grep notice_http'')) (\<lambda>_. pbind (kill_found w (py_ps ''grep version_http''))
        (\<lambda>_. for_each (\<lambda>n. shutdown_skynet w (''config/'' @ n) False) shared_stop)) h1 = Some (r, h')"
    by (rule step)
  from run obtain h2 where k2: "kill_found w (py_ps ''grep notice_http'') h1 = Some (Inr (), h2)"
      and run: "pbind (kill_found w (py_ps ''grep version_http''))
        (\<lambda>_. for_each (\<lambda>n. shutdown_skynet w (''config/'' @ n) False) shared_stop) h2 = Some (r, h')"
    by (rule step)
  from run obtain h3 where k3: "kill_found w (py_ps ''grep version_http'') h2 = Some (Inr (), h3)"
      and f: "for_each (\<lambda>n. shutdown_skynet w (''config/'' @ n) False) shared_stop h3 = Some (r, h')"
    by (rule step)
  note k = k1 k2 k3
  have r: "r = Inr ()" by (rule for_each_ok [OF shutdown_ok [OF ok] f])
  from k [THEN kill_found_quiet] obtain a where a: "h3 = h @ a" "launches a = []" by auto
  from shutdowns_clear [OF f [unfolded r]] obtain t where
      t: "h' = h3 @ t" "\<forall>c \<in> set shared_stop. cleared w h3 t (skynet_ps (''config/'' @ c))" "launches t = []" by blast
  show ?thesis using t a by (intro exI [of _ "a @ t"]) (auto intro: cleared_right)
qed

lemma wait_started_done:
  assumes "answers w" "wait_started w ls h = Some (r, h')"
  obtains u s where "h' = h @ u @ [Out ls]" "launches u = []" "check w (h @ u) ls = Inr s" "starting_files s = []"
proof -
  have r: "r = Inr ()" using assms unfolding wait_started_def by (rule poll_ok)
  show thesis using assms(2) unfolding r wait_started_def by (rule poll_success) (rule that, auto)
qed

lemma os_system_then: "pbind (os_system c) f h = f () (h @ [Sys c])"
  by (simp add: os_system_def prog_simps)

lemma start_node_then:
  "pbind (start_node c) f h = f () (h @ [Sys (''touch status/'' @ cut 4 c @ ''.starting''), Sys (launch c)])"
  by (simp add: start_node_def os_system_def pbind_def emit_def)

definition web_events :: "event list" where
  "web_events = [Sys ''python tools/notice_http/main.py >> log/notice_http.log 2>&1 &'',
    Sys ''python tools/version_http/main.py >> log/version_http.log 2>&1 &'', Sys ''chmod +x bin/skynet'',
    Sys (''touch status/'' @ cut 4 ''s2800_cluster_router.lua'' @ ''.starting''),
    Sys (launch ''s2800_cluster_router.lua''), Sys ''sleep 3'']"

text \<open>The parts of a run of \<open>start_all\<close>.\<close>

lemma start_all_parts:
  assumes ok: "answers w" and run: "start_all w True h = Some (r, h')"
  obtains h1 h2 h3 h4 where
    "run_script ''python shutdown_all.py'' (shutdown_all w True [''shutdown_all.py'']) h = Some (Inr (), h1)"
    "touch_reload w h1 = Some (Inr (), h2)"
    "for_each start_node shared_start (h2 @ web_events) = Some (Inr (), h3)"
    "wait_started w ''cd status && ls'' h3 = Some (Inr (), h4)"
    "os_system ''python tools/auto_reload.py global_reload >> log/auto_reload.log 2>&1 &'' h4 = Some (r, h')"
proof -
  from run [unfolded start_all_def] obtain h1 where
      a: "run_script ''python shutdown_all.py'' (shutdown_all w True [''shutdown_all.py'']) h = Some (Inr (), h1)"
      and run: "pbind (touch_reload w) (\<lambda>_.
        pbind (os_system ''python tools/notice_http/main.py >> log/notice_http.log 2>&1 &'') (\<lambda>_.
        pbind (os_system ''python tools/version_http/main.py >> log/version_http.log 2>&1 &'') (\<lambda>_.
        pbind (os_system ''chmod +x bin/skynet'') (\<lambda>_.
        pbind (start_node ''s2800_cluster_router.lua'') (\<lambda>_.
        pbind (os_system ''sleep 3'') (\<lambda>_.
        pbind (for_each start_node shared_start) (\<lambda>_.
        pbind (wait_started w ''cd status && ls'') (\<lambda>_.
          os_system ''python tools/auto_reload.py global_reload >> log/auto_reload.log 2>&1 &'')))))))) h1 = Some (r, h')"
    unfolding not_True_eq_False if_False by (rule then_some) (simp add: run_script_some)
  from run obtain h2 where b: "touch_reload w h1 = Some (Inr (), h2)"
      and run: "pbind (for_each start_node shared_start) (\<lambda>_.
        pbind (wait_started w ''cd status && ls'') (\<lambda>_.
          os_system ''python tools/auto_reload.py global_reload >> log/auto_reload.log 2>&1 &'')) (h2 @ web_events) = Some (r, h')"
    by (rule then_some) (simp_all add: touch_reload_quiet os_system_then start_node_then web_events_def)
  from run obtain h3 where c: "for_each start_node shared_start (h2 @ web_events) = Some (Inr (), h3)"
      and run: "pbind (wait_started w ''cd status && ls'') (\<lambda>_.
          os_system ''python tools/auto_reload.py global_reload >> log/auto_reload.log 2>&1 &'') h3 = Some (r, h')"
    by (rule then_some) (simp_all add: start_nodes)
  from run obtain h4 where d: "wait_started w ''cd status && ls'' h3 = Some (Inr (), h4)"
      and e: "os_system ''python tools/auto_reload.py global_reload >> log/auto_reload.log 2>&1 &'' h4 = Some (r, h')"
    by (rule then_some) (simp_all add: wait_started_def poll_ok [OF ok])
  show thesis by (rule that [OF a b c d e])
qed

text \<open>
  C33. Whatever the processes do, a run of \<open>start_all\<close> that ends has first seen the process list of each shared
  node empty, without launching anything, has then launched the five nodes in the reverse order of stopping,
  and has ended on a listing without a starting file.
\<close>

theorem start_all_fresh:
  assumes ok: "answers w" and run: "start_all w True h = Some (r, h')"
  shows "\<exists>t1 t2 ls s. h' = h @ t1 @ t2 @ [Out ls, Sys ''python tools/auto_reload.py global_reload >> log/auto_reload.log 2>&1 &''] \<and>
    r = Inr () \<and> launches t1 = [] \<and> (\<forall>c \<in> set shared_stop. cleared w h t1 (skynet_ps (''config/'' @ c))) \<and>
    launches t2 = map launch (rev shared_stop) \<and> check w (h @ t1 @ t2) ls = Inr s \<and> starting_files s = []"
proof -
  from start_all_parts [OF ok run] obtain h1 h2 h3 h4 where
      a: "run_script ''python shutdown_all.py'' (shutdown_all w True [''shutdown_all.py'']) h = Some (Inr (), h1)" and
      b: "touch_reload w h1 = Some (Inr (), h2)" and
      c: "for_each start_node shared_start (h2 @ web_events) = Some (Inr (), h3)" and
      d: "wait_started w ''cd status && ls'' h3 = Some (Inr (), h4)" and
      e: "os_system ''python tools/auto_reload.py global_reload >> log/auto_reload.log 2>&1 &'' h4 = Some (r, h')" .
  from a obtain q where "shutdown_all w True [''shutdown_all.py''] (h @ [Sys ''python shutdown_all.py'']) = Some (q, h1)"
    by (auto simp: run_script_some)
  from shutdown_all_clears [OF ok this] obtain t1 where
      t1: "h1 = h @ Sys ''python shutdown_all.py'' # t1" "launches t1 = []"
        "\<forall>c \<in> set shared_stop. cleared w (h @ [Sys ''python shutdown_all.py'']) t1 (skynet_ps (''config/'' @ c))"
    by auto
  from touch_reload_quiet [OF b] obtain t2 where t2: "h2 = h1 @ t2" "launches t2 = []" by auto
  from start_nodes [OF c] obtain t3 where t3: "h3 = h2 @ web_events @ t3" "launches t3 = map launch shared_start" by auto
  from wait_started_done [OF ok d] obtain t4 s where
      t4: "h4 = h3 @ t4 @ [Out ''cd status && ls'']" "launches t4 = []"
        "check w (h3 @ t4) ''cd status && ls'' = Inr s" "starting_files s = []" by blast
  let ?t1 = "Sys ''python shutdown_all.py'' # t1" and ?t2 = "t2 @ web_events @ t3 @ t4"
  have "launches ?t1 = []" using t1(2) by simp
  moreover have "\<forall>c \<in> set shared_stop. cleared w h ?t1 (skynet_ps (''config/'' @ c))"
    using t1(3) by (auto intro: cleared_Cons)
  moreover have "launches ?t2 = map launch (rev shared_stop)"
    using t2(2) t3(2) t4(2) by (simp add: shared_stop_def shared_start_def web_events_def)
  moreover have "check w (h @ ?t1 @ ?t2) ''cd status && ls'' = Inr s" using t1(1) t2(1) t3(1) t4(3) by simp
  moreover have "h' = h @ ?t1 @ ?t2 @ [Out ''cd status && ls'', Sys ''python tools/auto_reload.py global_reload >> log/auto_reload.log 2>&1 &'']"
      "r = Inr ()"
    using e t1(1) t2(1) t3(1) t4(1) by (auto simp: os_system_def prog_some)
  ultimately show ?thesis using t4(4) by blast
qed
subsection \<open>When stopping ends\<close>

text \<open>
  Stopping a node returns exactly when it is killed, not found, or some later look finds its process list
  empty: there is no limit, so a node that does not answer the request is waited for for ever.
\<close>

theorem shutdown_returns_iff:
  "shutdown_skynet w config kill h \<noteq> None \<longleftrightarrow>
     kill \<or>
     (case check w h (skynet_ps config) of
        Inl e \<Rightarrow> True
      | Inr s \<Rightarrow> strip s = [] \<or>
          (\<exists>n. case check w (h @ [Out (skynet_ps config), Sys (''touch status/'' @ cut 4 (basename config) @ ''.shuting'')] @
                 waited (skynet_ps config) n) (skynet_ps config) of Inl e \<Rightarrow> True | Inr s \<Rightarrow> s = []))"
proof (cases "check w h (skynet_ps config)")
  case (Inl e)
  then show ?thesis by (simp add: shutdown_skynet_def check_output_def pbind_def ask_def)
next
  case (Inr s)
  let ?h = "h @ [Out (skynet_ps config), Sys (''touch status/'' @ cut 4 (basename config) @ ''.shuting'')]"
  have "shutdown_skynet w config kill h =
      (if strip s = [] then Some (Inr (), h @ [Out (skynet_ps config)])
       else if kill then Some (Inr (), h @ [Out (skynet_ps config), Sys (''kill '' @ strip s)])
       else poll w (skynet_ps config) (\<lambda>s. s = []) ?h)"
    using Inr by (simp add: shutdown_skynet_def check_output_def os_system_def pbind_def ask_def emit_def pret_def)
  then show ?thesis using poll_returns [of w "skynet_ps config" "\<lambda>s. s = []" ?h] Inr by auto
qed

definition obliging :: "host \<Rightarrow> bool" where
  "obliging w \<longleftrightarrow> answers w \<and>
     (\<forall>h c. \<exists>n. check w (h @ waited (skynet_ps c) n) (skynet_ps c) = Inr []) \<and>
     (\<forall>h ls. \<exists>n s. check w (h @ waited ls n) ls = Inr s \<and> starting_files s = [])"

lemma obliging_shutdown: "obliging w \<Longrightarrow> \<exists>h'. shutdown_skynet w c k h = Some (Inr (), h')"
proof -
  assume w: "obliging w"
  let ?h = "h @ [Out (skynet_ps c), Sys (''touch status/'' @ cut 4 (basename c) @ ''.shuting'')]"
  obtain n where "check w (?h @ waited (skynet_ps c) n) (skynet_ps c) = Inr []" using w unfolding obliging_def by blast
  then have "\<exists>n. case check w (?h @ waited (skynet_ps c) n) (skynet_ps c) of Inl e \<Rightarrow> True | Inr s \<Rightarrow> s = []"
    by (intro exI [of _ n]) simp
  then have "shutdown_skynet w c k h \<noteq> None" unfolding shutdown_returns_iff append_assoc by (auto split: sum.splits)
  then obtain q where q: "shutdown_skynet w c k h = Some q" by blast
  moreover have "fst q = Inr ()" using w shutdown_ok [of w c k h "fst q" "snd q"] q by (simp add: obliging_def)
  ultimately show ?thesis by (metis prod.collapse)
qed

lemma for_each_total:
  "(\<And>c h. \<exists>h'. f c h = Some (Inr (), h')) \<Longrightarrow> \<exists>h'. for_each f cs h = Some (Inr (), h')"
proof (induction cs arbitrary: h)
  case (Cons c cs)
  obtain h1 where h1: "f c h = Some (Inr (), h1)" using Cons.prems by blast
  with Cons show ?case by (simp add: prog_simps)
qed (simp add: prog_simps)

lemma total_then: "\<exists>h1. m h = Some (Inr (), h1) \<Longrightarrow> (\<And>h1. \<exists>h2. f () h1 = Some (Inr y, h2)) \<Longrightarrow> \<exists>h2. pbind m f h = Some (Inr y, h2)"
  by (auto simp: pbind_returns)

lemma obliging_kill_found: "obliging w \<Longrightarrow> \<exists>h'. kill_found w c h = Some (Inr (), h')"
proof -
  assume "obliging w"
  then obtain s where "check w h c = Inr s" unfolding obliging_def answers_def by blast
  then show ?thesis by (simp add: kill_found_def check_output_def os_system_def prog_simps)
qed

lemma obliging_wait: "obliging w \<Longrightarrow> \<exists>h'. wait_started w ls h = Some (Inr (), h')"
proof -
  assume w: "obliging w"
  obtain n s where "check w (h @ waited ls n) ls = Inr s \<and> starting_files s = []" using w unfolding obliging_def by blast
  then have "case check w (h @ waited ls n) ls of Inl e \<Rightarrow> True | Inr s \<Rightarrow> starting_files s = []" by simp
  from poll_enough [OF this] obtain q where q: "poll w ls (\<lambda>s. starting_files s = []) h = Some q" by blast
  moreover have "fst q = Inr ()" using w poll_ok [of w ls "\<lambda>s. starting_files s = []" h "fst q" "snd q"] q by (simp add: obliging_def)
  ultimately show ?thesis unfolding wait_started_def by (metis prod.collapse)
qed

lemma touch_reload_total: "\<exists>h'. touch_reload w h = Some (Inr (), h')"
  by (simp add: touch_reload_def os_system_def prog_simps)

lemma start_nodes_total: "\<exists>h'. for_each start_node cs h = Some (Inr (), h')"
  by (rule for_each_total) (simp add: start_node_some)

lemma shutdown_all_total: "obliging w \<Longrightarrow> \<exists>h'. shutdown_all w True as h = Some (Inr (), h')"
  unfolding shutdown_all_def Let_def not_True_eq_False if_False
  by (intro total_then obliging_kill_found for_each_total obliging_shutdown)

text \<open>\<open>start_all\<close> returns when every node asked to stop does end and every node started does come up.\<close>

lemma start_all_total:
  assumes w: "obliging w"
  shows "\<exists>h'. start_all w True h = Some (Inr (), h')"
proof -
  have script: "\<exists>h'. run_script c (shutdown_all w True as) h = Some (Inr (), h')" for c as h
    using shutdown_all_total [OF w] by (simp add: run_script_some) blast
  have sys: "\<exists>h'. os_system c h = Some (Inr (), h')" for c h by (simp add: os_system_def prog_simps)
  have node: "\<exists>h'. start_node c h = Some (Inr (), h')" for c h by (simp add: start_node_some)
  show ?thesis unfolding start_all_def not_True_eq_False if_False
    by (intro total_then script sys node touch_reload_total start_nodes_total obliging_wait [OF w])
qed

definition idle :: host where
  "idle = \<lparr>check = (\<lambda>h c. Inr []), isfile = (\<lambda>h f. False)\<rparr>"

lemma obliging_idle: "obliging idle"
proof -
  have "starting_files [] = []" by code_simp
  then show ?thesis by (simp add: obliging_def answers_def idle_def)
qed

theorem start_all_fresh_witness:
  "\<exists>h'. start_all idle True [] = Some (Inr (), h') \<and> (\<exists>t1 t2. h' = t1 @ t2 \<and> cleared idle [] t1 (skynet_ps ''config/s2801_world.lua'') \<and> launches t1 = [])"
proof -
  have ok: "answers idle" by (simp add: answers_def idle_def)
  from start_all_total [OF obliging_idle] obtain h' where h': "start_all idle True [] = Some (Inr (), h')" by blast
  from start_all_fresh [OF ok h'] obtain t1 t2 where
      t: "h' = [] @ t1 @ t2" "\<forall>c \<in> set shared_stop. cleared idle [] t1 (skynet_ps (''config/'' @ c))" "launches t1 = []" by blast
  moreover have "''s2801_world.lua'' \<in> set shared_stop" by (simp add: shared_stop_def)
  ultimately have "cleared idle [] t1 (skynet_ps (''config/'' @ ''s2801_world.lua''))" by blast
  with h' t show ?thesis by auto
qed


subsection \<open>One game server\<close>

lemma poll_asks: "poll w c good h = Some (r, h') \<Longrightarrow> \<exists>t. h' = h @ t \<and> set (asked t) = {c} \<and> launches t = []"
proof -
  assume "poll w c good h = Some (r, h')"
  from poll_result [OF this] obtain n where "h' = h @ waited c n @ [Out c]"
    unfolding poll_ends_def fst_conv snd_conv by blast
  then show ?thesis using asked_waited [of c n] by (intro exI [of _ "waited c n @ [Out c]"]) auto
qed

lemma shutdown_asks:
  "shutdown_skynet w c k h = Some (r, h') \<Longrightarrow> \<exists>t. h' = h @ t \<and> set (asked t) = {skynet_ps c} \<and> launches t = []"
  by (auto simp: shutdown_skynet_def check_output_def os_system_def run_some dest!: poll_asks split: if_splits)

text \<open>Questions in \<open>S\<close> only, and no launch.\<close>

definition asks_in :: "str set \<Rightarrow> event \<Rightarrow> bool" where
  "asks_in S e \<longleftrightarrow> (case e of Out c \<Rightarrow> c \<in> S | Sys c \<Rightarrow> \<not> starts_with ''LD_PRELOAD'' c | _ \<Rightarrow> True)"

lemma asks_in_simps [simp]:
  "asks_in S (Out c) \<longleftrightarrow> c \<in> S" "asks_in S (Sys c) \<longleftrightarrow> \<not> starts_with ''LD_PRELOAD'' c" "asks_in S Sleep"
  by (simp_all add: asks_in_def)

lemma asks_in_trace: "\<forall>e \<in> set t. asks_in S e \<Longrightarrow> set (asked t) \<subseteq> S \<and> launches t = []"
  by (induction t) (auto simp: asks_in_def asked_def launches_def split: event.splits)

lemma poll_emits: "P (Out c) \<Longrightarrow> P Sleep \<Longrightarrow> emits P (poll w c good)"
proof (rule emitsI)
  fix h r h'
  assume P: "P (Out c)" "P Sleep" and p: "poll w c good h = Some (r, h')"
  from poll_result [OF p] obtain n where "h' = h @ waited c n @ [Out c]"
    unfolding poll_ends_def fst_conv snd_conv by blast
  moreover have "\<forall>e \<in> set (waited c n). P e" using P by (induction n) (auto simp: waited_simps)
  ultimately show "\<exists>t. h' = h @ t \<and> (\<forall>e \<in> set t. P e)" using P(1) by (intro exI [of _ "waited c n @ [Out c]"]) auto
qed

lemma stop_nodes_emits:
  "reload_ps i \<in> S \<Longrightarrow> (\<And>c. c \<in> set cs \<Longrightarrow> skynet_ps (''config/'' @ c) \<in> S) \<Longrightarrow> emits (asks_in S) (stop_nodes w i k cs)"
  unfolding stop_nodes_def kill_found_def shutdown_skynet_def check_output_def os_system_def
  by (intro emits_bind emits_for_each emits_basic emits_if poll_emits) simp_all

lemma shutdown_server_emits: "emits (asks_in UNIV) (shutdown_server_main w b as)"
proof -
  have "emits (asks_in UNIV) (case x of (c, i) \<Rightarrow> stop_nodes w i k (f c i))" for x k and f :: "str \<Rightarrow> int \<Rightarrow> str list"
    by (cases x) (simp add: stop_nodes_emits)
  then show ?thesis unfolding shutdown_server_main_def Let_def check_output_def
    by (intro emits_bind emits_basic emits_if) simp_all
qed

text \<open>What \<^verbatim>\<open>start_server.py\<close> launches: the nodes of the server it takes itself.\<close>

lemma start_server_launches:
  assumes ok: "answers w" and ls: "check w h LS_GAME = Inr out" "the_game out = Inr (c, i)"
    and run: "start_server_main w True h = Some (r, h')"
  shows "\<exists>t. h' = h @ t \<and> launches t = map launch (c # map (node_config i) [''chat'', ''dynasty'']) \<and> r = Inr ()"
proof -
  let ?cs = "c # map (node_config i) [''chat'', ''dynasty'']" and ?d = "shutdown_server_main w True [''shutdown_server.py'']"
  have "pbind (run_script ''python -u shutdown_server.py'' ?d) (\<lambda>_. pbind (os_system ''chmod +x bin/skynet'') (\<lambda>_.
      pbind (touch_reload w) (\<lambda>_. pbind (for_each start_node ?cs) (\<lambda>_.
      pbind (wait_started w ''cd status/ && ls'') (\<lambda>_. start_reload i))))) (h @ [Out LS_GAME]) = Some (r, h')"
    using run ls by (simp add: start_server_main_def check_output_def pbind_def [of "ask _ _ _"] pbind_def [of "plift _"] ask_def plift_def
        del: for_each.simps list.map)
  then obtain h1 where a: "run_script ''python -u shutdown_server.py'' ?d (h @ [Out LS_GAME]) = Some (Inr (), h1)"
      and run: "pbind (touch_reload w) (\<lambda>_. pbind (for_each start_node ?cs) (\<lambda>_.
        pbind (wait_started w ''cd status/ && ls'') (\<lambda>_. start_reload i))) (h1 @ [Sys ''chmod +x bin/skynet'']) = Some (r, h')"
    by (rule then_some) (auto simp: run_script_some os_system_then)
  from run obtain h2 where b: "touch_reload w (h1 @ [Sys ''chmod +x bin/skynet'']) = Some (Inr (), h2)"
      and run: "pbind (for_each start_node ?cs) (\<lambda>_. pbind (wait_started w ''cd status/ && ls'') (\<lambda>_. start_reload i)) h2 = Some (r, h')"
    by (rule then_some) (simp add: touch_reload_quiet)
  from run obtain h3 where f: "for_each start_node ?cs h2 = Some (Inr (), h3)"
      and run: "pbind (wait_started w ''cd status/ && ls'') (\<lambda>_. start_reload i) h3 = Some (r, h')"
    by (rule then_some) (drule start_nodes, rule conjunct1)
  from run obtain h4 where g: "wait_started w ''cd status/ && ls'' h3 = Some (Inr (), h4)" and e: "start_reload i h4 = Some (r, h')"
    by (rule then_some) (simp add: wait_started_def poll_ok [OF ok])
  from a obtain q where "?d ((h @ [Out LS_GAME]) @ [Sys ''python -u shutdown_server.py'']) = Some (q, h1)"
    by (auto simp: run_script_some)
  from emitsD [OF shutdown_server_emits this] obtain t1 where
      t1: "h1 = h @ Out LS_GAME # Sys ''python -u shutdown_server.py'' # t1" "launches t1 = []" using asks_in_trace by fastforce
  from touch_reload_quiet [OF b] obtain t2 where t2: "h2 = h1 @ Sys ''chmod +x bin/skynet'' # t2" "launches t2 = []" by auto
  from start_nodes [OF f] obtain t3 where t3: "h3 = h2 @ t3" "launches t3 = map launch ?cs" by blast
  from wait_started_done [OF ok g] obtain t4 where t4: "h4 = h3 @ t4 @ [Out ''cd status/ && ls'']" "launches t4 = []" by metis
  from e obtain t5 where t5: "h' = h4 @ t5" "launches t5 = []" "r = Inr ()"
    by (auto simp: start_reload_def os_system_def run_some)
  show ?thesis using t1 t2 t3 t4 t5
    by (intro exI [of _ "(Out LS_GAME # Sys ''python -u shutdown_server.py'' # t1) @ (Sys ''chmod +x bin/skynet'' # t2) @ t3 @
        (t4 @ [Out ''cd status/ && ls'']) @ t5"]) simp
qed

lemma sys_total: "\<exists>h'. os_system c h = Some (Inr (), h')"
  by (simp add: os_system_def prog_simps)

lemma mgr_shutdown_total: "obliging w \<Longrightarrow> \<exists>h'. mgr_shutdown w k (int_str i) h = Some (Inr (), h')"
proof -
  assume w: "obliging w"
  have "\<exists>h'. stop_nodes w i k cs h = Some (Inr (), h')" for cs h
    unfolding stop_nodes_def
    by (intro total_then obliging_kill_found [OF w] for_each_total obliging_shutdown [OF w] sys_total)
  then show ?thesis by (simp add: mgr_shutdown_def pbind_def plift_def)
qed

lemma mgr_start_total: "obliging w \<Longrightarrow> \<exists>h'. mgr_start w (int_str i) h = Some (Inr (), h')"
proof -
  assume w: "obliging w"
  have "\<exists>h'. pbind (os_system ''chmod +x bin/skynet'') (\<lambda>_. pbind (touch_reload w) (\<lambda>_.
      pbind (for_each start_node cs) (\<lambda>_. pbind (wait_started w ''cd status/ && ls'') (\<lambda>_. start_reload i)))) h = Some (Inr (), h')" for cs h
    unfolding start_reload_def
    by (intro total_then sys_total touch_reload_total start_nodes_total obliging_wait [OF w])
  then show ?thesis by (simp add: mgr_start_def pbind_def [of "plift (Inr i)"] plift_def del: for_each.simps list.map)
qed

lemma server_mgr_start_total:
  assumes w: "obliging w"
  shows "\<exists>h'. server_mgr w True [prg, ''start'', int_str i] h = Some (Inr (), h')"
proof -
  have "\<exists>h'. pbind (pbind (mgr_shutdown w False (int_str i)) (\<lambda>_. pret ())) (\<lambda>_. pbind (mgr_start w (int_str i)) (\<lambda>_. pret ())) h = Some (Inr (), h')"
    by (intro total_then mgr_shutdown_total [OF w] mgr_start_total [OF w]) (simp_all add: prog_simps)
  then show ?thesis by (simp add: server_mgr_def)
qed

text \<open>
  \<open>server_mgr.py start\<close> launches the game, chat and dynasty nodes of the server, but the game node is the only
  one whose old process it has looked for and waited for: chat and dynasty are launched beside those that
  still run.
\<close>

theorem mgr_start_blind:
  assumes run: "server_mgr w True [prg, ''start'', int_str i] h = Some (Inr (), h')"
  shows "\<exists>t. h' = h @ t \<and> launches t = map (\<lambda>n. launch (node_config i n)) [''game'', ''chat'', ''dynasty''] \<and>
    skynet_ps (''config/'' @ node_config i ''game'') \<in> set (asked t) \<and>
    skynet_ps (''config/'' @ node_config i ''chat'') \<notin> set (asked t) \<and>
    skynet_ps (''config/'' @ node_config i ''dynasty'') \<notin> set (asked t)"
proof -
  let ?g = "skynet_ps (''config/'' @ node_config i ''game'')"
  from run obtain h1 where stop: "mgr_shutdown w False (int_str i) h = Some (Inr (), h1)"
      and start: "mgr_start w (int_str i) h1 = Some (Inr (), h')"
    by (auto simp: server_mgr_def pbind_returns prog_some)
  from stop obtain h2 h3 where
      k: "kill_found w (reload_ps i) h = Some (Inr (), h2)" and
      g: "shutdown_skynet w (''config/'' @ node_config i ''game'') False h2 = Some (Inr (), h3)" and
      e: "h1 = h3 @ [Sys (''ps aux | grep skynet | grep s'' @ int_str i @ ''_ | grep -v grep'')]"
    by (auto simp: mgr_shutdown_def stop_nodes_def pbind_returns prog_some os_system_def)
  from kill_found_quiet [OF k] obtain a where a: "h2 = h @ a" "launches a = []" "set (asked a) = {reload_ps i}" by blast
  from shutdown_asks [OF g] obtain b where b: "h3 = h2 @ b" "launches b = []" "set (asked b) = {?g}" by blast
  from start obtain h4 h5 h6 where
      t: "touch_reload w (h1 @ [Sys ''chmod +x bin/skynet'']) = Some (Inr (), h4)" and
      n: "for_each start_node (map (node_config i) [''game'', ''chat'', ''dynasty'']) h4 = Some (Inr (), h5)" and
      wt: "wait_started w ''cd status/ && ls'' h5 = Some (Inr (), h6)" and
      f: "h' = h6 @ [Sys (''python tools/auto_reload.py s'' @ int_str i @ ''_reload >> log/auto_reload.log 2>&1 &''),
            Sys (''ps aux | grep s'' @ int_str i @ ''_ | grep -v grep'')]"
    by (auto simp: mgr_start_def pbind_returns prog_some os_system_def start_reload_def simp del: for_each.simps list.map)
  from touch_reload_quiet [OF t] obtain c where c: "h4 = h1 @ Sys ''chmod +x bin/skynet'' # c" "launches c = []" "asked c = []" by auto
  from start_nodes [OF n] obtain d where d: "h5 = h4 @ d" "asked d = []"
      "launches d = map (\<lambda>n. launch (node_config i n)) [''game'', ''chat'', ''dynasty'']" by auto
  from poll_asks [OF wt [unfolded wait_started_def]] obtain u where
      u: "h6 = h5 @ u" "launches u = []" "set (asked u) = {''cd status/ && ls''}" by blast
  let ?x = "[Sys (''python tools/auto_reload.py s'' @ int_str i @ ''_reload >> log/auto_reload.log 2>&1 &''),
            Sys (''ps aux | grep s'' @ int_str i @ ''_ | grep -v grep'')]"
  let ?t = "a @ b @ [Sys (''ps aux | grep skynet | grep s'' @ int_str i @ ''_ | grep -v grep'')] @ [Sys ''chmod +x bin/skynet''] @ c @ d @ u @ ?x"
  have "h' = h @ ?t" using a b c d u e f by simp
  moreover have "launches ?t = map (\<lambda>n. launch (node_config i n)) [''game'', ''chat'', ''dynasty'']"
    using a b c d u by simp
  moreover have "set (asked ?t) = {reload_ps i, ?g, ''cd status/ && ls''}"
    using a b c d u by auto
  moreover have "skynet_ps (''config/'' @ node_config i n) \<notin> {reload_ps i, ?g, ''cd status/ && ls''}" if "n \<in> {''chat'', ''dynasty''}" for n
    using that by (auto simp: skynet_ps_def reload_ps_def py_ps_def grep_pid_def node_config_def)
  ultimately show ?thesis by (intro exI [of _ ?t]) auto
qed


theorem mgr_start_blind_witness:
  "\<exists>t. server_mgr idle True [''server_mgr.py'', ''start'', int_str 55] [] = Some (Inr (), t) \<and>
     launch (node_config 55 ''chat'') \<in> set (launches t) \<and> skynet_ps (''config/'' @ node_config 55 ''chat'') \<notin> set (asked t)"
proof -
  have "\<exists>h'. server_mgr idle True [''server_mgr.py'', ''start'', int_str 55] [] = Some (Inr (), h')"
    by (rule server_mgr_start_total [OF obliging_idle])
  then obtain h' where h': "server_mgr idle True [''server_mgr.py'', ''start'', int_str 55] [] = Some (Inr (), h')" by blast
  from mgr_start_blind [OF h'] h' show ?thesis by auto
qed

text \<open>
  The scripts for one server take the fourth configuration: on a host with fewer, the one with a single server
  included, they end with an \<open>IndexError\<close> before they do anything.
\<close>

theorem few_configs:
  assumes "check w h LS_GAME = Inr s" "length (game_configs s) \<le> 3"
  shows "start_server_main w True h = Some (Inl IndexError, h @ [Out LS_GAME])"
    "shutdown_server_main w True as h = Some (Inl IndexError, h @ [Out LS_GAME])"
  using assms by (simp_all add: start_server_main_def shutdown_server_main_def the_game_def nth_res_def check_output_def Let_def pbind_def ask_def plift_def)

text \<open>A Python process that does not come up is reported as started: the exit code is 0 in any case.\<close>

theorem py_start_unnoticed:
  assumes "answers w"
  shows "\<exists>h'. check_py_process w (prg # ''start'' # path # as) h = Some (Inr 0, h')"
proof -
  obtain f where f: "\<And>h c. check w h c = Inr (f h c)" using assms unfolding answers_def by metis
  then show ?thesis
    by (simp add: check_py_process_def exit_code_def py_start_def find_pid_def check_output_def pbind_def ask_def pret_def)
qed
end
