(* ===== verification/Reload_Watch.thy ===== *)
theory Reload_Watch
  imports Complex_Main Py_String
begin

text \<open>
  The watcher that tells running nodes which scripts changed, \<^verbatim>\<open>tools/auto_reload.py\<close>. The file system is a
  sequence of snapshots, one for each look at the trees, so files may change in any way between two looks.
  A round looks until nothing changes any more (it may never end) and then writes the list of the changed
  files. Pauses and messages on the terminal are left out.
\<close>

subsection \<open>Looking at a tree\<close>

datatype fnode = NFile rat | NDir "(str \<times> fnode) list" | NOther

type_synonym times = "str \<rightharpoonup> rat"

text \<open>\<open>file_ts_dict.get(filename, 0)\<close>\<close>

definition seen :: "times \<Rightarrow> str \<Rightarrow> rat" where
  "seen d f = (case d f of None \<Rightarrow> 0 | Some t \<Rightarrow> t)"

definition is_file_changed :: "str \<Rightarrow> rat \<Rightarrow> times \<Rightarrow> bool \<times> times" where
  "is_file_changed f t d = (if t \<noteq> seen d f then (True, d(f \<mapsto> t)) else (False, d))"

fun node_changed :: "str \<Rightarrow> fnode \<Rightarrow> times \<Rightarrow> str list \<times> times"
and get_changed_file :: "str \<Rightarrow> (str \<times> fnode) list \<Rightarrow> times \<Rightarrow> str list \<times> times" where
  "node_changed f (NDir ns) d = get_changed_file f ns d"
| "node_changed f (NFile t) d =
     (if \<not> ends_with ''.lua'' f then ([], d)
      else let (b, d') = is_file_changed f t d in (if b then [f] else [], d'))"
| "node_changed f NOther d = ([], d)"
| "get_changed_file pth [] d = ([], d)"
| "get_changed_file pth ((sub, n) # ns) d =
     (let (r, d') = node_changed (pth @ ''/'' @ sub) n d;
          (r', d'') = get_changed_file pth ns d'
      in (r @ r', d''))"

subsection \<open>One look\<close>

record snap =
  dir_at :: "str \<Rightarrow> (str \<times> fnode) list option"
  mtime_at :: "str \<Rightarrow> rat option"

definition os_error :: exc where "os_error = RuntimeError ''OSError''"

definition listdir :: "snap \<Rightarrow> str \<Rightarrow> (str \<times> fnode) list res" where
  "listdir s pth = of_option os_error (dir_at s pth)"

definition getmtime :: "snap \<Rightarrow> str \<Rightarrow> rat res" where
  "getmtime s f = of_option os_error (mtime_at s f)"

definition excel_root :: str where "excel_root = ''./exceldata''"

definition node_base :: str where "node_base = ''./gamelogic/lualib/node_base.lua''"

definition proto_files :: "str list" where "proto_files = [''./bin/c2s.spb'', ''./bin/s2c.spb'']"

definition is_dir :: "fnode \<Rightarrow> bool" where
  "is_dir n = (case n of NDir _ \<Rightarrow> True | _ \<Rightarrow> False)"

text \<open>The trees are fixed when the watcher starts.\<close>

definition watch_roots :: "snap \<Rightarrow> str list res" where
  "watch_roots s =
     rbind (mapR (\<lambda>r. rbind (listdir s r) (\<lambda>ns. Inr (map (\<lambda>(sub, n). r @ ''/'' @ sub) (filter (\<lambda>(sub, n). is_dir n) ns))))
       [''./service'', ''./gamelogic/service'']) (\<lambda>subs.
     Inr ([''./lualib'', ''./gamelogic/lualib''] @ concat subs))"

record look =
  times :: times
  scripts :: "str list"
  excels :: "str list"
  changing :: bool

definition add_new :: "str list \<Rightarrow> str list \<Rightarrow> str list" where
  "add_new new xs = fold (\<lambda>x xs. if x \<in> set xs then xs else xs @ [x]) new xs"

definition look_root :: "snap \<Rightarrow> look \<Rightarrow> str \<Rightarrow> look res" where
  "look_root s l pth =
     rbind (listdir s pth) (\<lambda>ns.
       let (new, d) = get_changed_file pth ns (times l)
       in Inr (l\<lparr>times := d, scripts := add_new new (scripts l), changing := changing l \<or> new \<noteq> []\<rparr>))"

definition look_excel :: "snap \<Rightarrow> look \<Rightarrow> look res" where
  "look_excel s l =
     rbind (listdir s excel_root) (\<lambda>ns.
       let (new, d) = get_changed_file excel_root ns (times l)
       in Inr (l\<lparr>times := d, excels := add_new new (excels l), changing := changing l \<or> new \<noteq> []\<rparr>))"

text \<open>\<open>filter(is_file_changed, files)\<close> asks for every file, whatever the first answer is.\<close>

definition look_file :: "snap \<Rightarrow> bool \<times> times \<Rightarrow> str \<Rightarrow> (bool \<times> times) res" where
  "look_file s bd f =
     rbind (getmtime s f) (\<lambda>t. let (b, d) = is_file_changed f t (snd bd) in Inr (fst bd \<or> b, d))"

definition look_protos :: "snap \<Rightarrow> look \<Rightarrow> look res" where
  "look_protos s l =
     rbind (foldR (look_file s) (False, times l) proto_files) (\<lambda>(b, d).
       Inr (l\<lparr>times := d,
              scripts := (if b \<and> node_base \<notin> set (scripts l) then node_base # scripts l else scripts l),
              changing := changing l \<or> b\<rparr>))"

definition look_once :: "str list \<Rightarrow> snap \<Rightarrow> look \<Rightarrow> look res" where
  "look_once roots s l =
     rbind (foldR (look_root s) (l\<lparr>changing := False\<rparr>) roots) (\<lambda>l1.
     rbind (look_excel s l1) (\<lambda>l2. look_protos s l2))"

subsection \<open>A round\<close>

text \<open>\<open>fs k\<close> is what the look \<open>k\<close> sees; the result is the state after the round and the number of the next look.\<close>

partial_function (option) settle :: "str list \<Rightarrow> (nat \<Rightarrow> snap) \<Rightarrow> nat \<Rightarrow> look \<Rightarrow> (look res \<times> nat) option" where
  "settle roots fs k l =
     (case look_once roots (fs k) l of
        Inl e \<Rightarrow> Some (Inl e, Suc k)
      | Inr l' \<Rightarrow> if changing l' then settle roots fs (Suc k) l' else Some (Inr l', Suc k))"

definition NLr :: str where "NLr = [CHR 0x0A]"

definition reload_text :: "str list \<Rightarrow> str list \<Rightarrow> str" where
  "reload_text es ss =
     (if es = [] then [] else ''[data]'' @ NLr @ join NLr es @ NLr) @
     (if ss = [] then [] else ''[script]'' @ NLr @ join NLr ss @ NLr)"

record watcher =
  wtimes :: times
  first_loop :: bool
  files_written :: "str list"

text \<open>One round of the endless loop: the first one only takes the times.\<close>

definition watch_round :: "str list \<Rightarrow> (nat \<Rightarrow> snap) \<Rightarrow> nat \<Rightarrow> watcher \<Rightarrow> (watcher res \<times> nat) option" where
  "watch_round roots fs k w =
     (case settle roots fs k \<lparr>times = wtimes w, scripts = [], excels = [], changing = False\<rparr> of
        None \<Rightarrow> None
      | Some (Inl e, k') \<Rightarrow> Some (Inl e, k')
      | Some (Inr l, k') \<Rightarrow>
          Some (Inr (w\<lparr>wtimes := times l, first_loop := False,
            files_written := files_written w @
              (if first_loop w \<or> (scripts l = [] \<and> excels l = []) then [] else [reload_text (excels l) (scripts l)])\<rparr>), k'))"

subsection \<open>What a look finds\<close>

fun node_files :: "str \<Rightarrow> fnode \<Rightarrow> (str \<times> rat) list"
and tree_files :: "str \<Rightarrow> (str \<times> fnode) list \<Rightarrow> (str \<times> rat) list" where
  "node_files f (NDir ns) = tree_files f ns"
| "node_files f (NFile t) = (if ends_with ''.lua'' f then [(f, t)] else [])"
| "node_files f NOther = []"
| "tree_files pth [] = []"
| "tree_files pth ((sub, n) # ns) = node_files (pth @ ''/'' @ sub) n @ tree_files pth ns"

fun check_all :: "(str \<times> rat) list \<Rightarrow> times \<Rightarrow> str list \<times> times" where
  "check_all [] d = ([], d)"
| "check_all ((f, t) # xs) d =
     (let (b, d') = is_file_changed f t d; (r, d'') = check_all xs d' in ((if b then [f] else []) @ r, d''))"

lemma check_all_append:
  "check_all (xs @ ys) d = (let (r, d') = check_all xs d; (r', d'') = check_all ys d' in (r @ r', d''))"
  by (induction xs arbitrary: d) (auto simp: Let_def split: prod.splits)

lemma changed_is_check:
  "node_changed f n d = check_all (node_files f n) d"
  "get_changed_file pth ns d = check_all (tree_files pth ns) d"
  by (induction f n d and pth ns d rule: node_changed_get_changed_file.induct)
    (auto simp: check_all_append Let_def split: prod.splits)

lemma check_all_keep: "check_all xs d = (r, d') \<Longrightarrow> f \<notin> set r \<Longrightarrow> seen d' f = seen d f"
  by (induction xs arbitrary: d r)
    (auto simp: is_file_changed_def seen_def Let_def split: prod.splits if_splits)

lemma check_all_Cons:
  "check_all ((f, t) # xs) d =
     (if t \<noteq> seen d f then (f # fst (check_all xs (d(f \<mapsto> t))), snd (check_all xs (d(f \<mapsto> t)))) else check_all xs d)"
  by (simp add: is_file_changed_def split: prod.split)

lemma check_all_subset: "set (fst (check_all xs d)) \<subseteq> fst ` set xs"
proof (induction xs arbitrary: d)
  case (Cons x xs)
  show ?case
  proof (cases x)
    case (Pair f t)
    have "set (fst (check_all (x # xs) d)) = (if t \<noteq> seen d f then insert f (set (fst (check_all xs (d(f \<mapsto> t))))) else set (fst (check_all xs d)))"
      unfolding Pair check_all_Cons by (simp only: if_distrib [of fst] if_distrib [of set] fst_conv list.set)
    with Cons [of d] Cons [of "d(f \<mapsto> t)"] show ?thesis unfolding Pair
      by (metis fst_conv image_insert insert_mono list.set(2) subset_insertI2)
  qed
qed simp

lemma check_all_quiet: "check_all xs d = ([], d') \<Longrightarrow> d' = d \<and> (\<forall>f t. (f, t) \<in> set xs \<longrightarrow> seen d f = t)"
proof (induction xs)
  case (Cons x xs)
  obtain f t where x: "x = (f, t)" by (cases x)
  with Cons.prems have "t = seen d f" "check_all xs d = ([], d')"
    by (auto simp: check_all_Cons simp del: check_all.simps split: if_splits)
  with Cons.IH x show ?case by auto
qed simp

lemma check_all_agree: "(\<forall>(f, t) \<in> set xs. seen d f = t) \<Longrightarrow> check_all xs d = ([], d)"
  by (induction xs) (auto simp: is_file_changed_def)

text \<open>In a snapshot a path has one time.\<close>

definition one_time :: "(str \<times> rat) set \<Rightarrow> bool" where
  "one_time X \<longleftrightarrow> (\<forall>f t u. (f, t) \<in> X \<longrightarrow> (f, u) \<in> X \<longrightarrow> t = u)"

lemma check_all_sync:
  "check_all xs d = (r, d') \<Longrightarrow> one_time (X \<union> set xs) \<Longrightarrow> (\<forall>(f, t) \<in> X. seen d f = t) \<Longrightarrow> (\<forall>(f, t) \<in> X \<union> set xs. seen d' f = t)"
proof (induction xs arbitrary: d r X)
  case (Cons x xs)
  obtain f t where x: "x = (f, t)" by (cases x)
  obtain b d1 where b: "is_file_changed f t d = (b, d1)" by (cases "is_file_changed f t d")
  obtain r1 where r1: "check_all xs d1 = (r1, d')" using Cons.prems(1) b by (auto simp: x Let_def split: prod.splits)
  have s: "seen d1 f = t" "g \<noteq> f \<Longrightarrow> seen d1 g = seen d g" for g
    using b by (auto simp: is_file_changed_def seen_def split: if_splits)
  have "\<forall>(g, u) \<in> insert (f, t) X. seen d1 g = u"
  proof (clarify)
    fix g u
    assume gu: "(g, u) \<in> insert (f, t) X"
    show "seen d1 g = u"
    proof (cases "g = f")
      case True
      have "(f, t) \<in> X \<union> set (x # xs)" "(f, u) \<in> X \<union> set (x # xs)" using gu True x by auto
      then have "t = u" using Cons.prems(2) unfolding one_time_def by blast
      with True s(1) show ?thesis by simp
    next
      case False
      with gu Cons.prems(3) have "seen d g = u" by auto
      with False s(2) show ?thesis by simp
    qed
  qed
  moreover have "one_time (insert (f, t) X \<union> set xs)"
    using Cons.prems(2) by (simp add: x)
  ultimately have "\<forall>(g, u) \<in> insert (f, t) X \<union> set xs. seen d' g = u" by (intro Cons.IH [OF r1])
  then show ?case by (simp add: x)
qed simp


subsection \<open>The invariant of a round\<close>

text \<open>The third character tells the trees of the scripts, of the data and the protocol files apart.\<close>

definition part :: "str \<Rightarrow> char" where "part f = f ! 2"

lemma tree_part:
  "2 < length f \<Longrightarrow> (g, t) \<in> set (node_files f n) \<Longrightarrow> 2 < length g \<and> part g = part f"
  "2 < length pth \<Longrightarrow> (g, t) \<in> set (tree_files pth ns) \<Longrightarrow> 2 < length g \<and> part g = part pth"
  by (induction f n and pth ns rule: node_files_tree_files.induct)
    (auto simp: part_def nth_append split: if_splits)

definition script_root :: "str \<Rightarrow> bool" where
  "script_root r \<longleftrightarrow> 2 < length r \<and> part r \<in> {CHR ''l'', CHR ''g'', CHR ''s''}"

lemma watch_roots_scripts: "watch_roots s = Inr roots \<Longrightarrow> \<forall>r \<in> set roots. script_root r"
proof -
  assume w: "watch_roots s = Inr roots"
  then obtain subs where r: "Inr roots = (Inr ([''./lualib'', ''./gamelogic/lualib''] @ concat subs) :: str list res)"
    "mapR (\<lambda>r. rbind (listdir s r) (\<lambda>ns. Inr (map (\<lambda>(sub, n). r @ ''/'' @ sub) (filter (\<lambda>(sub, n). is_dir n) ns))))
       [''./service'', ''./gamelogic/service''] = Inr subs"
    unfolding watch_roots_def rbind_eq_Inr by (elim exE conjE) (rule that [OF sym])
  have "script_root x" if "x \<in> set (concat subs)" for x
  proof -
    from that obtain ys where "ys \<in> set subs" "x \<in> set ys" by auto
    from mapR_mem [OF r(2) this(1)] obtain p where p: "p = ''./service'' \<or> p = ''./gamelogic/service''"
        "rbind (listdir s p) (\<lambda>ns. Inr (map (\<lambda>(sub, n). p @ ''/'' @ sub) (filter (\<lambda>(sub, n). is_dir n) ns))) = Inr ys"
      by (auto simp del: append.simps)
    from p(2) \<open>x \<in> set ys\<close> obtain sub where "x = p @ ''/'' @ sub" by (auto simp: rbind_eq_Inr)
    with p(1) show ?thesis by (auto simp: script_root_def part_def)
  qed
  then show ?thesis using r(1) by (auto simp: script_root_def part_def)
qed

text \<open>Every file whose time is another one than at the start of the round is in the list of its kind.\<close>

definition noted :: "times \<Rightarrow> look \<Rightarrow> bool" where
  "noted d0 l \<longleftrightarrow> (\<forall>f. seen (times l) f \<noteq> seen d0 f \<longrightarrow>
     (part f \<in> {CHR ''l'', CHR ''g'', CHR ''s''} \<longrightarrow> f \<in> set (scripts l)) \<and>
     (part f = CHR ''e'' \<longrightarrow> f \<in> set (excels l)) \<and>
     (f \<in> set proto_files \<longrightarrow> node_base \<in> set (scripts l)))"

lemma add_new_set: "set (add_new new xs) = set new \<union> set xs"
  unfolding add_new_def by (induction new arbitrary: xs) auto

lemma add_new_distinct: "distinct xs \<Longrightarrow> distinct (add_new new xs)"
  unfolding add_new_def by (induction new arbitrary: xs) auto

lemma noted_step:
  assumes noted: "noted d0 l" and c: "check_all xs (times l) = (new, times l')"
    and more: "set (scripts l) \<subseteq> set (scripts l')" "set (excels l) \<subseteq> set (excels l')"
    and new: "\<And>f. f \<in> set new \<Longrightarrow>
      (part f \<in> {CHR ''l'', CHR ''g'', CHR ''s''} \<longrightarrow> f \<in> set (scripts l')) \<and>
      (part f = CHR ''e'' \<longrightarrow> f \<in> set (excels l')) \<and>
      (f \<in> set proto_files \<longrightarrow> node_base \<in> set (scripts l'))"
  shows "noted d0 l'"
  unfolding noted_def
proof (intro allI impI)
  fix f
  assume changed: "seen (times l') f \<noteq> seen d0 f"
  show "(part f \<in> {CHR ''l'', CHR ''g'', CHR ''s''} \<longrightarrow> f \<in> set (scripts l')) \<and>
      (part f = CHR ''e'' \<longrightarrow> f \<in> set (excels l')) \<and> (f \<in> set proto_files \<longrightarrow> node_base \<in> set (scripts l'))"
  proof (cases "f \<in> set new")
    case True
    then show ?thesis by (rule new)
  next
    case False
    with check_all_keep [OF c] changed have "seen (times l) f \<noteq> seen d0 f" by simp
    with noted more show ?thesis unfolding noted_def by blast
  qed
qed

lemma proto_part: "f \<in> set proto_files \<Longrightarrow> part f = CHR ''b''"
  by (auto simp: proto_files_def part_def)

lemma look_root_Inr:
  assumes "look_root s l r = Inr l'"
  obtains ns new d where "dir_at s r = Some ns" "check_all (tree_files r ns) (times l) = (new, d)"
      "l' = l\<lparr>times := d, scripts := add_new new (scripts l), changing := changing l \<or> new \<noteq> []\<rparr>"
proof -
  from assms obtain ns where ns: "dir_at s r = Some ns"
    by (auto simp: look_root_def listdir_def res_simps)
  obtain new d where c: "check_all (tree_files r ns) (times l) = (new, d)" by (cases "check_all (tree_files r ns) (times l)")
  show thesis by (rule that [OF ns c]) (use assms in \<open>simp add: look_root_def listdir_def ns changed_is_check c\<close>)
qed

lemma look_excel_Inr:
  assumes "look_excel s l = Inr l'"
  obtains ns new d where "dir_at s excel_root = Some ns" "check_all (tree_files excel_root ns) (times l) = (new, d)"
      "l' = l\<lparr>times := d, excels := add_new new (excels l), changing := changing l \<or> new \<noteq> []\<rparr>"
proof -
  from assms obtain ns where ns: "dir_at s excel_root = Some ns"
    by (auto simp: look_excel_def listdir_def res_simps)
  obtain new d where c: "check_all (tree_files excel_root ns) (times l) = (new, d)"
    by (cases "check_all (tree_files excel_root ns) (times l)")
  show thesis by (rule that [OF ns c]) (use assms in \<open>simp add: look_excel_def listdir_def ns changed_is_check c\<close>)
qed

lemma noted_root:
  assumes "noted d0 l" "look_root s l r = Inr l'" "script_root r"
  shows "noted d0 l'"
proof -
  from look_root_Inr [OF assms(2)] obtain ns new d where n: "dir_at s r = Some ns" "check_all (tree_files r ns) (times l) = (new, d)"
      "l' = l\<lparr>times := d, scripts := add_new new (scripts l), changing := changing l \<or> new \<noteq> []\<rparr>" .
  have new: "part f \<in> {CHR ''l'', CHR ''g'', CHR ''s''}" if "f \<in> set new" for f
  proof -
    have "f \<in> fst ` set (tree_files r ns)" using that n(2) check_all_subset [of "tree_files r ns" "times l"] by auto
    then obtain t where "(f, t) \<in> set (tree_files r ns)" by auto
    with tree_part(2) assms(3) show ?thesis unfolding script_root_def by fastforce
  qed
  show ?thesis
  proof (rule noted_step [OF assms(1), of "tree_files r ns" new])
    fix f
    assume "f \<in> set new"
    then show "(part f \<in> {CHR ''l'', CHR ''g'', CHR ''s''} \<longrightarrow> f \<in> set (scripts l')) \<and>
        (part f = CHR ''e'' \<longrightarrow> f \<in> set (excels l')) \<and> (f \<in> set proto_files \<longrightarrow> node_base \<in> set (scripts l'))"
      using new [of f] proto_part [of f] by (auto simp: n(3) add_new_set)
  qed (auto simp: n add_new_set)
qed

lemma noted_excel:
  assumes "noted d0 l" "look_excel s l = Inr l'"
  shows "noted d0 l'"
proof -
  from look_excel_Inr [OF assms(2)] obtain ns new d where n: "dir_at s excel_root = Some ns"
      "check_all (tree_files excel_root ns) (times l) = (new, d)"
      "l' = l\<lparr>times := d, excels := add_new new (excels l), changing := changing l \<or> new \<noteq> []\<rparr>" .
  have new: "part f = CHR ''e''" if "f \<in> set new" for f
  proof -
    have "f \<in> fst ` set (tree_files excel_root ns)"
      using that n(2) check_all_subset [of "tree_files excel_root ns" "times l"] by auto
    then obtain t where "(f, t) \<in> set (tree_files excel_root ns)" by auto
    from tree_part(2) [OF _ this] show ?thesis by (simp add: excel_root_def part_def)
  qed
  show ?thesis
  proof (rule noted_step [OF assms(1), of "tree_files excel_root ns" new])
    fix f
    assume "f \<in> set new"
    then show "(part f \<in> {CHR ''l'', CHR ''g'', CHR ''s''} \<longrightarrow> f \<in> set (scripts l')) \<and>
        (part f = CHR ''e'' \<longrightarrow> f \<in> set (excels l')) \<and> (f \<in> set proto_files \<longrightarrow> node_base \<in> set (scripts l'))"
      using new [of f] proto_part [of f] by (auto simp: n(3) add_new_set)
  qed (auto simp: n add_new_set)
qed

text \<open>The protocol files are looked at like the files of a tree.\<close>

lemma look_files:
  "foldR (look_file s) (b, d) fs = Inr (b', d') \<Longrightarrow>
   \<exists>ts r. map (mtime_at s) fs = map Some ts \<and> check_all (zip fs ts) d = (r, d') \<and> b' = (b \<or> r \<noteq> [])"
proof (induction fs arbitrary: b d)
  case (Cons f fs)
  then obtain t where t: "mtime_at s f = Some t"
    by (auto simp: look_file_def getmtime_def res_simps)
  obtain c d1 where c: "is_file_changed f t d = (c, d1)" by (cases "is_file_changed f t d")
  have "foldR (look_file s) (b \<or> c, d1) fs = Inr (b', d')"
    using Cons.prems by (simp add: look_file_def [of s "(b, d)"] getmtime_def t c)
  from Cons.IH [OF this] obtain ts r where
      "map (mtime_at s) fs = map Some ts" "check_all (zip fs ts) d1 = (r, d')" "b' = ((b \<or> c) \<or> r \<noteq> [])" by blast
  then show ?case using t c by (intro exI [of _ "t # ts"] exI [of _ "(if c then [f] else []) @ r"]) auto
qed simp

lemma look_protos_Inr:
  assumes "look_protos s l = Inr l'"
  obtains ts new d where "map (mtime_at s) proto_files = map Some ts" "check_all (zip proto_files ts) (times l) = (new, d)"
    "l' = l\<lparr>times := d, scripts := (if new \<noteq> [] \<and> node_base \<notin> set (scripts l) then node_base # scripts l else scripts l),
       changing := changing l \<or> new \<noteq> []\<rparr>"
proof -
  from assms obtain b d where f: "foldR (look_file s) (False, times l) proto_files = Inr (b, d)"
    and l: "l' = l\<lparr>times := d, scripts := (if b \<and> node_base \<notin> set (scripts l) then node_base # scripts l else scripts l),
       changing := changing l \<or> b\<rparr>"
    unfolding look_protos_def rbind_eq_Inr by (auto split: prod.splits)
  from look_files [OF f] obtain ts r where
      "map (mtime_at s) proto_files = map Some ts" "check_all (zip proto_files ts) (times l) = (r, d)" "b = (r \<noteq> [])" by auto
  with l show thesis by (intro that) simp_all
qed

lemma noted_protos:
  assumes "noted d0 l" "look_protos s l = Inr l'"
  shows "noted d0 l'"
proof -
  from look_protos_Inr [OF assms(2)] obtain ts new d where
      n: "check_all (zip proto_files ts) (times l) = (new, d)"
        "l' = l\<lparr>times := d, scripts := (if new \<noteq> [] \<and> node_base \<notin> set (scripts l) then node_base # scripts l else scripts l),
          changing := changing l \<or> new \<noteq> []\<rparr>" .
  have new: "f \<in> set proto_files" if "f \<in> set new" for f
    using that check_all_subset [of "zip proto_files ts" "times l"] unfolding n(1) by (auto elim: set_zip_leftD dest!: subsetD)
  show ?thesis
  proof (rule noted_step [OF assms(1), of "zip proto_files ts" new])
    fix f
    assume f: "f \<in> set new"
    then have "new \<noteq> []" by auto
    then show "(part f \<in> {CHR ''l'', CHR ''g'', CHR ''s''} \<longrightarrow> f \<in> set (scripts l')) \<and>
        (part f = CHR ''e'' \<longrightarrow> f \<in> set (excels l')) \<and> (f \<in> set proto_files \<longrightarrow> node_base \<in> set (scripts l'))"
      using proto_part [OF new [OF f]] by (auto simp: n(2))
  qed (auto simp: n)
qed

text \<open>A look is one pass over all files of the snapshot.\<close>

definition files_under :: "snap \<Rightarrow> str \<Rightarrow> (str \<times> rat) list" where
  "files_under s r = (case dir_at s r of None \<Rightarrow> [] | Some ns \<Rightarrow> tree_files r ns)"

definition script_files :: "str list \<Rightarrow> snap \<Rightarrow> (str \<times> rat) list" where
  "script_files roots s = concat (map (files_under s) roots)"

definition proto_times :: "snap \<Rightarrow> (str \<times> rat) list" where
  "proto_times s = zip proto_files (map (\<lambda>f. the (mtime_at s f)) proto_files)"

definition all_files :: "str list \<Rightarrow> snap \<Rightarrow> (str \<times> rat) list" where
  "all_files roots s = script_files roots s @ files_under s excel_root @ proto_times s"

definition pass :: "(str \<times> rat) list \<Rightarrow> look \<Rightarrow> look \<Rightarrow> bool" where
  "pass xs l l' \<longleftrightarrow> (\<exists>new. check_all xs (times l) = (new, times l') \<and> (changing l' \<longleftrightarrow> changing l \<or> new \<noteq> []) \<and>
     (distinct (scripts l) \<longrightarrow> distinct (scripts l')) \<and> (distinct (excels l) \<longrightarrow> distinct (excels l')))"

lemma pass_trans: "pass xs l l1 \<Longrightarrow> pass ys l1 l2 \<Longrightarrow> pass (xs @ ys) l l2"
  unfolding pass_def by (elim exE conjE, rule_tac x = "new @ newa" in exI) (auto simp: check_all_append)

lemma look_roots_pass:
  "foldR (look_root s) l roots = Inr l' \<Longrightarrow> pass (script_files roots s) l l'"
proof (induction roots arbitrary: l)
  case Nil
  then show ?case by (simp add: pass_def script_files_def)
next
  case (Cons r roots)
  from Cons.prems obtain l1 where l1: "look_root s l r = Inr l1" "foldR (look_root s) l1 roots = Inr l'"
    by (auto simp: rbind_eq_Inr)
  from look_root_Inr [OF l1(1)] obtain ns new d where n: "dir_at s r = Some ns" "check_all (tree_files r ns) (times l) = (new, d)"
      "l1 = l\<lparr>times := d, scripts := add_new new (scripts l), changing := changing l \<or> new \<noteq> []\<rparr>" .
  have "pass (files_under s r) l l1" unfolding pass_def
    by (intro exI [of _ new]) (simp add: n files_under_def add_new_distinct)
  from pass_trans [OF this Cons.IH [OF l1(2)]] show ?case by (simp add: script_files_def)
qed

lemma look_once_pass:
  assumes "look_once roots s l = Inr l'"
  shows "pass (all_files roots s) (l\<lparr>changing := False\<rparr>) l'"
proof -
  from assms obtain l1 l2 where l: "foldR (look_root s) (l\<lparr>changing := False\<rparr>) roots = Inr l1"
      "look_excel s l1 = Inr l2" "look_protos s l2 = Inr l'"
    unfolding look_once_def rbind_eq_Inr by blast
  have e: "pass (files_under s excel_root) l1 l2"
  proof -
    from look_excel_Inr [OF l(2)] obtain ns new d where n: "dir_at s excel_root = Some ns"
      "check_all (tree_files excel_root ns) (times l1) = (new, d)"
      "l2 = l1\<lparr>times := d, excels := add_new new (excels l1), changing := changing l1 \<or> new \<noteq> []\<rparr>" .
    show ?thesis unfolding pass_def
      by (intro exI [of _ new]) (simp add: n files_under_def add_new_distinct)
  qed
  have p: "pass (proto_times s) l2 l'"
  proof -
    from look_protos_Inr [OF l(3)] obtain ts new d where n: "map (mtime_at s) proto_files = map Some ts"
      "check_all (zip proto_files ts) (times l2) = (new, d)"
      "l' = l2\<lparr>times := d, scripts := (if new \<noteq> [] \<and> node_base \<notin> set (scripts l2) then node_base # scripts l2 else scripts l2),
          changing := changing l2 \<or> new \<noteq> []\<rparr>" .
    have "map (\<lambda>f. the (mtime_at s f)) proto_files = map the (map (mtime_at s) proto_files)" by simp
    also have "\<dots> = ts" unfolding n(1) by (simp add: comp_def)
    finally have "proto_times s = zip proto_files ts" by (simp add: proto_times_def)
    with n show ?thesis unfolding pass_def by (intro exI [of _ new]) simp
  qed
  from pass_trans [OF look_roots_pass [OF l(1)] pass_trans [OF e p]] show ?thesis by (simp add: all_files_def)
qed

lemma look_once_noted:
  assumes "noted d0 l" "look_once roots s l = Inr l'" "\<forall>r \<in> set roots. script_root r"
  shows "noted d0 l'"
proof -
  from assms(2) obtain l1 l2 where l: "foldR (look_root s) (l\<lparr>changing := False\<rparr>) roots = Inr l1"
      "look_excel s l1 = Inr l2" "look_protos s l2 = Inr l'"
    unfolding look_once_def rbind_eq_Inr by blast
  have "noted d0 l1" if "foldR (look_root s) l rs = Inr l1" "noted d0 l" "\<forall>r \<in> set rs. script_root r" for l rs
    using that by (induction rs arbitrary: l) (auto simp: rbind_eq_Inr dest: noted_root)
  moreover have "noted d0 (l\<lparr>changing := False\<rparr>)" using assms(1) by (simp add: noted_def)
  ultimately have "noted d0 l1" using l(1) assms(3) by blast
  with noted_excel [OF _ l(2)] noted_protos [OF _ l(3)] show ?thesis by blast
qed

text \<open>What a round that ends has reached: its last look found every file at the time that is now noted.\<close>

definition agrees :: "(str \<times> rat) list \<Rightarrow> times \<Rightarrow> bool" where
  "agrees xs d \<longleftrightarrow> (\<forall>f t. (f, t) \<in> set xs \<longrightarrow> seen d f = t)"

definition settled :: "str list \<Rightarrow> (nat \<Rightarrow> snap) \<Rightarrow> nat \<Rightarrow> look \<Rightarrow> look res \<times> nat \<Rightarrow> bool" where
  "settled roots fs k l q \<longleftrightarrow> (\<forall>l' d0. fst q = Inr l' \<longrightarrow> (\<forall>r \<in> set roots. script_root r) \<longrightarrow> noted d0 l \<longrightarrow>
     distinct (scripts l) \<and> distinct (excels l) \<longrightarrow>
     k < snd q \<and> noted d0 l' \<and> agrees (all_files roots (fs (snd q - 1))) (times l') \<and> distinct (scripts l') \<and> distinct (excels l'))"

lemma settle_settled: "settle roots fs k l = Some q \<Longrightarrow> settled roots fs k l q"
proof (rule settle.raw_induct [where P = settled])
  fix f roots fs k l q
  assume IH: "\<And>roots fs k l q. f roots fs k l = Some q \<Longrightarrow> settled roots fs k l q"
    and eq: "(case look_once roots (fs k) l of Inl e \<Rightarrow> Some (Inl e, Suc k)
        | Inr l' \<Rightarrow> if changing l' then f roots fs (Suc k) l' else Some (Inr l', Suc k)) = Some q"
  show "settled roots fs k l q"
  proof (cases "look_once roots (fs k) l")
    case (Inl e)
    with eq have "q = (Inl e, Suc k)" by simp
    then show ?thesis by (simp add: settled_def)
  next
    case (Inr l1)
    note p = look_once_pass [OF Inr, unfolded pass_def]
    show ?thesis
    proof (cases "changing l1")
      case True
      from eq have "f roots fs (Suc k) l1 = Some q" unfolding Inr using True by simp
      note rest = IH [OF this, unfolded settled_def, rule_format]
      show ?thesis unfolding settled_def
      proof (intro allI impI)
        fix l' d0
        assume l': "fst q = Inr l'" and scr: "\<forall>r \<in> set roots. script_root r" and n: "noted d0 l"
          and d: "distinct (scripts l) \<and> distinct (excels l)"
        have "noted d0 l1" by (rule look_once_noted [OF n Inr scr])
        moreover have "distinct (scripts l1) \<and> distinct (excels l1)" using p d by auto
        ultimately have "Suc k < snd q \<and> noted d0 l' \<and> agrees (all_files roots (fs (snd q - 1))) (times l') \<and> distinct (scripts l') \<and> distinct (excels l')"
          using rest [OF l'] scr by blast
        then show "k < snd q \<and> noted d0 l' \<and> agrees (all_files roots (fs (snd q - 1))) (times l') \<and> distinct (scripts l') \<and> distinct (excels l')"
          by auto
      qed
    next
      case False
      from eq have q: "q = (Inr l1, Suc k)" unfolding Inr using False by simp
      from p False obtain d where "check_all (all_files roots (fs k)) (times l) = ([], times l1)" by auto
      from check_all_quiet [OF this] have "agrees (all_files roots (fs k)) (times l1)" by (auto simp: agrees_def)
      with q p look_once_noted [OF _ Inr] show ?thesis by (auto simp: settled_def)
    qed
  qed
qed

lemma script_files_part:
  assumes "\<forall>r \<in> set roots. script_root r" "(f, t) \<in> set (script_files roots s)"
  shows "part f \<in> {CHR ''l'', CHR ''g'', CHR ''s''}"
proof -
  from assms(2) obtain r where "r \<in> set roots" "(f, t) \<in> set (files_under s r)" by (auto simp: script_files_def)
  with assms(1) tree_part(2) show ?thesis
    unfolding script_root_def by (fastforce simp: files_under_def split: option.splits)
qed

lemma excel_files_part: "(f, t) \<in> set (files_under s excel_root) \<Longrightarrow> part f = CHR ''e''"
proof -
  assume "(f, t) \<in> set (files_under s excel_root)"
  then obtain ns where "(f, t) \<in> set (tree_files excel_root ns)" by (auto simp: files_under_def split: option.splits)
  from tree_part(2) [OF _ this] show ?thesis by (simp add: excel_root_def part_def)
qed

lemma proto_times_file: "(f, t) \<in> set (proto_times s) \<Longrightarrow> f \<in> set proto_files"
  by (auto simp: proto_times_def dest: set_zip_leftD)

text \<open>
  C34. However files change while the watcher looks, a round that ends has taken the time of every file of its
  last snapshot, and each script, data file and protocol file whose time differs from the one noted at the end
  of the round before is announced, in its section and once. So no change between the ends of two rounds is
  missed; only the first round announces nothing.
\<close>

theorem reload_misses_nothing:
  assumes start: "watch_roots s0 = Inr roots" and run: "watch_round roots fs k w = Some (Inr w', k')"
  shows "\<exists>es ss. distinct es \<and> distinct ss \<and>
    files_written w' = files_written w @ (if first_loop w \<or> (ss = [] \<and> es = []) then [] else [reload_text es ss]) \<and>
    (\<forall>f t. (f, t) \<in> set (all_files roots (fs (k' - 1))) \<longrightarrow> seen (wtimes w') f = t) \<and>
    (\<forall>f t. (f, t) \<in> set (script_files roots (fs (k' - 1))) \<longrightarrow> t \<noteq> seen (wtimes w) f \<longrightarrow> f \<in> set ss) \<and>
    (\<forall>f t. (f, t) \<in> set (files_under (fs (k' - 1)) excel_root) \<longrightarrow> t \<noteq> seen (wtimes w) f \<longrightarrow> f \<in> set es) \<and>
    (\<forall>f t. (f, t) \<in> set (proto_times (fs (k' - 1))) \<longrightarrow> t \<noteq> seen (wtimes w) f \<longrightarrow> node_base \<in> set ss)"
proof -
  let ?l = "\<lparr>times = wtimes w, scripts = [], excels = [], changing = False\<rparr>" and ?s = "fs (k' - 1)"
  from run obtain l where l: "settle roots fs k ?l = Some (Inr l, k')"
      "w' = w\<lparr>wtimes := times l, first_loop := False, files_written := files_written w @
         (if first_loop w \<or> (scripts l = [] \<and> excels l = []) then [] else [reload_text (excels l) (scripts l)])\<rparr>"
    by (auto simp: watch_round_def split: option.splits sum.splits)
  note scr = watch_roots_scripts [OF start]
  have "noted (wtimes w) ?l" by (simp add: noted_def)
  with settle_settled [OF l(1)] scr have
      n: "noted (wtimes w) l" and ag: "agrees (all_files roots ?s) (times l)" and d: "distinct (scripts l)" "distinct (excels l)"
    by (auto simp: settled_def)
  note script = script_files_part [OF scr]
  have at: "seen (times l) f = t" if "(f, t) \<in> set (all_files roots ?s)" for f t
    using ag that by (simp add: agrees_def)
  have sub: "x \<in> set (script_files roots ?s) \<Longrightarrow> x \<in> set (all_files roots ?s)"
      "x \<in> set (files_under ?s excel_root) \<Longrightarrow> x \<in> set (all_files roots ?s)"
      "x \<in> set (proto_times ?s) \<Longrightarrow> x \<in> set (all_files roots ?s)" for x
    by (auto simp: all_files_def)
  note note_f = n [unfolded noted_def, rule_format]
  show ?thesis
  proof (rule exI [of _ "excels l"], rule exI [of _ "scripts l"], intro conjI allI impI)
    fix f t
    assume "(f, t) \<in> set (script_files roots ?s)" "t \<noteq> seen (wtimes w) f"
    then show "f \<in> set (scripts l)" using note_f [of f] script at sub(1) by blast
  next
    fix f t
    assume "(f, t) \<in> set (files_under ?s excel_root)" "t \<noteq> seen (wtimes w) f"
    then show "f \<in> set (excels l)" using note_f [of f] excel_files_part at sub(2) by blast
  next
    fix f t
    assume "(f, t) \<in> set (proto_times ?s)" "t \<noteq> seen (wtimes w) f"
    then show "node_base \<in> set (scripts l)" using note_f [of f] proto_times_file at sub(3) by blast
  qed (use l(2) d at in auto)
qed

subsection \<open>When a round ends\<close>

text \<open>A snapshot in which all trees and the protocol files are there.\<close>

definition usable :: "str list \<Rightarrow> snap \<Rightarrow> bool" where
  "usable roots s \<longleftrightarrow> list_all (\<lambda>r. dir_at s r \<noteq> None) (excel_root # roots) \<and> list_all (\<lambda>f. mtime_at s f \<noteq> None) proto_files"

lemma look_root_total: "dir_at s r \<noteq> None \<Longrightarrow> \<exists>l'. look_root s l r = Inr l'"
  by (auto simp: look_root_def listdir_def split: prod.splits)

lemma look_excel_total: "dir_at s excel_root \<noteq> None \<Longrightarrow> \<exists>l'. look_excel s l = Inr l'"
  by (auto simp: look_excel_def listdir_def split: prod.splits)

lemma look_roots_total: "list_all (\<lambda>r. dir_at s r \<noteq> None) roots \<Longrightarrow> \<exists>l'. foldR (look_root s) l roots = Inr l'"
proof (induction roots arbitrary: l)
  case (Cons r roots)
  then obtain l1 where "look_root s l r = Inr l1" using look_root_total by fastforce
  with Cons show ?case by simp
qed simp

lemma look_files_total: "list_all (\<lambda>f. mtime_at s f \<noteq> None) fs \<Longrightarrow> \<exists>bd'. foldR (look_file s) bd fs = Inr bd'"
proof (induction fs arbitrary: bd)
  case (Cons f fs)
  then obtain t where "mtime_at s f = Some t" by auto
  then obtain bd1 where "look_file s bd f = Inr bd1"
    by (cases "is_file_changed f t (snd bd)") (simp add: look_file_def getmtime_def)
  with Cons show ?case by simp
qed simp

lemma look_once_total: "usable roots s \<Longrightarrow> \<exists>l'. look_once roots s l = Inr l'"
proof -
  assume u: "usable roots s"
  then obtain l1 where l1: "foldR (look_root s) (l\<lparr>changing := False\<rparr>) roots = Inr l1"
    using look_roots_total by (force simp: usable_def)
  obtain l2 where l2: "look_excel s l1 = Inr l2"
    using u look_excel_total by (force simp: usable_def)
  obtain bd where "foldR (look_file s) (False, times l2) proto_files = Inr bd"
    using u look_files_total by (force simp: usable_def)
  then show ?thesis by (simp add: look_once_def l1 l2 look_protos_def split: prod.split)
qed

lemma settle_done: "look_once roots (fs k) l = Inr l' \<Longrightarrow> \<not> changing l' \<Longrightarrow> settle roots fs k l = Some (Inr l', Suc k)"
  by (subst settle.simps) simp

lemma settle_more: "look_once roots (fs k) l = Inr l' \<Longrightarrow> changing l' \<Longrightarrow> settle roots fs k l = settle roots fs (Suc k) l'"
  by (subst settle.simps) simp

lemma settle_still:
  assumes u: "usable roots s" "one_time (set (all_files roots s))" and k: "fs k = s" "fs (Suc k) = s"
  shows "\<exists>l' k'. settle roots fs k l = Some (Inr l', k') \<and> k' \<le> k + 2"
proof -
  obtain l1 where l1: "look_once roots (fs k) l = Inr l1" using look_once_total u(1) k(1) by blast
  show ?thesis
  proof (cases "changing l1")
    case True
    obtain l2 where l2: "look_once roots (fs (Suc k)) l1 = Inr l2" using look_once_total u(1) k(2) by blast
    from look_once_pass [OF l1] obtain new where "check_all (all_files roots s) (times l) = (new, times l1)"
      by (auto simp: pass_def k)
    from check_all_sync [OF this, of "{}"] u(2) have "\<forall>(f, t) \<in> set (all_files roots s). seen (times l1) f = t" by simp
    from check_all_agree [OF this] look_once_pass [OF l2] have "\<not> changing l2" by (auto simp: pass_def k)
    with settle_done [of roots fs "Suc k", OF l2] settle_more [of roots fs k, OF l1 True] show ?thesis by simp
  next
    case False
    with settle_done [of roots fs k, OF l1] show ?thesis by simp
  qed
qed

text \<open>
  A round ends: once the files stop changing, two more looks are enough.
\<close>

theorem settle_returns:
  assumes u: "\<forall>j \<ge> k. usable roots (fs j)" and still: "\<forall>j \<ge> m. fs j = s" and one: "one_time (set (all_files roots s))"
  shows "\<exists>l' k'. settle roots fs k l = Some (Inr l', k') \<and> k' \<le> max k m + 2"
  using u
proof (induction "m - k" arbitrary: k l)
  case 0
  then have k: "fs k = s" "fs (Suc k) = s" using still by simp_all
  moreover from k(1) 0 have "usable roots s" by auto
  ultimately obtain l' k' where "settle roots fs k l = Some (Inr l', k')" "k' \<le> k + 2"
    using settle_still [of roots s fs k] one by blast
  then show ?case by (metis le_trans add_le_mono1 max.cobounded1)
next
  case (Suc n)
  obtain l1 where l1: "look_once roots (fs k) l = Inr l1" using look_once_total Suc.prems by blast
  show ?case
  proof (cases "changing l1")
    case True
    from Suc.hyps(2) have "n = m - Suc k" by simp
    from Suc.hyps(1) [OF this, of l1] Suc.prems obtain l' k' where
        "settle roots fs (Suc k) l1 = Some (Inr l', k')" "k' \<le> max (Suc k) m + 2" by auto
    moreover have "max (Suc k) m = max k m" using Suc.hyps(2) by simp
    ultimately show ?thesis using settle_more [of roots fs k, OF l1 True] by auto
  next
    case False
    with settle_done [of roots fs k, OF l1] show ?thesis by (intro exI conjI) auto
  qed
qed

definition one_script :: snap where
  "one_script = \<lparr>dir_at = (\<lambda>d. Some (if d = ''./lualib'' then [(''a.lua'', NFile 5)] else [])), mtime_at = (\<lambda>f. Some 1)\<rparr>"

definition two_roots :: "str list" where "two_roots = [''./lualib'', ''./gamelogic/lualib'']"

lemma one_script_files:
  "all_files two_roots one_script = [(''./lualib/a.lua'', 5), (''./bin/c2s.spb'', 1), (''./bin/s2c.spb'', 1)]"
  "watch_roots one_script = Inr two_roots" "usable two_roots one_script"
proof -
  have "ends_with ''.lua'' ''./lualib/a.lua''" by code_simp
  then show "all_files two_roots one_script = [(''./lualib/a.lua'', 5), (''./bin/c2s.spb'', 1), (''./bin/s2c.spb'', 1)]"
    by (simp add: all_files_def script_files_def two_roots_def files_under_def one_script_def excel_root_def proto_times_def proto_files_def)
  show "watch_roots one_script = Inr two_roots"
    by (simp add: watch_roots_def listdir_def one_script_def two_roots_def)
  show "usable two_roots one_script"
    by (simp add: usable_def one_script_def two_roots_def list_all_iff)
qed

lemma one_script_once: "one_time (set (all_files two_roots one_script))"
  by (auto simp: one_script_files one_time_def)

theorem reload_misses_nothing_witness:
  "\<exists>w' k'. watch_round two_roots (\<lambda>j. one_script) 0 \<lparr>wtimes = Map.empty, first_loop = False, files_written = []\<rparr> = Some (Inr w', k') \<and>
     files_written w' \<noteq> [] \<and> seen (wtimes w') ''./lualib/a.lua'' = 5"
proof -
  let ?w = "\<lparr>wtimes = Map.empty, first_loop = False, files_written = []\<rparr>"
  from settle_still [OF one_script_files(3) one_script_once, of "\<lambda>j. one_script" 0 "\<lparr>times = Map.empty, scripts = [], excels = [], changing = False\<rparr>"]
  obtain l k' where "settle two_roots (\<lambda>j. one_script) 0 \<lparr>times = Map.empty, scripts = [], excels = [], changing = False\<rparr> = Some (Inr l, k')" by auto
  then obtain w' where w': "watch_round two_roots (\<lambda>j. one_script) 0 ?w = Some (Inr w', k')"
    by (auto simp: watch_round_def)
  have "(''./lualib/a.lua'', 5) \<in> set (script_files two_roots one_script)"
  proof -
    have "ends_with ''.lua'' ''./lualib/a.lua''" by code_simp
    then show ?thesis by (simp add: script_files_def two_roots_def files_under_def one_script_def)
  qed
  moreover have "seen Map.empty ''./lualib/a.lua'' = (0 :: rat)" by (simp add: seen_def)
  moreover have "(''./lualib/a.lua'', 5) \<in> set (all_files two_roots one_script)" by (simp add: one_script_files)
  ultimately show ?thesis using reload_misses_nothing [OF one_script_files(2) w'] w' by fastforce
qed

theorem settle_returns_witness:
  "\<exists>l' k'. settle two_roots (\<lambda>j. one_script) 0 \<lparr>times = Map.empty, scripts = [], excels = [], changing = True\<rparr> = Some (Inr l', k') \<and> k' \<le> 5"
proof -
  from settle_returns [of 0 two_roots "\<lambda>j. one_script" 3 one_script "\<lparr>times = Map.empty, scripts = [], excels = [], changing = True\<rparr>"]
    one_script_files(3) one_script_once
  show ?thesis by simp
qed

end
