(* ===== verification/Error_Watch.thy ===== *)
theory Error_Watch
  imports Py_String "HOL-Library.Sublist"
begin

text \<open>
  The watcher that posts what is appended to the error logs, \<^verbatim>\<open>tools/error_watcher/error_watch.py\<close>: the
  counts it starts from, read from the output of \<open>wc\<close>, and the handlers of the file events. An event carries
  what the handler finds: the content of the file (\<open>None\<close> when \<open>tail\<close> fails) and whether the post gets through.
  \<open>os.path.realpath\<close> and the log directory are arguments.
\<close>

subsection \<open>The counts at the start\<close>

record eenv =
  log_dir :: str
  realpath :: "str \<Rightarrow> str"

type_synonym counts = "str \<rightharpoonup> int"

text \<open>\<open>[x for x in text.split(sep) if x]\<close>\<close>

definition parts :: "str \<Rightarrow> str \<Rightarrow> str list" where
  "parts sep s = filter (\<lambda>x. x \<noteq> []) (split_on sep s)"

text \<open>The loop stops at the first line of fewer than four fields.\<close>

fun count_lines :: "eenv \<Rightarrow> str list \<Rightarrow> counts \<Rightarrow> counts res" where
  "count_lines e [] d = Inr d"
| "count_lines e (l # ls) d =
     (let fs = parts '' '' l in
      if length fs < 4 then Inr d
      else rbind (int_of (fs ! 2)) (\<lambda>n. count_lines e ls (d(realpath e (fs ! 3) \<mapsto> n))))"

definition initial_counts :: "eenv \<Rightarrow> str \<Rightarrow> counts res" where
  "initial_counts e out =
     (let ls = parts [CHR 0x0A] out in
      count_lines e (if length ls > 1 then butlast ls else ls) Map.empty)"

subsection \<open>The events\<close>

datatype fevent = Created str | Deleted str | Modified str "str option" bool

text \<open>A post: the file, the new bytes, the text that is sent, and whether it arrived.\<close>

record post =
  p_file :: str
  p_raw :: str
  p_text :: str
  p_arrived :: bool

record estate =
  file_dict :: counts
  posts :: "post list"

definition base_of :: "str \<Rightarrow> str" where
  "base_of p = last (split_on ''/'' p)"

text \<open>Python's \<open>text[1:]\<close> and the position \<open>+n\<close> of \<open>tail -c\<close>, which counts from 1 and takes 0 for 1.\<close>

definition tail_from :: "int \<Rightarrow> str \<Rightarrow> str" where
  "tail_from n c = drop (nat n) c"

definition post_text :: "eenv \<Rightarrow> str \<Rightarrow> str \<Rightarrow> str" where
  "post_text e p new =
     replace_sub [CHR 0x22] [CHR 0x27]
       (replace_sub [CHR 0x0A] [CHR 0x5C, CHR ''n'']
         (replace_sub [CHR 0x09] [CHR 0x5C, CHR ''t'']
           (''=====>> '' @ drop 1 (replace_sub (log_dir e) [] p) @ '' <<====='' @ [CHR 0x0A] @ new)))"

definition on_event :: "eenv \<Rightarrow> estate \<Rightarrow> fevent \<Rightarrow> estate res" where
  "on_event e st ev =
     (case ev of
        Created p \<Rightarrow> Inr (if file_dict st p = None then st\<lparr>file_dict := (file_dict st)(p \<mapsto> 0)\<rparr> else st)
      | Deleted p \<Rightarrow> Inr (st\<lparr>file_dict := (file_dict st)(p := None)\<rparr>)
      | Modified p content arrives \<Rightarrow>
          if \<not> starts_with ''error'' (base_of p) then Inr st
          else rbind (of_option KeyError (file_dict st p)) (\<lambda>n.
               rbind (of_option (RuntimeError ''CalledProcessError'') content) (\<lambda>c.
                 let new = tail_from n c in
                 if new = [] then Inr st
                 else Inr (st\<lparr>file_dict := (file_dict st)(p \<mapsto> n + int (length new)),
                        posts := posts st @ [\<lparr>p_file = p, p_raw = new, p_text = post_text e p new, p_arrived = arrives\<rparr>]\<rparr>))))"

definition watch :: "eenv \<Rightarrow> estate \<Rightarrow> fevent list \<Rightarrow> estate res" where
  "watch e st evs = foldR (on_event e) st evs"

subsection \<open>Every new byte is posted once\<close>

text \<open>What the watcher finds in one file, in order, and that the file only grows.\<close>

definition found_in :: "str \<Rightarrow> fevent list \<Rightarrow> str list" where
  "found_in p evs = concat (map (\<lambda>ev. case ev of Modified q (Some c) _ \<Rightarrow> if q = p then [c] else [] | _ \<Rightarrow> []) evs)"

fun only_grows :: "str \<Rightarrow> str list \<Rightarrow> bool" where
  "only_grows c [] \<longleftrightarrow> True"
| "only_grows c (c' # cs) \<longleftrightarrow> prefix c c' \<and> only_grows c' cs"

definition posted :: "str \<Rightarrow> estate \<Rightarrow> str" where
  "posted p st = concat (map p_raw (filter (\<lambda>q. p_file q = p) (posts st)))"

lemma found_simps [simp]:
  "found_in p [] = []" "found_in p (Created q # evs) = found_in p evs" "found_in p (Deleted q # evs) = found_in p evs"
  "found_in p (Modified q c b # evs) = (case c of None \<Rightarrow> [] | Some x \<Rightarrow> if q = p then [x] else []) @ found_in p evs"
  by (simp_all add: found_in_def split: option.split)

lemma event_other:
  assumes "on_event e st ev = Inr st'" "found_in p [ev] = []" "ev \<noteq> Deleted p" "file_dict st p = Some n" "starts_with ''error'' (base_of p)"
  shows "file_dict st' p = Some n \<and> posted p st' = posted p st"
  using assms
  by (cases ev) (auto simp: on_event_def posted_def res_simps Let_def split: if_splits option.splits)

lemma event_found:
  assumes ev: "on_event e st (Modified p content b) = Inr st'" and n: "file_dict st p = Some (int (length c))"
    and err: "starts_with ''error'' (base_of p)"
  obtains c' where "content = Some c'" "prefix c c' \<Longrightarrow>
    file_dict st' p = Some (int (length c')) \<and> (\<exists>t. c' = c @ t \<and> posted p st' = posted p st @ t)"
proof -
  from ev n err obtain c' where c': "content = Some c'"
    by (auto simp: on_event_def res_simps)
  have "file_dict st' p = Some (int (length c')) \<and> (\<exists>t. c' = c @ t \<and> posted p st' = posted p st @ t)" if "prefix c c'"
  proof -
    from that obtain t where t: "c' = c @ t" by (auto simp: prefix_def)
    show ?thesis
    proof (cases "t = []")
      case True
      with ev n err c' t show ?thesis by (simp add: on_event_def tail_from_def)
    next
      case False
      with ev n err c' t show ?thesis by (auto simp: on_event_def tail_from_def posted_def)
    qed
  qed
  with c' that show thesis by blast
qed



subsection \<open>What is sent and what \<open>wc\<close> says\<close>

lemma set_join: "set (join sep xs) \<subseteq> set sep \<union> \<Union> (set (map set xs))"
  by (induction sep xs rule: join.induct) auto

lemma split_on_set: "x \<in> set (split_on sep s) \<Longrightarrow> set x \<subseteq> set s"
proof -
  have "set x \<subseteq> set (join sep xs)" if "x \<in> set xs" for xs
    using that by (induction sep xs rule: join.induct) auto
  from this [of "split_on sep s"] show "x \<in> set (split_on sep s) \<Longrightarrow> set x \<subseteq> set s" by (simp add: join_split)
qed

lemma replace_set: "set (replace_sub [c] t s) \<subseteq> (set s - {c}) \<union> set t"
proof -
  have "set x \<subseteq> set s - {c}" if "x \<in> set (split_on [c] s)" for x
    using split_on_set [OF that] split_on_single_free [OF that] by auto
  then show ?thesis using set_join [of t "split_on [c] s"] unfolding replace_sub_def by fastforce
qed

text \<open>A message is one line without tabs and double quotes, so that it can stand in a JSON text.\<close>

theorem message_plain: "set (post_text e p new) \<inter> {CHR 0x09, CHR 0x0A, CHR 0x22} = {}"
proof -
  let ?a = "''=====>> '' @ drop 1 (replace_sub (log_dir e) [] p) @ '' <<====='' @ [CHR 0x0A] @ new"
  let ?b = "replace_sub [CHR 0x09] [CHR 0x5C, CHR ''t''] ?a"
  let ?c = "replace_sub [CHR 0x0A] [CHR 0x5C, CHR ''n''] ?b"
  have "CHR 0x09 \<notin> set ?b" using replace_set [of "CHR 0x09" "[CHR 0x5C, CHR ''t'']" ?a] by auto
  then have "CHR 0x09 \<notin> set ?c" "CHR 0x0A \<notin> set ?c"
    using replace_set [of "CHR 0x0A" "[CHR 0x5C, CHR ''n'']" ?b] by auto
  then show ?thesis using replace_set [of "CHR 0x22" "[CHR 0x27]" ?c] unfolding post_text_def by auto
qed

text \<open>The output of \<open>wc\<close>: the numbers are padded to a width, and a line of totals follows two or more files.\<close>

record wc_row =
  wc_lines :: nat
  wc_words :: nat
  wc_bytes :: nat
  wc_path :: str

definition padded :: "nat \<Rightarrow> nat \<Rightarrow> str" where
  "padded k n = replicate (k - length (int_str (int n))) (CHR '' '') @ int_str (int n) @ '' ''"

definition wc_line :: "nat \<Rightarrow> wc_row \<Rightarrow> str" where
  "wc_line k r = padded k (wc_lines r) @ padded k (wc_words r) @ padded k (wc_bytes r) @ wc_path r"

lemma fields_blank: "parts '' '' (replicate k (CHR '' '') @ s) = parts '' '' s"
proof (induction k)
  case (Suc k)
  have "split_on '' '' ([] @ CHR '' '' # replicate k (CHR '' '') @ s) = [] # split_on '' '' (replicate k (CHR '' '') @ s)"
    by (rule split_on_single_Cons) simp
  with Suc show ?case by (simp add: parts_def)
qed simp

lemma fields_word: "x \<noteq> [] \<Longrightarrow> CHR '' '' \<notin> set x \<Longrightarrow> parts '' '' (x @ CHR '' '' # s) = x # parts '' '' s"
  by (simp add: parts_def split_on_single_Cons)

lemma fields_last: "x \<noteq> [] \<Longrightarrow> CHR '' '' \<notin> set x \<Longrightarrow> parts '' '' x = [x]"
  by (simp add: parts_def split_on_single_Nil)

lemma int_str_word: "int_str i \<noteq> []" "CHR '' '' \<notin> set (int_str i)"
proof -
  show "int_str i \<noteq> []" using nat_str_digits by (auto simp: int_str_def isdigit_def)
  have "\<not> is_digit (CHR '' '')" by (simp add: is_digit_def)
  then show "CHR '' '' \<notin> set (int_str i)" using int_str_chars by fastforce
qed

lemma fields_padded: "parts '' '' (padded k n @ s) = int_str (int n) # parts '' '' s"
  using fields_word [OF int_str_word, of "int n" s] by (simp add: padded_def fields_blank)

definition wc_path_ok :: "wc_row \<Rightarrow> bool" where
  "wc_path_ok r \<longleftrightarrow> wc_path r \<noteq> [] \<and> CHR '' '' \<notin> set (wc_path r)"

lemma wc_fields:
  "wc_path_ok r \<Longrightarrow> parts '' '' (wc_line k r) = [int_str (int (wc_lines r)), int_str (int (wc_words r)), int_str (int (wc_bytes r)), wc_path r]"
  by (simp add: wc_line_def fields_padded fields_last wc_path_ok_def)

theorem counts_from_wc:
  "list_all wc_path_ok rs \<Longrightarrow>
   count_lines e (map (wc_line k) rs) d = Inr (fold (\<lambda>r d. d(realpath e (wc_path r) \<mapsto> int (wc_bytes r))) rs d)"
  by (induction rs arbitrary: d) (auto simp: wc_fields Let_def)
end
