(* ===== verification/Game_Manager.thy ===== *)
theory Game_Manager
  imports Server_Config Server_Run_Proofs
begin

text \<open>
  The pages of \<^verbatim>\<open>tools/game_server_mgr\<close>: \<^verbatim>\<open>op_server.py\<close>, which lists, adds and starts game servers, and the
  handlers of \<^verbatim>\<open>game_server_main.py\<close>. The file \<^verbatim>\<open>config.yaml\<close> is its text; PyYAML, JSON, pymysql, the shell and the
  change of directory are arguments. A change of directory is recorded as a call. The handlers take the
  parameters of the request; their argument for the user, which nothing passes, is not used.
\<close>

record mgr_env =
  shell :: host
  chdir :: "event list \<Rightarrow> str \<Rightarrow> unit res"
  mysql :: "event list \<Rightarrow> str \<Rightarrow> unit res"
  yaml_load :: "str \<Rightarrow> yaml res"
  yaml_dump :: "attrs \<Rightarrow> str"
  writable :: bool
  json_names :: "str \<Rightarrow> str list res"
  here :: str

definition INPUT_WRONG :: str where
  "INPUT_WRONG = utf8 [0xe8, 0xaf, 0xb7, 0xe6, 0xa3, 0x80, 0xe6, 0x9f, 0xa5, 0xe8, 0xbe, 0x93, 0xe5, 0x85, 0xa5]"
definition MAKE_FAILED :: str where
  "MAKE_FAILED = utf8 [0xe5, 0x88, 0x9b, 0xe5, 0xbb, 0xba, 0xe5, 0x90, 0xaf, 0xe5, 0x8a, 0xa8, 0xe6, 0x96, 0x87, 0xe4, 0xbb,
    0xb6, 0xe5, 0xa4, 0xb1, 0xe8, 0xb4, 0xa5]"
definition CHOOSE :: str where
  "CHOOSE = utf8 [0xe8, 0xaf, 0xb7, 0xe9, 0x80, 0x89, 0xe6, 0x8b, 0xa9]"

subsection \<open>The operations\<close>

definition cd :: "mgr_env \<Rightarrow> str \<Rightarrow> unit prog" where
  "cd w = ask (chdir w) (\<lambda>p. Call [''cd'', p])"

text \<open>\<open>try\<close> with an \<open>except\<close> for everything, and its truth value.\<close>

definition succeeds :: "unit prog \<Rightarrow> bool prog" where
  "succeeds m h = map_option (\<lambda>(r, h'). (Inr (case r of Inl _ \<Rightarrow> False | Inr _ \<Rightarrow> True), h')) (m h)"

definition make_game_server_lua :: "mgr_env \<Rightarrow> bool prog" where
  "make_game_server_lua w =
     succeeds (pbind (cd w (here w @ ''/../../config/'')) (\<lambda>_.
       pbind (os_system ''python generator.py --global'') (\<lambda>_.
       pbind (emit Sleep) (\<lambda>_.
       pbind (os_system ''python generator.py'') (\<lambda>_. cd w (here w))))))"

definition start_all_game_server :: "mgr_env \<Rightarrow> bool prog" where
  "start_all_game_server w =
     succeeds (pbind (cd w (here w @ ''/../../'')) (\<lambda>_.
       pbind (run_script ''python start_server.py'' (start_server_main (shell w) True)) (\<lambda>_. cd w (here w))))"

definition query_game_server_lua :: "mgr_env \<Rightarrow> bool \<Rightarrow> str list prog" where
  "query_game_server_lua w in_dir =
     (if \<not> in_dir then plift (Inl AssertionError)
      else pbind (check_output (shell w) (''cd '' @ here w @ ''/../../config/'' @ '' && ls s*_game.lua'')) (\<lambda>s. pret (game_configs s)))"

definition query_game_server :: "mgr_env \<Rightarrow> str \<Rightarrow> yaml res" where
  "query_game_server w text =
     rbind (yaml_load w text) (\<lambda>y. case y of YMap c \<Rightarrow> dict_get c ''server_list'' | _ \<Rightarrow> Inl TypeError)"

text \<open>The text of the file afterwards.\<close>

definition add_game_server :: "mgr_env \<Rightarrow> attrs \<Rightarrow> str \<Rightarrow> bool \<times> str" where
  "add_game_server w args text = (if writable w then (True, text @ yaml_dump w args) else (False, text))"

definition create_db :: "str \<Rightarrow> str" where
  "create_db i = ''CREATE DATABASE IF NOT EXISTS hd_game'' @ i"

definition make_game_server_databases :: "mgr_env \<Rightarrow> str \<Rightarrow> bool prog" where
  "make_game_server_databases w i = succeeds (ask (mysql w) Sql (create_db i))"

subsection \<open>The pages\<close>

datatype 'a page_reply = Info 'a | Err str

definition list_items :: "yaml \<Rightarrow> yaml list res" where
  "list_items y =
     (case y of YList xs \<Rightarrow> Inr xs | YMap [] \<Rightarrow> Inl KeyError | YStr [] \<Rightarrow> Inl IndexError | _ \<Rightarrow> Inl TypeError)"

definition type_of :: "yaml \<Rightarrow> yaml res" where
  "type_of y = (case y of YMap m \<Rightarrow> dict_get m ''type'' | _ \<Rightarrow> Inl TypeError)"

definition game_servers :: "yaml list \<Rightarrow> yaml list res" where
  "game_servers xs = rbind (mapR type_of xs) (\<lambda>ts. Inr (map fst (filter (\<lambda>(x, t). t = YStr ''game'') (zip xs ts))))"

definition titles :: "yaml list \<Rightarrow> str list res" where
  "titles xs = rbind (nth_res xs 0) (\<lambda>x. case x of YMap m \<Rightarrow> Inr (map fst m) | _ \<Rightarrow> Inl TypeError)"

definition query_server_page :: "mgr_env \<Rightarrow> bool \<Rightarrow> str \<Rightarrow> (yaml list \<times> str list \<times> str list) prog" where
  "query_server_page w in_dir text =
     pbind (plift (query_game_server w text)) (\<lambda>y.
     pbind (query_game_server_lua w in_dir) (\<lambda>lua.
     pbind (plift (list_items y)) (\<lambda>xs.
     pbind (plift (game_servers xs)) (\<lambda>games.
     pbind (plift (titles xs)) (\<lambda>ts. pret (games, ts, lua))))))"

definition number_param :: "(str \<Rightarrow> str option) \<Rightarrow> str \<Rightarrow> int res" where
  "number_param req k = rbind (of_option TypeError (req k)) int_of"

definition text_param :: "(str \<Rightarrow> str option) \<Rightarrow> str \<Rightarrow> yaml" where
  "text_param req k = (case req k of None \<Rightarrow> YNull | Some s \<Rightarrow> YStr s)"

definition new_args :: "(str \<Rightarrow> str option) \<Rightarrow> attrs res" where
  "new_args req =
     rbind (number_param req ''server_id'') (\<lambda>sid.
     rbind (number_param req ''area_id'') (\<lambda>area.
     rbind (number_param req ''allow_login'') (\<lambda>allow.
       Inr [(''name'', text_param req ''name''), (''type'', YStr ''game''), (''server_id'', YInt sid),
         (''ip'', text_param req ''ip''), (''area_id'', YInt area), (''area_name'', text_param req ''area_name''),
         (''open_time'', text_param req ''open_time''), (''allow_login'', YInt allow),
         (''enable_ssl'', YBool (case req ''enable_ssl'' of None \<Rightarrow> False | Some s \<Rightarrow> s \<noteq> [])),
         (''state'', text_param req ''state''), (''recommend_status'', YInt 0), (''recommend_priority'', YInt 1),
         (''cross_server_id'', YInt 70)])))"

definition add_in_server_list :: "mgr_env \<Rightarrow> (str \<Rightarrow> str option) \<Rightarrow> str \<Rightarrow> unit page_reply \<times> str" where
  "add_in_server_list w req text =
     (case new_args req of
        Inl _ \<Rightarrow> (Err INPUT_WRONG, text)
      | Inr args \<Rightarrow> (case add_game_server w args text of (ok, text') \<Rightarrow> (if ok then Info () else Err ''error'', text')))"

definition make_lua_page :: "mgr_env \<Rightarrow> unit page_reply prog" where
  "make_lua_page w = pbind (make_game_server_lua w) (\<lambda>ok. pret (if ok then Info () else Err MAKE_FAILED))"

definition id_part :: "str \<Rightarrow> str res" where
  "id_part s = rbind (of_option ValueError (find_sub ''_'' s)) (\<lambda>k. Inr (drop 1 (take k s)))"

definition start_one :: "mgr_env \<Rightarrow> str \<Rightarrow> unit prog" where
  "start_one w s =
     pbind (plift (id_part s)) (\<lambda>i.
     pbind (make_game_server_databases w i) (\<lambda>_.
     pbind (emit Sleep) (\<lambda>_.
       run_script (''python start_server.py --'' @ s) (start_server_main (shell w) True))))"

definition start_selected_server_list :: "mgr_env \<Rightarrow> str \<Rightarrow> unit page_reply prog" where
  "start_selected_server_list w game_server_list =
     pbind (plift (json_names w game_server_list)) (\<lambda>names.
       if names = [] then pret (Err CHOOSE)
       else pbind (cd w (here w @ ''/../../'')) (\<lambda>_.
            pbind (for_each (start_one w) names) (\<lambda>_.
            pbind (cd w (here w)) (\<lambda>_. pret (Info ())))))"

subsection \<open>What an addition does to the list\<close>

lemma foldl_update_other: "k \<notin> fst ` set d \<Longrightarrow> map_of (foldl (\<lambda>m (a, v). AList.update a v m) c d) k = map_of c k"
proof (induction d arbitrary: c)
  case (Cons x d)
  then show ?case by (cases x) (simp add: update_conv')
qed simp

lemma new_args_keys: "new_args req = Inr args \<Longrightarrow> ''server_list'' \<notin> fst ` set args"
  by (auto simp: new_args_def res_simps)

text \<open>
  A server added through the page is not in the list: the page writes its entries at the top level of the file,
  behind the list, so whatever is added the list that is read afterwards is the one that was there, and the
  page reports success.
\<close>

theorem added_not_listed:
  assumes page: "add_in_server_list w req text = (Info (), text')" and args: "new_args req = Inr args"
    and now: "yaml_load w text = Inr (YMap c)"
    and merge: "yaml_load w (text @ yaml_dump w args) = Inr (YMap (foldl (\<lambda>m (k, v). AList.update k v m) c args))"
  shows "query_game_server w text' = query_game_server w text"
proof -
  have "text' = text @ yaml_dump w args"
    using page args by (auto simp: add_in_server_list_def add_game_server_def split: if_splits)
  then show ?thesis using now merge new_args_keys [OF args]
    by (simp add: query_game_server_def dict_get_def foldl_update_other)
qed

text \<open>Any text for \<open>enable_ssl\<close> but the empty one means yes.\<close>

lemma ssl_by_any_text:
  "new_args req = Inr args \<Longrightarrow> req ''enable_ssl'' = Some s \<Longrightarrow> map_of args ''enable_ssl'' = Some (YBool (s \<noteq> []))"
  by (auto simp: new_args_def res_simps)

subsection \<open>What a selection starts\<close>

definition sqls :: "event list \<Rightarrow> str list" where
  "sqls t = concat (map (\<lambda>e. case e of Sql q \<Rightarrow> [q] | _ \<Rightarrow> []) t)"

lemma sqls_simps [simp]:
  "sqls [] = []" "sqls (t @ u) = sqls t @ sqls u" "sqls (Sql q # t) = q # sqls t" "sqls (Sys c # t) = sqls t"
  "sqls (Out c # t) = sqls t" "sqls (Call cs # t) = sqls t" "sqls (Sleep # t) = sqls t"
  by (simp_all add: sqls_def)

definition no_sql :: "event \<Rightarrow> bool" where
  "no_sql e \<longleftrightarrow> (\<forall>q. e \<noteq> Sql q)"

lemma no_sql_simps [simp]: "no_sql (Sys c)" "no_sql (Out c)" "no_sql Sleep"
  by (simp_all add: no_sql_def)

lemma no_sql_trace: "\<forall>e \<in> set t. no_sql e \<Longrightarrow> sqls t = []"
  by (auto simp: sqls_def no_sql_def split: event.splits)

lemma launches_other [simp]: "launches (Sql q # t) = launches t" "launches (Call cs # t) = launches t"
  by (simp_all add: launches_def)

lemma emits_run_script [intro]:
  assumes "P (Sys c)" "emits P m"
  shows "emits P (run_script c m)"
proof (rule emitsI)
  fix h r h'
  assume "run_script c m h = Some (r, h')"
  then obtain q where "m (h @ [Sys c]) = Some (q, h')" by (auto simp: run_script_some)
  from emitsD [OF assms(2) this] obtain t where "h' = (h @ [Sys c]) @ t" "\<forall>e \<in> set t. P e" by blast
  then show "\<exists>t. h' = h @ t \<and> (\<forall>e \<in> set t. P e)" using assms(1) by (intro exI [of _ "Sys c # t"]) simp
qed

lemma emits_case_prod: "(\<And>a b. emits P (f a b)) \<Longrightarrow> emits P (case x of (a, b) \<Rightarrow> f a b)"
  by (cases x) simp

lemma stop_nodes_no_sql: "emits no_sql (stop_nodes w i k cs)"
  unfolding stop_nodes_def kill_found_def shutdown_skynet_def check_output_def os_system_def
  by (intro emits_bind emits_for_each emits_basic emits_if poll_emits) simp_all

lemma shutdown_server_no_sql: "emits no_sql (shutdown_server_main w b as)"
  unfolding shutdown_server_main_def Let_def check_output_def
  by (intro emits_bind emits_basic emits_if emits_case_prod stop_nodes_no_sql) simp_all

lemma start_server_no_sql: "emits no_sql (start_server_main w b)"
  unfolding start_server_main_def start_node_def touch_reload_def wait_started_def start_reload_def check_output_def os_system_def
  by (intro emits_bind emits_for_each emits_basic emits_if poll_emits emits_case_prod emits_run_script shutdown_server_no_sql)
    simp_all

text \<open>
  A host whose commands all answer, whose database accepts every statement and whose listing never changes.
\<close>

definition steady :: "mgr_env \<Rightarrow> str \<Rightarrow> bool" where
  "steady w out \<longleftrightarrow> answers (shell w) \<and> (\<forall>h. check (shell w) h LS_GAME = Inr out) \<and> (\<forall>h q. mysql w h q = Inr ())"

lemma start_one_run:
  assumes "\<forall>h q. mysql w h q = Inr ()" "id_part s = Inr x"
  shows "start_one w s h = run_script (''python start_server.py --'' @ s) (start_server_main (shell w) True) (h @ [Sql (create_db x), Sleep])"
proof -
  have "make_game_server_databases w x h = Some (Inr True, h @ [Sql (create_db x)])" for h
    using assms(1) by (simp add: make_game_server_databases_def succeeds_def ask_def)
  then show ?thesis unfolding start_one_def assms(2) by (simp only: prog_simps append_assoc append.simps)
qed

lemma start_one_launches:
  assumes w: "steady w out" "the_game out = Inr (c, i)" and run: "start_one w s h = Some (r, h')" and s: "id_part s = Inr x"
  shows "r = Inr () \<and> (\<exists>t. h' = h @ t \<and> launches t = map launch (c # map (node_config i) [''chat'', ''dynasty'']) \<and> sqls t = [create_db x])"
proof -
  let ?h = "h @ [Sql (create_db x), Sleep]" and ?p = "''python start_server.py --'' @ s"
  have "run_script ?p (start_server_main (shell w) True) ?h = Some (r, h')"
    using run w(1) start_one_run [OF _ s] by (simp add: steady_def)
  then obtain q where q: "r = Inr ()" "start_server_main (shell w) True (?h @ [Sys ?p]) = Some (q, h')"
    by (auto simp: run_script_some)
  have a: "answers (shell w)" "check (shell w) (?h @ [Sys ?p]) LS_GAME = Inr out" using w(1) by (simp_all add: steady_def)
  from start_server_launches [OF a w(2) q(2)] obtain t where
      t: "h' = (?h @ [Sys ?p]) @ t" "launches t = map launch (c # map (node_config i) [''chat'', ''dynasty''])" by blast
  from emitsD [OF start_server_no_sql q(2)] t(1) have "sqls t = []" using no_sql_trace by auto
  then show ?thesis using t q(1) by (intro conjI exI [of _ "[Sql (create_db x), Sleep, Sys ?p] @ t"]) simp_all
qed

lemma start_each_launches:
  assumes w: "steady w out" "the_game out = Inr (c, i)"
  shows "for_each (start_one w) names h = Some (r, h') \<Longrightarrow> mapR id_part names = Inr ids \<Longrightarrow>
    r = Inr () \<and> (\<exists>t. h' = h @ t \<and> sqls t = map create_db ids \<and>
      launches t = concat (replicate (length names) (map launch (c # map (node_config i) [''chat'', ''dynasty'']))))"
proof (induction names arbitrary: h ids)
  case (Cons s names)
  obtain x xs where ids: "ids = x # xs" "id_part s = Inr x" "mapR id_part names = Inr xs" using Cons.prems(2) by (auto simp: res_simps)
  from Cons.prems(1) obtain h1 where one: "start_one w s h = Some (Inr (), h1)" and rest: "for_each (start_one w) names h1 = Some (r, h')"
    unfolding for_each.simps by (rule then_some) (use start_one_launches [OF w _ ids(2)] in blast)
  from start_one_launches [OF w one ids(2)] obtain t where t: "h1 = h @ t" "sqls t = [create_db x]"
      "launches t = map launch (c # map (node_config i) [''chat'', ''dynasty''])" by blast
  from Cons.IH [OF rest ids(3)] obtain u where u: "r = Inr ()" "h' = h1 @ u" "sqls u = map create_db xs"
      "launches u = concat (replicate (length names) (map launch (c # map (node_config i) [''chat'', ''dynasty''])))" by blast
  show ?case using t u ids(1) by (intro conjI exI [of _ "t @ u"]) simp_all
qed (auto simp: prog_simps)


subsection \<open>The hypotheses can hold\<close>

definition four_games :: str where
  "four_games = join [CHR 0x0A] [''s50_game.lua'', ''s51_game.lua'', ''s53_game.lua'', ''s55_game.lua'', []]"

definition four_host :: host where
  "four_host = \<lparr>check = (\<lambda>h c. Inr (if c = LS_GAME then four_games else [])), isfile = (\<lambda>h f. False)\<rparr>"

lemma four_listed: "the_game four_games = Inr (''s55_game.lua'', 55)" "check four_host h LS_GAME = Inr four_games"
proof -
  show "the_game four_games = Inr (''s55_game.lua'', 55)" by code_simp
qed (simp add: four_host_def)

lemma ps_not_listing: "skynet_ps x \<noteq> LS_GAME" "reload_ps i \<noteq> LS_GAME"
  by (simp_all add: skynet_ps_def reload_ps_def py_ps_def grep_pid_def LS_GAME_def)

lemma four_stops: "\<exists>h'. stop_nodes four_host i k cs h = Some (Inr (), h')"
proof -
  have "strip [] = []" by (simp add: strip_def)
  then have q: "\<exists>h'. kill_found four_host (reload_ps i) h = Some (Inr (), h')"
      "\<exists>h'. shutdown_skynet four_host x b h = Some (Inr (), h')" for h x b
    using ps_not_listing by (auto simp: kill_found_def shutdown_skynet_def check_output_def pbind_def ask_def pret_def four_host_def)
  show ?thesis unfolding stop_nodes_def by (intro total_then for_each_total sys_total q)
qed

lemma four_shuts: "''--kill'' \<in> set as \<longleftrightarrow> k \<Longrightarrow>
    \<exists>h'. shutdown_server_main four_host True as h = Some (Inr (), h')"
  using four_stops by (simp add: shutdown_server_main_def Let_def check_output_def pbind_def ask_def plift_def four_listed)

lemma four_starts: "\<exists>h'. start_server_main four_host True h = Some (Inr (), h')"
proof -
  have "starting_files [] = []" by code_simp
  then have "\<exists>h'. wait_started four_host ''cd status/ && ls'' h = Some (Inr (), h')" for h
    unfolding wait_started_def by (subst poll.simps) (simp add: four_host_def LS_GAME_def)
  moreover have "\<exists>h'. run_script c (shutdown_server_main four_host True [''shutdown_server.py'']) h = Some (Inr (), h')" for c h
    using four_shuts [of "[''shutdown_server.py'']" False] by (auto simp: run_script_some) blast
  ultimately have "\<exists>h'. pbind (run_script ''python -u shutdown_server.py'' (shutdown_server_main four_host True [''shutdown_server.py''])) (\<lambda>_.
        pbind (os_system ''chmod +x bin/skynet'') (\<lambda>_. pbind (touch_reload four_host) (\<lambda>_.
        pbind (for_each start_node cs) (\<lambda>_. pbind (wait_started four_host ''cd status/ && ls'') (\<lambda>_. start_reload i))))) h = Some (Inr (), h')"
    for cs i h
    unfolding start_reload_def by (intro total_then sys_total touch_reload_total start_nodes_total)
  then show ?thesis
    by (simp add: start_server_main_def check_output_def pbind_def [of "ask _ _ _"] pbind_def [of "plift _"] ask_def plift_def four_listed
        del: for_each.simps list.map)
qed

definition four_mgr :: mgr_env where
  "four_mgr = \<lparr>shell = four_host, chdir = (\<lambda>h p. Inr ()), mysql = (\<lambda>h q. Inr ()),
     yaml_load = (\<lambda>s. Inr (YMap ((''server_list'', YList []) # (if s = [] then [] else [(''server_id'', YInt 60)])))),
     yaml_dump = (\<lambda>d. ''x''), writable = True, json_names = (\<lambda>s. Inr [''s50_game.lua'']), here = ''mgr''\<rparr>"


definition sample_request :: "str \<Rightarrow> str option" where
  "sample_request = map_of [(''server_id'', ''60''), (''area_id'', ''1''), (''allow_login'', ''1''), (''enable_ssl'', ''0'')]"

definition sample_args :: attrs where
  "sample_args = (case new_args sample_request of Inl _ \<Rightarrow> [] | Inr d \<Rightarrow> d)"

text \<open>A reader that knows two texts: the empty one, with an empty list, and the one with the addition.\<close>

definition sample_mgr :: mgr_env where
  "sample_mgr = four_mgr\<lparr>yaml_load := (\<lambda>s. let c = [(''server_list'', YList [])] in
     Inr (YMap (if s = [] then c else foldl (\<lambda>m (k, v). AList.update k v m) c sample_args)))\<rparr>"

lemma added_not_listed_witness:
  "add_in_server_list sample_mgr sample_request [] = (Info (), ''x'') \<and>
     query_game_server sample_mgr ''x'' = Inr (YList []) \<and> map_of sample_args ''enable_ssl'' = Some (YBool True)"
proof -
  have "case new_args sample_request of Inl _ \<Rightarrow> False | Inr d \<Rightarrow> True" by code_simp
  then have a: "new_args sample_request = Inr sample_args" by (auto simp: sample_args_def split: sum.splits)
  have page: "add_in_server_list sample_mgr sample_request [] = (Info (), ''x'')"
    by (simp add: add_in_server_list_def a add_game_server_def sample_mgr_def four_mgr_def)
  have now: "yaml_load sample_mgr [] = Inr (YMap [(''server_list'', YList [])])"
    "yaml_load sample_mgr ([] @ yaml_dump sample_mgr sample_args) =
       Inr (YMap (foldl (\<lambda>m (k, v). AList.update k v m) [(''server_list'', YList [])] sample_args))"
    by (simp_all add: sample_mgr_def four_mgr_def)
  have "query_game_server sample_mgr [] = Inr (YList [])" by (simp add: query_game_server_def sample_mgr_def dict_get_def)
  moreover have "sample_request ''enable_ssl'' = Some ''0''" by code_simp
  ultimately show ?thesis using page added_not_listed [OF page a now] ssl_by_any_text [OF a] by auto
qed

end
