(* ===== verification/Debug_Console.thy ===== *)
theory Debug_Console
  imports Py_Shell
begin

text \<open>
  The tools that talk to the debug console of a node: \<^verbatim>\<open>tools/do_profile.py\<close>, which has it take a profile, and
  \<^verbatim>\<open>tools/shut_node.py\<close>, which has it shut down. Both find its port in the configuration file of the node, whose
  line they run as Python with \<open>exec\<close>; what such a statement leaves in the variables is an argument, as are the
  lines of a file, the commands and the connection. A message on the connection and what is received are
  events; the answers depend on all events before.
\<close>

type_synonym vars = "(str \<times> int) list"

record console =
  file_lines :: "str \<Rightarrow> str list res"
  run_py :: "str \<Rightarrow> vars \<Rightarrow> vars res"
  command :: "event list \<Rightarrow> str list \<Rightarrow> str res"
  connects :: "event list \<Rightarrow> str list \<Rightarrow> unit res"
  received :: "event list \<Rightarrow> str \<Rightarrow> str res"

definition run_list :: "console \<Rightarrow> str list \<Rightarrow> str prog" where
  "run_list w = ask (command w) Call"

definition connect :: "console \<Rightarrow> int \<Rightarrow> unit prog" where
  "connect w p = ask (connects w) Call [''connect'', int_str p]"

definition recv :: "console \<Rightarrow> str prog" where
  "recv w = ask (received w) Out ''recv''"

definition sendall :: "str \<Rightarrow> unit prog" where
  "sendall s = emit (Put ''socket'' s)"

definition LINE_END :: str where "LINE_END = [CHR 0x0A]"

subsection \<open>The port, as the profiler finds it\<close>

text \<open>\<open>^server_id\s*=\s(\d+)\<close>\<close>

definition match_id :: "str \<Rightarrow> int option" where
  "match_id l =
     (if \<not> starts_with ''server_id'' l then None
      else case dropWhile is_ws (drop 9 l) of
        e # c # s \<Rightarrow>
          (if e = CHR ''='' \<and> is_ws c \<and> takeWhile is_digit s \<noteq> [] then Some (int (digits_val (takeWhile is_digit s))) else None)
      | _ \<Rightarrow> None)"

definition note_line :: "int \<times> str \<Rightarrow> str \<Rightarrow> int \<times> str" where
  "note_line = (\<lambda>(i, t) l.
     (case match_id l of None \<Rightarrow> i | Some j \<Rightarrow> j, if starts_with ''debug_console_port'' l then l else t))"

definition profile_port :: "console \<Rightarrow> str list \<Rightarrow> int res" where
  "profile_port w ls =
     (case foldl note_line (0, []) ls of (i, t) \<Rightarrow>
        if i \<noteq> 0 \<and> t \<noteq> [] then rbind (run_py w t [(''server_id'', i)]) (\<lambda>vs. dict_get vs ''debug_console_port'')
        else Inl (RuntimeError ''cannot find debug port''))"

definition get_port :: "console \<Rightarrow> str \<Rightarrow> int prog" where
  "get_port w pid =
     pbind (run_list w [''ps'', ''u'', ''-p'', pid]) (\<lambda>out.
     plift (rbind (nth_res (split_on LINE_END out) 1) (\<lambda>l.
       rbind (of_option ValueError (find_sub ''skynet'' l)) (\<lambda>k.
       rbind (nth_res (split_ws (drop (k + 7) l)) 0) (\<lambda>f.
       rbind (file_lines w (''../'' @ f)) (profile_port w))))))"

definition make_cmd :: "console \<Rightarrow> str \<Rightarrow> int \<Rightarrow> int \<Rightarrow> str prog" where
  "make_cmd w data_file pid sec =
     pbind (run_list w [''ps'', ''-T'', ''-p'', int_str pid]) (\<lambda>ps.
     pbind (plift (mapR (\<lambda>l. nth_res (split_ws l) 1) (filter (\<lambda>l. l \<noteq> []) (drop 1 (split_on LINE_END ps))))) (\<lambda>tids.
     pbind (emit (Sys (''cat /proc/'' @ int_str pid @ ''/maps > '' @ data_file))) (\<lambda>_.
     pbind (run_list w [''sh'', ''-c'', ''readelf -s ../bin/skynet | grep luaV_execute'']) (\<lambda>elf.
       plift (if length (split_on LINE_END (strip elf)) \<noteq> 1 then Inl AssertionError
         else rbind (rbind (nth_res (split_ws (strip elf)) 1) int16_of) (\<lambda>start.
           rbind (rbind (nth_res (split_ws (strip elf)) 2) int_of) (\<lambda>size.
             Inr (join '' '' ([''profile'', int_str sec, data_file, int_str start, int_str size] @ [join '' '' tids])))))))))"

definition do_profile :: "console \<Rightarrow> str \<Rightarrow> str list \<Rightarrow> unit prog" where
  "do_profile w data_file argv =
     (if length argv < 3 then pret ()
      else pbind (plift (int_of (argv ! 1))) (\<lambda>pid.
        pbind (plift (int_of (argv ! 2))) (\<lambda>sec.
        pbind (get_port w (int_str pid)) (\<lambda>port.
        pbind (make_cmd w data_file pid sec) (\<lambda>cmd.
          if ''--show'' \<in> set argv then pret ()
          else pbind (connect w port) (\<lambda>_.
            pbind (recv w) (\<lambda>_. pbind (sendall (cmd @ LINE_END)) (\<lambda>_. pbind (recv w) (\<lambda>_. pret ())))))))))"

subsection \<open>The port, as the shut-down tool finds it\<close>

definition after_eq :: "str \<Rightarrow> str" where
  "after_eq l = strip (case find_sub ''='' l of None \<Rightarrow> l | Some k \<Rightarrow> drop (k + 1) l)"

definition eq_pos :: "str \<Rightarrow> int" where
  "eq_pos l = (case find_sub ''='' l of None \<Rightarrow> - 1 | Some k \<Rightarrow> int k)"

text \<open>The message of the last exception adds a file object to a text, which is a \<open>TypeError\<close>.\<close>

fun scan_port :: "console \<Rightarrow> int option \<Rightarrow> str list \<Rightarrow> int res" where
  "scan_port w sid [] = Inl TypeError"
| "scan_port w sid (l # ls) =
     rbind (if starts_with ''server_id'' l then rbind (int_of (after_eq l)) (\<lambda>i. Inr (Some i)) else Inr sid) (\<lambda>sid'.
       if starts_with ''debug_console_port'' l
       then rbind (of_option (RuntimeError ''UnboundLocalError'') sid') (\<lambda>i.
         rbind (run_py w (''port='' @ replace_sub ''server_id'' (int_str i) (after_eq l)) [(''server_id'', i), (''pos'', eq_pos l)])
           (\<lambda>vs. of_option (RuntimeError ''NameError'') (map_of vs ''port'')))
       else scan_port w sid' ls)"

text \<open>The test that the node is one's own asserts a text that is not empty, so it never fails.\<close>

definition shut_port :: "console \<Rightarrow> str \<Rightarrow> int prog" where
  "shut_port w f =
     pbind (run_list w [''ps'', ''aux'']) (\<lambda>_.
     pbind (run_list w [''whoami'']) (\<lambda>_.
       plift (rbind (file_lines w f) (scan_port w None))))"

text \<open>\<open>getopt(argv, "c:p:")\<close>; \<open>None\<close> is the \<open>GetoptError\<close>.\<close>

fun getopt :: "str list \<Rightarrow> (str \<times> str) list option" where
  "getopt [] = Some []"
| "getopt (a # as) =
     (if \<not> starts_with ''-'' a \<or> a = ''-'' \<or> a = ''--'' then Some []
      else if take 2 a = ''-c'' \<or> take 2 a = ''-p'' then
        (if drop 2 a \<noteq> [] then map_option (\<lambda>os. (take 2 a, drop 2 a) # os) (getopt as)
         else case as of [] \<Rightarrow> None | v # bs \<Rightarrow> map_option (\<lambda>os. (a, v) # os) (getopt bs))
      else None)"

fun take_port :: "console \<Rightarrow> int option \<Rightarrow> (str \<times> str) list \<Rightarrow> int option prog" where
  "take_port w p [] = pret p"
| "take_port w p ((k, v) # os) =
     pbind (if k = ''-c'' then shut_port w v else plift (int_of v)) (\<lambda>q. take_port w (Some q) os)"

text \<open>Reading until the node closes the connection.\<close>

partial_function (option) drain :: "console \<Rightarrow> unit prog" where
  "drain w h =
     (case received w h ''recv'' of
        Inl e \<Rightarrow> Some (Inl e, h @ [Out ''recv''])
      | Inr s \<Rightarrow> if s = [] then Some (Inr (), h @ [Out ''recv'']) else drain w (h @ [Out ''recv'']))"

definition shut_node :: "console \<Rightarrow> str list \<Rightarrow> unit prog" where
  "shut_node w argv =
     (case getopt (drop 1 argv) of
        None \<Rightarrow> pret ()
      | Some os \<Rightarrow> pbind (take_port w None os) (\<lambda>p.
          if p = None \<or> p = Some 0 then pret ()
          else (\<lambda>h. case connect w (the p) h of
              None \<Rightarrow> None
            | Some (Inl _, h1) \<Rightarrow> Some (Inr (), h1)
            | Some (Inr _, h1) \<Rightarrow> pbind (recv w) (\<lambda>_. pbind (sendall (''shutdown'' @ LINE_END)) (\<lambda>_. drain w)) h1)))"

subsection \<open>Both find the same port\<close>

definition id_line :: "int \<Rightarrow> str" where
  "id_line i = ''server_id = '' @ int_str i @ LINE_END"

definition port_line :: "int \<Rightarrow> str" where
  "port_line p = ''debug_console_port = '' @ int_str p @ LINE_END"

definition plain_line :: "str \<Rightarrow> bool" where
  "plain_line l \<longleftrightarrow> \<not> starts_with ''server_id'' l \<and> \<not> starts_with ''debug_console_port'' l"

lemma int_str_nat: "0 \<le> i \<Longrightarrow> isdigit (int_str i) \<and> int (digits_val (int_str i)) = i"
  using nat_str_digits by (simp add: int_str_def)

lemma match_id_line: "0 \<le> i \<Longrightarrow> match_id (id_line i) = Some i"
proof -
  assume "0 \<le> i"
  then have d: "isdigit (int_str i)" "int (digits_val (int_str i)) = i" using int_str_nat by blast+
  have "takeWhile is_digit (int_str i @ LINE_END) = int_str i"
    using d(1) by (subst takeWhile_append2) (auto simp: isdigit_def LINE_END_def is_digit_def)
  moreover have "dropWhile is_ws (drop 9 (id_line i)) = CHR ''='' # CHR '' '' # int_str i @ LINE_END"
    by (simp add: id_line_def is_ws_def)
  moreover have "is_ws (CHR '' '')" "starts_with ''server_id'' (id_line i)" by (simp_all add: is_ws_def id_line_def starts_with_def)
  ultimately show ?thesis using d by (simp add: match_id_def isdigit_def)
qed

lemma note_plain: "\<forall>l \<in> set ls. plain_line l \<Longrightarrow> foldl note_line q ls = q"
  by (induction ls arbitrary: q) (auto simp: note_line_def plain_line_def match_id_def)

lemma scan_plain: "\<forall>l \<in> set ls. plain_line l \<Longrightarrow> scan_port w sid (ls @ rest) = scan_port w sid rest"
  by (induction ls) (auto simp: plain_line_def)

lemma line_starts: "starts_with ''server_id'' (id_line i)" "\<not> starts_with ''debug_console_port'' (id_line i)"
  "starts_with ''debug_console_port'' (port_line p)" "\<not> starts_with ''server_id'' (port_line p)"
  by (simp_all add: id_line_def port_line_def starts_with_def)

lemma int_str_no_ws: "c \<in> set (int_str i) \<Longrightarrow> \<not> is_ws c"
  using int_str_chars is_digit_not_ws by (fastforce simp: is_ws_def)

lemma strip_padded: "\<forall>c \<in> set x. \<not> is_ws c \<Longrightarrow> x \<noteq> [] \<Longrightarrow> strip (CHR '' '' # x @ LINE_END) = x"
proof -
  assume x: "\<forall>c \<in> set x. \<not> is_ws c" "x \<noteq> []"
  have "dropWhile is_ws (CHR '' '' # x @ LINE_END) = x @ LINE_END" using x by (cases x) (auto simp: is_ws_def)
  moreover have "dropWhile is_ws (rev (x @ LINE_END)) = rev x"
    using x by (cases x rule: rev_cases) (auto simp: LINE_END_def is_ws_def)
  ultimately show ?thesis by (simp add: strip_def)
qed

lemma int_str_some: "int_str i \<noteq> []"
  using nat_str_digits by (simp add: int_str_def isdigit_def)

lemma after_eq_lines: "after_eq (id_line i) = int_str i" "after_eq (port_line p) = int_str p"
  using strip_padded [OF _ int_str_some] int_str_no_ws
  by (simp_all add: after_eq_def id_line_def port_line_def starts_with_Cons)

lemma no_name_in_number: "replace_sub ''server_id'' x (int_str p) = int_str p"
proof -
  have "CHR ''s'' \<notin> set (int_str p)" using int_str_chars by (fastforce simp: is_digit_def)
  then have "\<not> contains ''server_id'' (int_str p)" by (auto simp: contains_iff)
  then have "split_on ''server_id'' (int_str p) = [int_str p]" by (subst split_on.simps) (simp add: contains_def)
  then show ?thesis by (simp add: replace_sub_def)
qed

lemma note_lines: "0 \<le> i \<Longrightarrow> note_line (j, t) (id_line i) = (i, t)" "note_line (j, t) (port_line p) = (j, port_line p)"
  by (simp_all add: note_line_def match_id_line line_starts) (simp add: match_id_def line_starts)

text \<open>
  C40. On a configuration file with the two lines that the generator writes, the profiler, which takes the last
  matching lines and runs the whole line, and the shut-down tool, which stops at the first and runs what stands
  behind the equals sign, connect to the same port, the one in the file.
\<close>

theorem ports_agree:
  assumes lines: "ls = pre @ [id_line i] @ mid @ [port_line p] @ post" "\<forall>l \<in> set (pre @ mid @ post). plain_line l" "0 < i"
    and python: "\<forall>vs. run_py w (port_line p) vs = Inr (AList.update ''debug_console_port'' p vs)"
      "\<forall>vs. run_py w (''port='' @ int_str p) vs = Inr (AList.update ''port'' p vs)"
  shows "profile_port w ls = Inr p \<and> scan_port w None ls = Inr p"
proof
  have pl: "\<forall>l \<in> set pre. plain_line l" "\<forall>l \<in> set mid. plain_line l" "\<forall>l \<in> set post. plain_line l" using lines(2) by auto
  have "foldl note_line (0, []) ls = (i, port_line p)"
    using lines(1,3) pl by (simp add: note_plain note_lines)
  moreover have "port_line p \<noteq> []" by (simp add: port_line_def)
  ultimately show "profile_port w ls = Inr p" using lines(3) python(1) by (simp add: profile_port_def dict_get_def)
  show "scan_port w None ls = Inr p"
    using lines(1) pl python(2) by (simp add: scan_plain line_starts after_eq_lines no_name_in_number int_of_def)
qed

lemma owner_not_checked:
  assumes "\<And>h c. \<exists>s. command w h c = Inr s"
  shows "\<exists>h'. shut_port w f h = Some (rbind (file_lines w f) (scan_port w None), h')"
proof -
  obtain g where "\<And>h c. command w h c = Inr (g h c)" using assms by metis
  then show ?thesis by (simp add: shut_port_def run_list_def prog_simps)
qed

subsection \<open>The wait for the node to close\<close>

abbreviation RECV :: event where "RECV \<equiv> Out ''recv''"

lemma drain_enough:
  "(case received w (h @ replicate n RECV) ''recv'' of Inl e \<Rightarrow> True | Inr s \<Rightarrow> s = []) \<Longrightarrow> \<exists>q. drain w h = Some q"
proof (induction n arbitrary: h)
  case 0
  then show ?case by (subst drain.simps) (auto split: sum.splits)
next
  case (Suc n)
  then have "\<exists>q. drain w (h @ [RECV]) = Some q" by simp
  then show ?case by (subst drain.simps) (auto split: sum.splits)
qed

definition closed_once :: "console \<Rightarrow> event list \<Rightarrow> bool" where
  "closed_once w h \<longleftrightarrow> (\<exists>n. case received w (h @ replicate n RECV) ''recv'' of Inl e \<Rightarrow> True | Inr s \<Rightarrow> s = [])"

lemma drain_stops: "drain w h = Some q \<Longrightarrow> closed_once w h"
proof (rule drain.raw_induct [where P = "\<lambda>w h q. closed_once w h"])
  fix f w h q
  assume IH: "\<And>w h q. f w h = Some q \<Longrightarrow> closed_once w h"
    and eq: "(case received w h ''recv'' of Inl e \<Rightarrow> Some (Inl e, h @ [RECV])
      | Inr s \<Rightarrow> if s = [] then Some (Inr (), h @ [RECV]) else f w (h @ [RECV])) = Some q"
  show "closed_once w h"
  proof (cases "\<exists>s. received w h ''recv'' = Inr s \<and> s \<noteq> []")
    case True
    then obtain s where s: "received w h ''recv'' = Inr s" "s \<noteq> []" by blast
    from eq have "f w (h @ [RECV]) = Some q" unfolding s(1) using s(2) by simp
    from IH [OF this] obtain n where
      "case received w ((h @ [RECV]) @ replicate n RECV) ''recv'' of Inl e \<Rightarrow> True | Inr s \<Rightarrow> s = []"
      unfolding closed_once_def ..
    then show ?thesis unfolding closed_once_def by (intro exI [of _ "Suc n"]) simp
  next
    case False
    then show ?thesis unfolding closed_once_def by (intro exI [of _ 0]) (auto split: sum.splits)
  qed
qed

text \<open>
  The shut-down tool waits for ever unless the node closes the connection or it breaks: an empty reception or
  an exception is the only way out, and it is taken as soon as it comes.
\<close>

theorem drain_returns_iff:
  "drain w h \<noteq> None \<longleftrightarrow> (\<exists>n. case received w (h @ replicate n RECV) ''recv'' of Inl e \<Rightarrow> True | Inr s \<Rightarrow> s = [])"
proof
  assume "drain w h \<noteq> None"
  then show "\<exists>n. case received w (h @ replicate n RECV) ''recv'' of Inl e \<Rightarrow> True | Inr s \<Rightarrow> s = []"
    using drain_stops unfolding closed_once_def by blast
qed (use drain_enough in fastforce)

subsection \<open>The hypotheses can hold\<close>

text \<open>Python on assignments of a number.\<close>

definition assign_only :: "str \<Rightarrow> vars \<Rightarrow> vars res" where
  "assign_only s vs =
     of_option ValueError (case find_sub ''='' s of None \<Rightarrow> None
       | Some k \<Rightarrow> map_option (\<lambda>p. AList.update (strip (take k s)) p vs) (parse_int (drop (k + 1) s)))"

definition assign_console :: console where
  "assign_console = \<lparr>file_lines = (\<lambda>f. Inr []), run_py = assign_only, command = (\<lambda>h c. Inr []), connects = (\<lambda>h c. Inr ()),
     received = (\<lambda>h c. Inr [])\<rparr>"

lemma assign_number:
  "find_sub ''='' (n @ CHR ''='' # x) = Some (length n) \<Longrightarrow> strip x = int_str p \<Longrightarrow>
   assign_only (n @ CHR ''='' # x) vs = Inr (AList.update (strip n) p vs)"
proof -
  assume f: "find_sub ''='' (n @ CHR ''='' # x) = Some (length n)" and x: "strip x = int_str p"
  have "parse_int x = parse_int (strip x)" by (simp add: parse_int_def)
  then have "parse_int x = Some p" using x by simp
  then show ?thesis using f by (simp add: assign_only_def)
qed

lemma ports_agree_witness:
  "profile_port assign_console [''--'', id_line 55, port_line 10017, []] = Inr 10017 \<and>
   scan_port assign_console None [''--'', id_line 55, port_line 10017, []] = Inr 10017"
proof -
  have n: "strip ''debug_console_port '' = ''debug_console_port''" "strip ''port'' = ''port''" by code_simp+
  have x: "strip (CHR '' '' # int_str p @ LINE_END) = int_str p" "strip (int_str p) = int_str p" for p
    using strip_padded [OF _ int_str_some] int_str_no_ws strip_no_ws by blast+
  have p: "run_py assign_console (port_line p) vs = Inr (AList.update ''debug_console_port'' p vs)" for p vs
    using assign_number [of "''debug_console_port ''" "CHR '' '' # int_str p @ LINE_END" p vs] x(1) n(1)
    by (simp add: port_line_def assign_console_def)
  have q: "run_py assign_console (''port='' @ int_str p) vs = Inr (AList.update ''port'' p vs)" for p vs
    using assign_number [of "''port''" "int_str p" p vs] x(2) n(2) by (simp add: assign_console_def)
  have l: "[''--'', id_line 55, port_line 10017, []] = [''--''] @ [id_line 55] @ [] @ [port_line 10017] @ [[]]" by simp
  have r: "\<forall>l \<in> set ([''--''] @ [] @ [[]]). plain_line l" by (simp add: plain_line_def starts_with_Cons)
  show ?thesis by (rule ports_agree [OF l r]) (simp_all only: p q zero_less_numeral simp_thms)
qed

end
