(* ===== verification/Spec2Isabelle.thy ===== *)
theory Spec2Isabelle
  imports Excel_Main Gm_Admin_Proofs Op_Server Gm_Pages Gm_Notices Prof_View Trans_Table Server_Files Log_Center
    Svn_Help Server_Run_Proofs Reload_Watch Error_Watch Game_Manager Debug_Console
begin

text \<open>
  Verification of the Python tools of UEserver, a game server with its operation and data tools. The
  game logic itself is Lua and C; the Python code under \<^verbatim>\<open>src/\<close> exports the game data, translates its
  texts, configures, starts, watches and stops the servers, operates them from the web, collects their logs
  and shows their profiles. Each of
  these tools is modelled as shallow HOL functions, one theory per part. The parts meet in files: the
  exported tables, the configuration files, the notice and version files; in the operation lock of a
  server; and in the accounts that guard every page of the management server.

  Conventions (\<open>Py_Prelude\<close>, \<open>Py_String\<close>, \<open>Py_Float\<close>). A Python exception is the \<open>Inl\<close> side of a sum
  (\<open>'a res\<close>), sequenced by \<open>rbind\<close>; a loop that may raise is \<open>foldR\<close> or \<open>mapR\<close>. A dict is an
  association list whose order stands for the iteration order, so a theorem for all lists holds for every
  order. Strings are lists of UTF-8 bytes; \<open>strip\<close>, \<open>lower\<close> and \<open>isdigit\<close> are the ASCII ones.
  Integers are unbounded, floats are rationals (no infinity, no NaN), printed by a search over
  the shortest decimal that reads back, with fuel 1200, more than the digits of any double.

  Excel export, \<^verbatim>\<open>sharedata/exceldata/tools/parse_xls.py\<close>. \<open>Excel_Values\<close>: the column types and the parsing of a
  cell (\<open>parse_value\<close>). \<open>Excel_Checkers\<close>: the text of a check and its arguments. \<open>Excel_Table\<close>: reading the sheets of
  a table, its header, rows, keys and named keys. \<open>Excel_Checks\<close>: the checks \<open>ref\<close>, \<open>uniq\<close> and the
  others on the columns of all tables. \<open>Excel_Drop\<close>: the drop groups, their cached cycle search and the
  path it reports. \<open>Excel_Lua\<close>: the Lua text of values and tables. \<open>Excel_Main\<close>: the whole run. The lemmas show the
  types and keys of what is read, that references resolve, that the cycle search is exact although
  it caches unfinished results, and that nothing is written unless every check passed.

  Management server, \<^verbatim>\<open>server/tools/gm_server\<close>. \<open>Gm_Store\<close>: the document store of \<^verbatim>\<open>db.py\<close>, with overlapping
  creations as a step relation. \<open>Gm_Users\<close>: \<^verbatim>\<open>user_manager.py\<close>, accounts, groups, powers, sessions.
  \<open>Gm_Admin\<close> and \<open>Gm_Admin_Proofs\<close>: the account and group pages, login and start of \<^verbatim>\<open>gm_main.py\<close>, with the
  invariant of the server. \<open>Gm_Router\<close>: requests to the game (\<^verbatim>\<open>common_utils.py\<close>). \<open>Gm_Views\<close> and
  \<open>Gm_Pages\<close>: the other pages (\<^verbatim>\<open>view_*.py\<close>), their routes and the guard in front of them.
  \<open>Gm_Notices\<close>: system notices, patch addresses, operation log, the version files and the server that
  serves them (\<^verbatim>\<open>version_http\<close>). A handler is atomic except where \<open>Gm_Store\<close> splits it. Forms carry their
  parameters as texts; JSON text, MD5, the clock, new ids and the game's answers are arguments.

  Server operations, \<^verbatim>\<open>dev_http/op_server.py\<close>, \<^verbatim>\<open>dev_http/main.py\<close> and the reduced copy in \<^verbatim>\<open>gm_server\<close>:
  \<open>Op_Server\<close>. The operation lock, log and tasks as a step relation over requests, task steps,
  readers and exceptions; what a process or a database does is the outcome of a step.

  Profile viewer, \<^verbatim>\<open>server/tools/show_profile.py\<close>. \<open>Prof_Node\<close>: the call tree and its passes, with a locale for
  passes that preserve the counts. \<open>Prof_Parse\<close>: memory map, addresses, Lua functions and the tree of
  a profile file. \<open>Prof_Report\<close>: saving, loading and the table of functions. \<open>Prof_Zoom\<close>: the graph of functions and
  its view. \<open>Prof_View\<close>: the tree view, as a function of the keys pressed. The lemmas show that
  no sample is lost, that reading and the views end or exactly when they do not, and that the selection stays valid.

  Translation, \<^verbatim>\<open>sharedata/exceldata/tools/tranlation/tranlation.py\<close>. \<open>Trans_Scan\<close>: the scanner for Chinese strings
  in Lua, proved equal to a plain lexer; its fuel is the length of the text plus one, every round consumes
  a character. \<open>Trans_Table\<close>: the three translation tables, with a locale \<open>collector\<close> for what they
  share. Dict entries that share a line with the list are indices into the list.

  Installation, \<^verbatim>\<open>server/config.template\<close> and \<^verbatim>\<open>server/tools/deploy/make_inventory.py\<close>. \<open>Server_Config\<close>: the
  nodes and ports of \<^verbatim>\<open>all_server.py\<close>, with the exact condition for distinct ports of a host.
  \<open>Server_Files\<close>: the generator of configuration files and the deployment inventory. Parsing YAML,
  the template engine and the time zone are arguments.

  Log upload, \<^verbatim>\<open>server/tools/log_tools\<close>. \<open>Py_Time\<close>: the calendar. \<open>Log_Node\<close>: \<^verbatim>\<open>node_main.py\<close>, the rows of the log
  files gathered by log name, and its loop over the clock as an inductive relation with arbitrary pauses and
  durations. \<open>Log_Center\<close>: \<^verbatim>\<open>center_main.py\<close>, the archives of a day and the file of an hour. The lemmas show that every row lands
  in its file, that no slot of time is served twice, and that the two programs agree on file names.

  Scripts around the servers. \<open>Py_Shell\<close>: programs that act through other programs, as functions from the events
  so far to a result and more events, or \<open>None\<close> when they never return; what is answered may depend on
  everything that happened. \<open>Svn_Review\<close> and \<open>Svn_Help\<close>: the review client \<^verbatim>\<open>server/RbTools/svnr.py\<close> and its wrapper
  \<^verbatim>\<open>server/svnhelp.py\<close>. \<open>Server_Run\<close> and \<open>Server_Run_Proofs\<close>: the scripts that start and stop nodes
  (\<^verbatim>\<open>server/start_all.py\<close> and its neighbours, \<^verbatim>\<open>server/tools/deploy/check_skynet.py\<close>). \<open>Reload_Watch\<close>:
  \<^verbatim>\<open>server/tools/auto_reload.py\<close> over a sequence of file system snapshots. \<open>Error_Watch\<close>:
  \<^verbatim>\<open>server/tools/error_watcher/error_watch.py\<close>. The lemmas show which statements and commands a run sends in
  which order, exactly when a wait ends, that nodes start only after the old ones are gone, and that no
  changed file and no new byte is missed. \<open>Game_Manager\<close>: the pages of \<^verbatim>\<open>server/tools/game_server_mgr\<close>, which run these
  scripts. \<open>Debug_Console\<close>: \<^verbatim>\<open>server/tools/do_profile.py\<close> and \<^verbatim>\<open>server/tools/shut_node.py\<close>, their messages to a node and
  the port both find.

  Where the parts meet. The predicate \<open>emits\<close> of \<open>Py_Shell\<close> says what a program may do and is closed under its
  constructs; with it the theorems of this theory follow a script into those that run it: a remote operation
  (\<open>Op_Server\<close>) into the script it calls (\<open>Server_Run\<close>), and the start of a server into the files that the generator
  wrote for it (\<open>Server_Files\<close>). \<open>Game_Manager\<close> does the same for a page, and \<open>Log_Center\<close> follows a logged row from the host
  to the file of the centre.

  Not modelled. HTML templates, static files, the vendored bottle, get-pip and Python distributions; parsing of
  xls, xlsx and CSV files (a file is its grid of cells); processes, sockets, MySQL and MongoDB beyond two
  association lists and the statements sent; \<^verbatim>\<open>tail_all_log.py\<close>, whose main function returns at once, and the notice server
  \<^verbatim>\<open>notice_http\<close>, one page of static files. The caches of the profile reader
  hold results of functions that are pure in the model and are left out. What a run prints to the terminal
  is left out unless it is its result; files written before an exception leaves a run are not followed.
\<close>

subsection \<open>Remote operations and the scripts they run\<close>

lemma id_not_kill: "id_str s \<noteq> ''--kill''"
proof
  assume "id_str s = ''--kill''"
  then have "CHR ''k'' \<in> set (int_str (Op_Server.server_id s))" by (simp add: id_str_def)
  then show False using int_str_chars by (fastforce simp: is_digit_def)
qed

lemma kill_option: "''--kill'' \<in> set (drop 2 (shutdown_cmd s @ (if k then [''--kill''] else []))) \<longleftrightarrow> k"
  using id_not_kill [of s] by (simp add: shutdown_cmd_def)

text \<open>
  C37. The command that a remote operation runs to shut its game server down does not look at the server it is
  given: whatever its id, plain or with \<open>--kill\<close>, \<^verbatim>\<open>shutdown_server.py\<close> asks for the processes of the server in the
  fourth listed configuration only, so only those can be stopped.
\<close>

theorem remote_op_ignores_server:
  assumes "check w h LS_GAME = Inr out" "the_game out = Inr (c, i)"
    and run: "shutdown_server_main w True (drop 2 (shutdown_cmd s @ (if k then [''--kill''] else []))) h = Some (r, h')"
  shows "\<exists>t. h' = h @ t \<and> set (asked t) \<subseteq> {LS_GAME, reload_ps i} \<union>
    (\<lambda>n. skynet_ps (''config/'' @ n)) ` set (c # (if k then map (node_config i) [''dynasty'', ''chat''] else []))"
proof -
  let ?cs = "c # (if k then map (node_config i) [''dynasty'', ''chat''] else [])"
  have "stop_nodes w i k ?cs (h @ [Out LS_GAME]) = Some (r, h')"
    using run assms(1,2) unfolding shutdown_server_main_def kill_option
    by (simp add: Let_def check_output_def pbind_def ask_def plift_def)
  moreover have "emits (asks_in (insert (reload_ps i) ((\<lambda>c. skynet_ps (''config/'' @ c)) ` set ?cs))) (stop_nodes w i k ?cs)"
    by (rule stop_nodes_emits) blast+
  ultimately obtain t where t: "h' = h @ Out LS_GAME # t"
      "\<forall>e \<in> set t. asks_in (insert (reload_ps i) ((\<lambda>c. skynet_ps (''config/'' @ c)) ` set ?cs)) e" using emitsD by fastforce
  then show ?thesis using asks_in_trace [OF t(2)] by (intro exI [of _ "Out LS_GAME # t"]) (auto simp del: list.map)
qed

lemma remote_op_ignores_server_witness:
  "\<exists>r t. shutdown_server_main four_host True (drop 2 (shutdown_cmd (new_server 50 []))) [] = Some (r, t) \<and>
     set (asked t) \<subseteq> {LS_GAME, reload_ps 55, skynet_ps ''config/s55_game.lua''}"
proof -
  obtain h' where h': "shutdown_server_main four_host True (drop 2 (shutdown_cmd (new_server 50 []) @ (if False then [''--kill''] else []))) []
      = Some (Inr (), h')" using four_shuts [OF kill_option] by blast
  from remote_op_ignores_server [OF four_listed(2,1) h'] h' show ?thesis by auto
qed

subsection \<open>Generated files and started nodes\<close>

lemma node_config_file: "node_config i t = node_id i t @ ''.lua''"
  by (simp add: node_config_def node_id_def)

text \<open>
  C38. After a run of the generator, \<^verbatim>\<open>server_mgr.py start\<close> for a game server launches exactly the nodes that the
  generator made for it, in their order, each with the file the generator wrote for it.
\<close>

theorem mgr_starts_generated:
  assumes load: "load_servers mktime c = Inr ss" and names: "map_of (global_config c) ''node_name'' = None"
    and gen: "generate e (server_dict ss) [''generator.py''] fs = Inr (fs', printed)"
    and sv: "map_of (server_dict ss) i = Some sv" "s_type sv = ''game''"
    and run: "server_mgr w True [prg, ''start'', int_str i] h = Some (Inr (), h')"
  shows "\<exists>t. h' = h @ t \<and> launches t = map (\<lambda>n. launch (node_file n)) (node_list sv) \<and>
    (\<forall>n \<in> set (node_list sv). fs' (node_file n) = rendered e n \<and> rendered e n \<noteq> None)"
proof -
  have mem: "(i, sv) \<in> set (server_dict ss)" using sv(1) by (rule map_of_SomeD)
  then have s: "s_id sv = i" "sv \<in> set ss" using server_dict_mem by blast+
  have "map node_file (node_list sv) = map (node_config i) [''game'', ''chat'', ''dynasty'']"
    using names_files [OF loaded_game_names [OF load names s(2) sv(2)]] by (simp add: s(1) node_config_file)
  from arg_cong [OF this, of "map launch"]
  have "map (\<lambda>n. launch (node_file n)) (node_list sv) = map (\<lambda>n. launch (node_config i n)) [''game'', ''chat'', ''dynasty'']"
    by (simp add: o_def)
  moreover have "\<forall>n \<in> set (node_list sv). fs' (node_file n) = rendered e n \<and> rendered e n \<noteq> None"
    using generate_all [OF load names gen] templates_loop mem by fastforce
  ultimately show ?thesis using mgr_start_blind [OF run] by metis
qed

definition one_game :: config where
  "one_game = sample_config\<lparr>confs := [sample_entry ''game'' 50]\<rparr>"

lemma mgr_starts_generated_witness:
  "\<exists>ss sv fs' ls h'. load_servers (\<lambda>t. 0) one_game = Inr ss \<and> map_of (server_dict ss) 50 = Some sv \<and>
     generate sample_genv (server_dict ss) [''generator.py''] (\<lambda>f. None) = Inr (fs', ls) \<and>
     server_mgr idle True [''server_mgr.py'', ''start'', int_str 50] [] = Some (Inr (), h') \<and>
     launches h' = map (\<lambda>n. launch (node_file n)) (node_list sv)"
proof -
  have "case load_servers (\<lambda>t. 0) one_game of Inl e \<Rightarrow> False | Inr ss \<Rightarrow>
      (case map_of (server_dict ss) 50 of None \<Rightarrow> False | Some sv \<Rightarrow> s_type sv = ''game'') \<and>
      (case generate sample_genv (server_dict ss) [''generator.py''] (\<lambda>f. None) of Inl e \<Rightarrow> False | Inr r \<Rightarrow> True)"
    by code_simp
  then obtain ss sv fs' ls where l: "load_servers (\<lambda>t. 0) one_game = Inr ss"
    "generate sample_genv (server_dict ss) [''generator.py''] (\<lambda>f. None) = Inr (fs', ls)"
    "map_of (server_dict ss) 50 = Some sv" "s_type sv = ''game''"
    by (auto split: sum.splits option.splits)
  have n: "map_of (global_config one_game) ''node_name'' = None" by code_simp
  obtain h' where h': "server_mgr idle True [''server_mgr.py'', ''start'', int_str 50] [] = Some (Inr (), h')"
    using server_mgr_start_total [OF obliging_idle] by blast
  from mgr_starts_generated [OF l(1) n l(2-4) h'] l h' show ?thesis by auto
qed

end
